(* ===== verification/Prelude.thy ===== *)
theory Prelude
  imports Complex_Main "HOL-Library.Word" "HOL-Library.Monad_Syntax"
begin

text \<open>
  What the components share: names for the machine integers of the source, the
  rounding of integer division in C++, and the rules that let the simplifier
  take a \<open>do\<close> block over \<^typ>\<open>'a option\<close> apart.

  A computation of the model that touches the outside world (the device, the kernel, a
  socket) has type \<open>('a \<times> 'w) option\<close>: the value and the new world, or
  \<^term>\<open>None\<close> when the C++ has no defined outcome, because a loop does not end
  or an array is indexed out of its bounds. So every theorem of the form
  ``if it returns'' stands beside one that says when it returns.
\<close>

type_synonym u32 = "32 word"
type_synonym u64 = "64 word"

text \<open>
  Durations and time points of \<open>std::chrono\<close> are signed 64-bit counts; they are
  integers here, and the theorems about bounds show where they stay inside 64 bits. A
  time point counts nanoseconds, a duration of the state machine milliseconds.
\<close>

type_synonym ms = int
type_synonym ns = int

definition ns_per_ms :: int where
  "ns_per_ms = 1000000"

definition ns_per_s :: int where
  "ns_per_s = 1000000000"

named_theorems unit_defs \<open>the conversion factors of the time units\<close>

lemmas [unit_defs] = ns_per_ms_def ns_per_s_def

text \<open>Integer division of C++ rounds towards zero.\<close>

definition tdiv :: "int \<Rightarrow> int \<Rightarrow> int" where
  "tdiv a b = sgn a * sgn b * (\<bar>a\<bar> div \<bar>b\<bar>)"

lemma tdiv_nonneg [simp]: "0 \<le> a \<Longrightarrow> 0 < b \<Longrightarrow> tdiv a b = a div b"
  by (cases "a = 0") (simp_all add: tdiv_def)

lemma tdiv_neg: "a < 0 \<Longrightarrow> 0 < b \<Longrightarrow> tdiv a b = - ((- a) div b)"
  by (simp add: tdiv_def)

text \<open>\<open>duration_cast\<close> from nanoseconds to milliseconds and to seconds.\<close>

definition ms_of_ns :: "ns \<Rightarrow> ms" where
  "ms_of_ns t = tdiv t ns_per_ms"

definition s_of_ns :: "ns \<Rightarrow> int" where
  "s_of_ns t = tdiv t ns_per_s"

lemma ms_of_ns_nonneg: "0 \<le> t \<Longrightarrow> 0 \<le> ms_of_ns t"
  by (simp add: ms_of_ns_def unit_defs)

lemma ms_of_ns_le: "0 \<le> t \<Longrightarrow> t \<le> d * ns_per_ms \<Longrightarrow> ms_of_ns t \<le> d"
  by (simp add: ms_of_ns_def unit_defs)

text \<open>
  Taking a \<open>do\<close> block apart: the collection \<open>bind_iff\<close> turns the statement
  that a block returned into the statement that each of its parts did.
\<close>

named_theorems bind_iff \<open>when a do block returns\<close>

lemmas [bind_iff] = bind_eq_Some_conv

lemma bind_Some_pair [bind_iff]:
  "(case p of (a, b) \<Rightarrow> f a b) = Some r \<longleftrightarrow> (\<exists>a b. p = (a, b) \<and> f a b = Some r)"
  by (cases p) simp

end
