(* ===== verification/Doubles.thy ===== *)
theory Doubles
  imports Prelude
begin

text \<open>
  The \<open>double\<close> arithmetic of the source: IEEE binary64, rounding to nearest with ties
  to even. A finite double is its exact rational value, and an operation is the exact
  operation followed by \<open>rnd\<close>, which keeps 53 significant bits. Exponents are not
  bounded in \<open>rnd\<close>: the quantities of the state machine (frame intervals, rates,
  thresholds) are zero or between \<open>2 ^ (-40)\<close> and \<open>2 ^ 140\<close>, far inside
  the normal range, so no overflow, subnormal number or negative zero can arise there.
  \<open>ilog\<close> is the exponent of the leading digit, in any base: base 2 here, base 10 where
  numbers are printed.
\<close>

type_synonym double = rat

subsection \<open>The exponent of a positive rational\<close>

function nlog :: "int \<Rightarrow> int \<Rightarrow> nat" where
  "nlog b n = (if b < 2 \<or> n < b then 0 else Suc (nlog b (n div b)))"
  by pat_completeness auto
termination
  by (relation "measure (\<lambda>(b, n). nat n)") (auto simp: int_div_less_self)

declare nlog.simps [simp del]

text \<open>The power with an integer exponent, computed on integers.\<close>

definition pow_rat :: "int \<Rightarrow> int \<Rightarrow> rat" where
  "pow_rat b e = (if 0 \<le> e then of_int (b ^ nat e) else 1 / of_int (b ^ nat (- e)))"

lemma pow_rat_powi: "pow_rat b e = of_int b powi e"
  by (simp add: pow_rat_def power_int_def field_simps)

definition ilog :: "int \<Rightarrow> rat \<Rightarrow> int" where
  "ilog b x =
     (let (p, q) = quotient_of x;
          e = int (nlog b p) - int (nlog b q)
      in if x < pow_rat b e then e - 1 else e)"

lemma nlog_lower: "2 \<le> b \<Longrightarrow> 0 < n \<Longrightarrow> b ^ nlog b n \<le> n"
proof (induction b n rule: nlog.induct)
  case (1 b n)
  show ?case
  proof (cases "n < b")
    case True
    with "1.prems" show ?thesis by (simp add: nlog.simps)
  next
    case False
    with 1 have "b ^ nlog b (n div b) \<le> n div b" by (simp add: pos_imp_zdiv_pos_iff)
    then have "b * b ^ nlog b (n div b) \<le> b * (n div b)" using "1.prems" by simp
    also have "\<dots> \<le> n" using "1.prems" by (simp add: mult_div_mod_eq [symmetric] minus_mod_eq_mult_div [symmetric])
    finally show ?thesis using False "1.prems" by (simp add: nlog.simps [of b n])
  qed
qed

lemma nlog_upper: "2 \<le> b \<Longrightarrow> n < b ^ Suc (nlog b n)"
proof (induction b n rule: nlog.induct)
  case (1 b n)
  show ?case
  proof (cases "n < b")
    case True
    with "1.prems" show ?thesis by (simp add: nlog.simps)
  next
    case False
    with 1 have "n div b < b ^ Suc (nlog b (n div b))" by simp
    then have "b * (n div b + 1) \<le> b * b ^ Suc (nlog b (n div b))" using "1.prems" by simp
    moreover have "n = b * (n div b) + n mod b" by simp
    moreover have "n mod b < b" using "1.prems" by simp
    ultimately have "n < b * b ^ Suc (nlog b (n div b))" unfolding distrib_left by linarith
    then show ?thesis using False "1.prems" by (simp add: nlog.simps [of b n])
  qed
qed

lemma ilog_bounds:
  assumes b: "2 \<le> b" and x: "0 < x"
  shows "of_int b powi ilog b x \<le> x" and "x < of_int b powi (ilog b x + 1)"
proof -
  obtain p q where pq: "quotient_of x = (p, q)" by fastforce
  have q: "0 < q" using pq by (rule quotient_of_denom_pos)
  have xpq: "x = of_int p / of_int q" using pq by (rule quotient_of_div)
  with x q have p: "0 < p" by (simp add: zero_less_divide_iff)
  define B :: rat where "B = of_int b"
  have B: "1 < B" and B0: "B \<noteq> 0" using b by (simp_all add: B_def)
  let ?i = "nlog b p" and ?j = "nlog b q"
  have up: "of_int k < B ^ Suc (nlog b k)" "B ^ nlog b k \<le> of_int k" if "0 < k" for k
  proof -
    from nlog_upper [OF b, of k] have "rat_of_int k < of_int (b ^ Suc (nlog b k))"
      by (simp only: of_int_less_iff)
    then show "of_int k < B ^ Suc (nlog b k)" by (simp add: B_def)
    from nlog_lower [OF b that] have "rat_of_int (b ^ nlog b k) \<le> of_int k"
      by (simp only: of_int_le_iff)
    then show "B ^ nlog b k \<le> of_int k" by (simp add: B_def)
  qed
  let ?e = "int ?i - int ?j"
  have ipq: "ilog b x = (if x < B powi ?e then ?e - 1 else ?e)"
    by (simp add: ilog_def pq B_def pow_rat_powi)
  have "x < B ^ Suc ?i / B ^ ?j"
    unfolding xpq using up [OF p] up [OF q] p q B
    by (intro frac_less) simp_all
  also have "\<dots> = B powi (?e + 1)"
    using B0 by (simp add: power_int_diff power_int_add field_simps)
  finally have hi: "x < B powi (?e + 1)" .
  have "B powi (?e - 1) = B ^ ?i / B ^ Suc ?j"
    using B0 by (simp add: power_int_diff power_int_add field_simps)
  also have "\<dots> \<le> x"
    unfolding xpq using up [OF p] up [OF q] p q B
    by (intro frac_le) simp_all
  finally have lo: "B powi (?e - 1) \<le> x" .
  show "of_int b powi ilog b x \<le> x" "x < of_int b powi (ilog b x + 1)"
    unfolding B_def [symmetric] using ipq lo hi by (auto simp: not_less)
qed

lemma ilog_unique:
  assumes b: "2 \<le> b" and lo: "of_int b powi e \<le> x" and hi: "x < of_int b powi (e + 1)"
  shows "ilog b x = e"
proof -
  have B: "1 < (of_int b :: rat)" using b by simp
  have "(0::rat) < of_int b powi e" using b by (simp add: zero_less_power_int)
  with lo have x: "0 < x" by linarith
  note il = ilog_bounds [OF b x]
  have "of_int b powi ilog b x < (of_int b :: rat) powi (e + 1)" using il(1) hi by linarith
  then have "ilog b x < e + 1" using B by (meson not_less power_int_increasing less_imp_le)
  moreover have "of_int b powi e < (of_int b :: rat) powi (ilog b x + 1)" using il(2) lo by linarith
  then have "e < ilog b x + 1" using B by (meson not_less power_int_increasing less_imp_le)
  ultimately show ?thesis by linarith
qed

lemma ilog_mono:
  assumes b: "2 \<le> b" and x: "0 < x" and xy: "x \<le> y"
  shows "ilog b x \<le> ilog b y"
proof (rule ccontr)
  assume "\<not> ilog b x \<le> ilog b y"
  then have "ilog b y + 1 \<le> ilog b x" by linarith
  then have "(of_int b :: rat) powi (ilog b y + 1) \<le> of_int b powi ilog b x"
    using b by (intro power_int_increasing) simp_all
  moreover have "y < of_int b powi (ilog b y + 1)" using ilog_bounds(2) [OF b] x xy by simp
  ultimately show False using ilog_bounds(1) [OF b x] xy by linarith
qed

subsection \<open>Rounding to the nearest integer, ties to even\<close>

definition rne :: "rat \<Rightarrow> int" where
  "rne x =
     (let f = \<lfloor>x\<rfloor>; d = x - of_int f
      in if d < 1 / 2 then f else if 1 / 2 < d then f + 1
         else if even f then f else f + 1)"

lemma rne_err: "\<bar>of_int (rne x) - x\<bar> \<le> 1 / 2"
  using floor_correct [of x] by (simp add: rne_def Let_def abs_le_iff)

lemma rne_of_int [simp]: "rne (of_int k) = k"
  by (simp add: rne_def)

lemma rne_mono:
  assumes "x \<le> y"
  shows "rne x \<le> rne y"
proof (cases "\<lfloor>x\<rfloor> = \<lfloor>y\<rfloor>")
  case True
  with assms show ?thesis by (simp add: rne_def Let_def)
next
  case False
  with floor_mono [OF assms] have "\<lfloor>x\<rfloor> + 1 \<le> \<lfloor>y\<rfloor>" by linarith
  moreover have "rne x \<le> \<lfloor>x\<rfloor> + 1" and "\<lfloor>y\<rfloor> \<le> rne y"
    by (simp_all add: rne_def Let_def)
  ultimately show ?thesis by linarith
qed

lemma rne_between: "of_int a \<le> x \<Longrightarrow> x \<le> of_int b \<Longrightarrow> a \<le> rne x \<and> rne x \<le> b"
  using rne_mono [of "of_int a" x] rne_mono [of x "of_int b"] by simp

subsection \<open>Rounding to a double\<close>

definition ulp :: "rat \<Rightarrow> rat" where
  \<comment> \<open>the distance between neighbouring doubles in the binade of a positive number\<close>
  "ulp x = pow_rat 2 (ilog 2 x - 52)"

definition rnd :: "rat \<Rightarrow> double" where
  "rnd x =
     (if x = 0 then 0
      else if 0 < x then of_int (rne (x / ulp x)) * ulp x
      else - (of_int (rne (- x / ulp (- x))) * ulp (- x)))"

lemma ulp_powi: "ulp x = 2 powi (ilog 2 x - 52)"
  by (simp add: ulp_def pow_rat_powi)

lemma ulp_pos [simp]: "0 < ulp x"
  by (simp add: ulp_powi zero_less_power_int)

lemma ulp_ne_0 [simp]: "ulp x \<noteq> 0"
  using ulp_pos [of x] by linarith

lemma rnd_0 [simp]: "rnd 0 = 0"
  by (simp add: rnd_def)

lemma rnd_minus: "rnd (- x) = - rnd x"
  by (simp add: rnd_def)

lemma powi_shift: "(2::rat) powi e = 2 ^ n * 2 powi (e - int n)"
  by (simp flip: power_int_of_nat power_int_add)

lemma binade:
  assumes "0 < x"
  shows "2 ^ 52 * ulp x \<le> x" and "x < 2 ^ 53 * ulp x"
proof -
  have "(2::rat) powi ilog 2 x = 2 ^ 52 * ulp x"
    using powi_shift [of "ilog 2 x" 52] by (simp add: ulp_powi)
  moreover from this have "(2::rat) powi (ilog 2 x + 1) = 2 ^ 53 * ulp x" by (simp add: power_int_add)
  ultimately show "2 ^ 52 * ulp x \<le> x" and "x < 2 ^ 53 * ulp x"
    using ilog_bounds [of 2 x] assms by simp_all
qed

lemma rnd_in_binade:
  assumes "0 < x"
  shows "2 ^ 52 * ulp x \<le> rnd x" and "rnd x \<le> 2 ^ 53 * ulp x"
proof -
  have "of_int (2 ^ 52) \<le> x / ulp x" "x / ulp x \<le> of_int (2 ^ 53)"
    using binade [OF assms] by (simp_all add: field_simps)
  then have "2 ^ 52 \<le> rne (x / ulp x) \<and> rne (x / ulp x) \<le> 2 ^ 53" by (rule rne_between)
  then have "rat_of_int (2 ^ 52) \<le> of_int (rne (x / ulp x))" "of_int (rne (x / ulp x)) \<le> rat_of_int (2 ^ 53)"
    by (simp_all only: of_int_le_iff)
  then show "2 ^ 52 * ulp x \<le> rnd x" and "rnd x \<le> 2 ^ 53 * ulp x"
    using assms by (simp_all add: rnd_def)
qed

lemma rnd_pos:
  assumes "0 < x"
  shows "0 < rnd x"
proof -
  have "0 < 2 ^ 52 * ulp x" by simp
  also have "\<dots> \<le> rnd x" using assms by (rule rnd_in_binade)
  finally show ?thesis .
qed

lemma rnd_nonneg [simp]: "0 \<le> x \<Longrightarrow> 0 \<le> rnd x"
  using rnd_pos [of x] by (cases "x = 0") (simp_all add: less_imp_le)

lemma rnd_mono_pos:
  assumes x: "0 < x" and xy: "x \<le> y"
  shows "rnd x \<le> rnd y"
proof (cases "ilog 2 x = ilog 2 y")
  case True
  then have u: "ulp x = ulp y" by (simp add: ulp_powi)
  have "rne (x / ulp x) \<le> rne (y / ulp x)"
    using xy by (intro rne_mono divide_right_mono) (simp_all add: less_imp_le)
  with x xy show ?thesis by (simp add: rnd_def u)
next
  case False
  with ilog_mono [of 2 x y] x xy have "ilog 2 x + 1 \<le> ilog 2 y" by linarith
  then have "(2::rat) powi (ilog 2 x - 51) \<le> 2 powi (ilog 2 y - 52)"
    by (intro power_int_increasing) simp_all
  then have "2 * ulp x \<le> ulp y"
    using powi_shift [of "ilog 2 x - 51" 1] by (simp add: ulp_powi)
  then have "2 ^ 53 * ulp x \<le> 2 ^ 52 * ulp y" by simp
  moreover have "rnd x \<le> 2 ^ 53 * ulp x" using x by (rule rnd_in_binade)
  moreover have "2 ^ 52 * ulp y \<le> rnd y" using x xy by (intro rnd_in_binade) simp
  ultimately show ?thesis by linarith
qed

lemma rnd_mono: "x \<le> y \<Longrightarrow> rnd x \<le> rnd y"
proof -
  assume xy: "x \<le> y"
  consider "0 < x" | "x \<le> 0" "0 \<le> y" | "y < 0" by linarith
  then show "rnd x \<le> rnd y"
  proof cases
    case 1
    with xy show ?thesis by (rule rnd_mono_pos [rotated])
  next
    case 2
    then have "rnd x \<le> 0" using rnd_nonneg [of "- x"] by (simp add: rnd_minus)
    also have "0 \<le> rnd y" using 2 by simp
    finally show ?thesis .
  next
    case 3
    with xy rnd_mono_pos [of "- y" "- x"] show ?thesis by (simp add: rnd_minus)
  qed
qed

text \<open>The relative error of one rounding.\<close>

lemma rnd_err: "\<bar>rnd x - x\<bar> \<le> \<bar>x\<bar> / 2 ^ 53"
proof -
  have pos: "\<bar>rnd y - y\<bar> \<le> y / 2 ^ 53" if y: "0 < y" for y
  proof -
    have "\<bar>of_int (rne (y / ulp y)) - y / ulp y\<bar> * ulp y \<le> 1 / 2 * ulp y"
      using rne_err [of "y / ulp y"] by (rule mult_right_mono) (simp add: less_imp_le)
    moreover have "\<bar>of_int (rne (y / ulp y)) - y / ulp y\<bar> * ulp y = \<bar>rnd y - y\<bar>"
    proof -
      have "\<bar>of_int (rne (y / ulp y)) - y / ulp y\<bar> * ulp y = \<bar>(of_int (rne (y / ulp y)) - y / ulp y) * ulp y\<bar>"
        by (simp only: abs_mult abs_of_pos [OF ulp_pos])
      then show ?thesis using y by (simp add: rnd_def left_diff_distrib)
    qed
    ultimately show ?thesis using binade(1) [OF y] by simp
  qed
  consider "x = 0" | "0 < x" | "x < 0" by linarith
  then show ?thesis
  proof cases
    case 3
    with pos [of "- x"] show ?thesis by (simp add: rnd_minus)
  qed (use pos in simp_all)
qed

text \<open>A number with at most 53 significant bits is a double: it is not rounded.\<close>

lemma rnd_exact:
  assumes m: "\<bar>m\<bar> \<le> 2 ^ 53"
  shows "rnd (of_int m * 2 powi k) = of_int m * 2 powi k"
proof -
  have pos: "rnd (of_int n * 2 powi k) = of_int n * 2 powi k" if n: "0 < n" "n \<le> 2 ^ 53" for n :: int
  proof -
    let ?x = "of_int n * 2 powi k :: rat"
    have x: "0 < ?x" using n by (simp add: zero_less_power_int)
    have "?x \<le> of_int (2 ^ 53) * 2 powi k"
      using n by (intro mult_right_mono) (simp_all only: of_int_le_iff zero_le_power_int zero_le_numeral)
    also have "\<dots> = 2 powi (k + 53)" by (simp add: power_int_add)
    finally have "2 powi ilog 2 ?x \<le> (2::rat) powi (k + 53)"
      using ilog_bounds(1) [of 2 ?x] x by simp
    then have le: "ilog 2 ?x \<le> k + 53"
      by (metis not_less one_less_numeral_iff power_int_strict_increasing semiring_norm(76))
    show ?thesis
    proof (cases "ilog 2 ?x = k + 53")
      case True
      then have "2 ^ 53 * 2 powi k \<le> ?x" using ilog_bounds(1) [of 2 ?x] x by (simp add: power_int_add)
      then have "(2 ^ 53 :: rat) \<le> of_int n" by (simp add: zero_less_power_int)
      then have "of_int (2 ^ 53) \<le> (of_int n :: rat)" by simp
      then have "n = 2 ^ 53" using n by (simp only: of_int_le_iff)
      then have "?x / ulp ?x = of_int (2 ^ 52)" using True by (simp add: ulp_powi power_int_add)
      then have "rne (?x / ulp ?x) = 2 ^ 52" by (simp only: rne_of_int)
      then show ?thesis using x True \<open>n = 2 ^ 53\<close> by (simp add: rnd_def ulp_powi power_int_add)
    next
      case False
      with le obtain j where j: "k = ilog 2 ?x - 52 + int j"
        by (intro that [of "nat (k - (ilog 2 ?x - 52))"]) simp
      have "?x / ulp ?x = of_int n * 2 powi (k - (ilog 2 ?x - 52))"
        unfolding ulp_powi by (subst power_int_diff [of 2 k]) simp_all
      also have "k - (ilog 2 ?x - 52) = int j" using j by linarith
      finally have "?x / ulp ?x = of_int (n * 2 ^ j)" by simp
      then have "rne (?x / ulp ?x) = n * 2 ^ j" and eq: "of_int (n * 2 ^ j) * ulp ?x = ?x"
        by (simp_all only: rne_of_int) (metis nonzero_eq_divide_eq ulp_ne_0)
      then show ?thesis using x by (simp only: rnd_def) simp
    qed
  qed
  consider "m = 0" | "0 < m" | "m < 0" by linarith
  then show ?thesis
  proof cases
    case 3
    with pos [of "- m"] m show ?thesis by (simp add: rnd_minus)
  qed (use pos m in simp_all)
qed

lemma rnd_of_int: "\<bar>m\<bar> \<le> 2 ^ 53 \<Longrightarrow> rnd (of_int m) = of_int m"
  using rnd_exact [of m 0] by simp

lemma rnd_1 [simp]: "rnd 1 = 1"
  using rnd_of_int [of 1] by simp

text \<open>Conversion of a signed 64-bit count and of an unsigned word.\<close>

definition double_of_int :: "int \<Rightarrow> double" where
  "double_of_int k = rnd (of_int k)"

definition double_of_u32 :: "u32 \<Rightarrow> double" where
  "double_of_u32 w = rnd (of_int (uint w))"

lemma double_of_u32: "double_of_u32 w = of_int (uint w)"
proof -
  have "uint w < 2 ^ 32" using uint_lt2p [of w] by simp
  then show ?thesis unfolding double_of_u32_def by (intro rnd_of_int) simp
qed

lemma double_of_u32_nonneg [simp]: "0 \<le> double_of_u32 w"
  by (simp only: double_of_u32 of_int_0_le_iff uint_nonnegative)

lemma double_of_int_mono: "a \<le> b \<Longrightarrow> double_of_int a \<le> double_of_int b"
  by (simp add: double_of_int_def rnd_mono)

text \<open>\<open>static_cast\<close> from a double to a signed integer drops the fraction.\<close>

definition int_of_double :: "double \<Rightarrow> int" where
  "int_of_double x = (if 0 \<le> x then \<lfloor>x\<rfloor> else \<lceil>x\<rceil>)"

text \<open>\<open>std::chrono::duration<double>\<close> of a nanosecond count, in seconds.\<close>

definition seconds_of_ns :: "ns \<Rightarrow> double" where
  "seconds_of_ns t = rnd (double_of_int t / of_int ns_per_s)"

lemma seconds_of_ns_mono: "a \<le> b \<Longrightarrow> seconds_of_ns a \<le> seconds_of_ns b"
  unfolding seconds_of_ns_def ns_per_s_def
  by (intro rnd_mono divide_right_mono double_of_int_mono) simp_all

end
