(* ===== verification/Capture_Types.thy ===== *)
theory Capture_Types
  imports Prelude
begin

unbundle bit_operations_syntax

text \<open>
  The data the capture side shares: the enumerations and structures of
  \<^verbatim>\<open>capture_state.hpp\<close>, \<^verbatim>\<open>error_reason.hpp\<close>,
  \<^verbatim>\<open>capture_device.hpp\<close>, \<^verbatim>\<open>event.hpp\<close> and
  \<^verbatim>\<open>daemon_config.hpp\<close>, and the two interfaces the state machine is
  written against, \<open>ICaptureDevice\<close> and \<open>Clock\<close>, as a record of functions on a
  world of any type. Enumerators carry a prefix for their enumeration, because the source
  reuses names across its scoped enumerations.
\<close>

subsection \<open>Enumerations\<close>

datatype capture_state =
    CS_DeviceAbsent | CS_AwaitingProducer | CS_Configuring | CS_Streaming | CS_Stalled

fun capture_state_code :: "capture_state \<Rightarrow> int" where
  "capture_state_code CS_DeviceAbsent = 0"
| "capture_state_code CS_AwaitingProducer = 1"
| "capture_state_code CS_Configuring = 2"
| "capture_state_code CS_Streaming = 3"
| "capture_state_code CS_Stalled = 4"

fun capture_state_to_string :: "capture_state \<Rightarrow> string" where
  "capture_state_to_string CS_DeviceAbsent = ''device_absent''"
| "capture_state_to_string CS_AwaitingProducer = ''awaiting_producer''"
| "capture_state_to_string CS_Configuring = ''configuring''"
| "capture_state_to_string CS_Streaming = ''streaming''"
| "capture_state_to_string CS_Stalled = ''stalled''"

datatype error_reason =
    ER_Open | ER_Format | ER_Buffer | ER_Timeout | ER_Dequeue | ER_DeviceLost | ER_Geometry
  | ER_Count

fun error_reason_code :: "error_reason \<Rightarrow> nat" where
  "error_reason_code ER_Open = 0"
| "error_reason_code ER_Format = 1"
| "error_reason_code ER_Buffer = 2"
| "error_reason_code ER_Timeout = 3"
| "error_reason_code ER_Dequeue = 4"
| "error_reason_code ER_DeviceLost = 5"
| "error_reason_code ER_Geometry = 6"
| "error_reason_code ER_Count = 7"

definition kErrorReasonCount :: nat where
  "kErrorReasonCount = error_reason_code ER_Count"

fun error_reason_to_string :: "error_reason \<Rightarrow> string" where
  "error_reason_to_string ER_Open = ''open''"
| "error_reason_to_string ER_Format = ''format''"
| "error_reason_to_string ER_Buffer = ''buffer''"
| "error_reason_to_string ER_Timeout = ''timeout''"
| "error_reason_to_string ER_Dequeue = ''dequeue''"
| "error_reason_to_string ER_DeviceLost = ''device_lost''"
| "error_reason_to_string ER_Geometry = ''geometry''"
| "error_reason_to_string ER_Count = ''unknown''"

datatype open_result = OR_Opened | OR_Absent

datatype format_result = FR_Known | FR_NoProducer | FR_Error

datatype stream_start_result = SS_Started | SS_BufferError

datatype dequeue_result = DQ_Frame | DQ_Timeout | DQ_DeviceLost | DQ_Error

subsection \<open>Structures\<close>

record stream_format =
  sf_width :: u32
  sf_height :: u32
  sf_pixel_format_fourcc :: u32
  sf_size_image :: u32
  sf_bytesperline :: u32
  sf_compressed :: bool

definition stream_format_default :: stream_format where
  "stream_format_default =
     \<lparr>sf_width = 0, sf_height = 0, sf_pixel_format_fourcc = 0, sf_size_image = 0,
      sf_bytesperline = 0, sf_compressed = True\<rparr>"

text \<open>A \<open>char\<close> of the source is a byte; \<open>byte_char\<close> is the cast from the low byte.\<close>

definition byte_char :: "u32 \<Rightarrow> char" where
  "byte_char w = char_of (unat (w AND 0xFF))"

definition pixel_format_string :: "stream_format \<Rightarrow> string" where
  "pixel_format_string f =
     (let w = sf_pixel_format_fourcc f
      in [byte_char w, byte_char (drop_bit 8 w), byte_char (drop_bit 16 w), byte_char (drop_bit 24 w)])"

record frame_descriptor =
  fd_buffer_index :: u32
  fd_bytes_used :: u64
  fd_captured_at :: ns

definition frame_descriptor_default :: frame_descriptor where
  "frame_descriptor_default = \<lparr>fd_buffer_index = 0, fd_bytes_used = 0, fd_captured_at = 0\<rparr>"

datatype event_type =
    EV_DeviceOpened | EV_AwaitingProducer | EV_StreamingStarted | EV_DeviceLost
  | EV_Reconnecting | EV_StallDetected | EV_StallCleared | EV_FormatChanged

record event =
  ev_type :: event_type
  ev_format :: stream_format
  ev_previous_format :: stream_format
  ev_reason :: error_reason

text \<open>Aggregate initialisation: members not named take their default initialisers.\<close>

definition mk_event :: "event_type \<Rightarrow> event" where
  "mk_event t =
     \<lparr>ev_type = t, ev_format = stream_format_default,
      ev_previous_format = stream_format_default, ev_reason = ER_Count\<rparr>"

lemma mk_event_fields [simp]:
  "ev_type (mk_event t) = t"
  "ev_format (mk_event t) = stream_format_default"
  "ev_previous_format (mk_event t) = stream_format_default"
  "ev_reason (mk_event t) = ER_Count"
  by (simp_all add: mk_event_def)

record daemon_config =
  dc_expected_fps :: u32
  dc_stall_multiple :: u32
  dc_buffer_count :: u32
  dc_reconnect_initial_backoff :: ms
  dc_reconnect_max_backoff :: ms
  dc_awaiting_producer_max_backoff :: ms

definition daemon_config_default :: daemon_config where
  "daemon_config_default =
     \<lparr>dc_expected_fps = 15, dc_stall_multiple = 10, dc_buffer_count = 4,
      dc_reconnect_initial_backoff = 200, dc_reconnect_max_backoff = 30000,
      dc_awaiting_producer_max_backoff = 2000\<rparr>"

subsection \<open>The interfaces: a device and a clock\<close>

text \<open>
  One function per virtual method. An output parameter is passed in and returned. A
  method of the device may wait on the driver without end, so it returns
  \<^term>\<open>None\<close> in that case; reading a clock always returns.
\<close>

record 'w env =
  dev_open :: "'w \<Rightarrow> (open_result \<times> 'w) option"
  dev_close :: "'w \<Rightarrow> 'w option"
  dev_query_format :: "stream_format \<Rightarrow> 'w \<Rightarrow> (format_result \<times> stream_format \<times> 'w) option"
  dev_start_streaming :: "u32 \<Rightarrow> 'w \<Rightarrow> (stream_start_result \<times> 'w) option"
  dev_stop_streaming :: "'w \<Rightarrow> 'w option"
  dev_dequeue_frame ::
    "ms \<Rightarrow> frame_descriptor \<Rightarrow> 'w \<Rightarrow> (dequeue_result \<times> frame_descriptor \<times> 'w) option"
  dev_requeue_frame :: "u32 \<Rightarrow> 'w \<Rightarrow> 'w option"
  clk_steady_now :: "'w \<Rightarrow> ns \<times> 'w"
  clk_wall_now :: "'w \<Rightarrow> ns \<times> 'w"

subsection \<open>The four characters determine the code\<close>

fun bytes_value :: "string \<Rightarrow> nat" where
  "bytes_value [] = 0"
| "bytes_value (c # cs) = of_char c + 256 * bytes_value cs"

lemma unat_and_byte: "unat (w AND 0xFF :: u32) = unat w mod 256"
proof -
  have "w AND 0xFF = take_bit 8 w" by (simp add: take_bit_eq_mask mask_eq_exp_minus_1)
  then have "unat (w AND 0xFF) = take_bit 8 (unat w)" by (simp only: unsigned_take_bit_eq)
  then show ?thesis by (simp add: take_bit_eq_mod)
qed

lemma of_char_byte_char: "(of_char (byte_char w) :: nat) = unat w mod 256"
  by (simp add: byte_char_def unat_and_byte)

lemma unat_drop_bit: "unat (drop_bit k w :: u32) = unat w div 2 ^ k"
proof -
  have "take_bit 32 (unat w) = unat w"
    using unsigned_less [of w] by (simp add: take_bit_nat_eq_self_iff)
  then have "unat (drop_bit k w) = drop_bit k (unat w)" by (simp add: unsigned_drop_bit_eq)
  then show ?thesis by (simp add: drop_bit_eq_div)
qed

lemma bytes_value_pixel_format: "bytes_value (pixel_format_string f) = unat (sf_pixel_format_fourcc f)"
proof -
  let ?n = "unat (sf_pixel_format_fourcc f)"
  have "?n < 2 ^ 32" using unsigned_less [of "sf_pixel_format_fourcc f"] by simp
  then have top: "?n div 16777216 mod 256 = ?n div 16777216" by (simp add: less_mult_imp_div_less)
  have "?n div 65536 = ?n div 256 div 256" and "?n div 16777216 = ?n div 65536 div 256"
    by (simp_all add: div_mult2_eq [symmetric])
  then have "?n mod 256 + 256 * (?n div 256 mod 256 + 256 * (?n div 65536 mod 256 + 256 * (?n div 16777216))) = ?n"
    by (simp only: mod_mult_div_eq)
  then show ?thesis
    by (simp add: pixel_format_string_def Let_def of_char_byte_char unat_drop_bit top)
qed

end
