(* ===== verification/Stats.thy ===== *)
theory Stats
  imports Doubles Capture_Types
begin

text \<open>
  \<^verbatim>\<open>histogram.hpp\<close> and \<^verbatim>\<open>stats.hpp\<close>: the frame interval
  histogram and the counters behind the exported metrics. Counters are 64-bit words and
  wrap as \<open>fetch_add\<close> does. The mutexes and atomics order the capture thread against
  the metrics thread; each operation here is one critical section, taken in one piece as
  \<open>Shared_Stats\<close> justifies, or one atomic access.
\<close>

subsection \<open>Histogram\<close>

text \<open>The literals of the table are the doubles nearest to the written decimals.\<close>

definition frame_interval_buckets :: "double list" where
  "frame_interval_buckets =
     map rnd [5 / 1000, 1 / 100, 2 / 100, 33 / 1000, 5 / 100, 667 / 10000,
              1 / 10, 15 / 100, 25 / 100, 5 / 10, 1, 2, 5]"

record histogram =
  h_bounds :: "double list"
  h_counts :: "u64 list"
  h_sum :: double
  h_total :: u64

definition histogram_new :: "double list \<Rightarrow> histogram" where
  "histogram_new upper_bounds =
     \<lparr>h_bounds = upper_bounds, h_counts = replicate (length upper_bounds + 1) 0,
      h_sum = 0, h_total = 0\<rparr>"

text \<open>
  The search loop of \<open>observe\<close>: the index of the first bound that is not below the
  value, or the number of bounds when all are. \<open>i\<close> is the loop counter and the list is
  what is left of the bounds from there.
\<close>

fun bucket_index :: "double \<Rightarrow> double list \<Rightarrow> nat \<Rightarrow> nat" where
  "bucket_index v [] i = i"
| "bucket_index v (b # bs) i = (if v \<le> b then i else bucket_index v bs (i + 1))"

definition histogram_observe :: "double \<Rightarrow> histogram \<Rightarrow> histogram" where
  "histogram_observe v h =
     (let i = bucket_index v (h_bounds h) 0
      in h\<lparr>h_counts := (h_counts h)[i := h_counts h ! i + 1],
           h_sum := rnd (h_sum h + v),
           h_total := h_total h + 1\<rparr>)"

text \<open>A snapshot is the copy of the counts, the sum and the total.\<close>

definition histogram_snapshot :: "histogram \<Rightarrow> u64 list \<times> double \<times> u64" where
  "histogram_snapshot h = (h_counts h, h_sum h, h_total h)"

definition histogram_wf :: "histogram \<Rightarrow> bool" where
  "histogram_wf h \<longleftrightarrow>
     length (h_counts h) = length (h_bounds h) + 1 \<and> h_total h = sum_list (h_counts h)"

lemma bucket_index_bounds: "i \<le> bucket_index v bs i \<and> bucket_index v bs i \<le> i + length bs"
proof (induction bs arbitrary: i)
  case Nil
  then show ?case by simp
next
  case (Cons b bs)
  from Cons.IH [of "i + 1"] show ?case by simp
qed

lemma bucket_index_Suc: "bucket_index v bs (Suc i) = Suc (bucket_index v bs i)"
  by (induction bs arbitrary: i) simp_all

text \<open>The index is in range of the counts, so the increment never writes outside.\<close>

lemma bucket_index_in_range:
  "histogram_wf h \<Longrightarrow> bucket_index v (h_bounds h) 0 < length (h_counts h)"
  using bucket_index_bounds [of 0 v "h_bounds h"] by (simp add: histogram_wf_def)

lemma bucket_index_first:
  "bucket_index v bs 0 < length bs \<Longrightarrow> v \<le> bs ! bucket_index v bs 0"
  by (induction bs) (auto simp: bucket_index_Suc)

lemma bucket_index_before: "j < bucket_index v bs 0 \<Longrightarrow> bs ! j < v"
proof (induction bs arbitrary: j)
  case Nil
  then show ?case by simp
next
  case (Cons b bs)
  then show ?case by (cases j) (auto simp: bucket_index_Suc split: if_splits)
qed

lemma sum_list_bump:
  fixes xs :: "u64 list"
  shows "i < length xs \<Longrightarrow> sum_list (xs[i := xs ! i + 1]) = sum_list xs + 1"
  by (induction xs arbitrary: i) (auto split: nat.splits)

lemma histogram_new_wf: "histogram_wf (histogram_new bs)"
  by (simp add: histogram_wf_def histogram_new_def sum_list_replicate)

lemma histogram_observe_wf: "histogram_wf h \<Longrightarrow> histogram_wf (histogram_observe v h)"
  using bucket_index_in_range [of h v]
  by (simp add: histogram_wf_def histogram_observe_def Let_def sum_list_bump)

lemma histogram_observe_fields [simp]:
  "h_bounds (histogram_observe v h) = h_bounds h"
  "h_total (histogram_observe v h) = h_total h + 1"
  by (simp_all add: histogram_observe_def Let_def)

subsection \<open>What the buckets count\<close>

definition observe_all :: "double list \<Rightarrow> histogram \<Rightarrow> histogram" where
  "observe_all vs h = fold histogram_observe vs h"

lemma bucket_index_le:
  assumes "sorted bs" and "i < length bs"
  shows "bucket_index v bs 0 \<le> i \<longleftrightarrow> v \<le> bs ! i"
proof
  assume le: "bucket_index v bs 0 \<le> i"
  then have "v \<le> bs ! bucket_index v bs 0" using assms(2) by (intro bucket_index_first) simp
  also have "\<dots> \<le> bs ! i" using assms le by (intro sorted_nth_mono)
  finally show "v \<le> bs ! i" .
next
  assume "v \<le> bs ! i"
  then show "bucket_index v bs 0 \<le> i" using bucket_index_before [of i v bs] by force
qed

lemma sum_take_update:
  fixes xs :: "u64 list"
  assumes "k < length xs"
  shows "sum_list (take n (xs[k := xs ! k + 1])) = sum_list (take n xs) + (if k < n then 1 else 0)"
proof (cases "k < n")
  case True
  then have "take n (xs[k := xs ! k + 1]) = (take n xs)[k := take n xs ! k + 1]"
    by (simp add: take_update_swap)
  with True assms sum_list_bump [of k "take n xs"] show ?thesis by simp
qed (simp add: take_update_cancel)

lemma observe_prefix:
  assumes "length (h_counts h) = length (h_bounds h) + 1" and "sorted (h_bounds h)" and "i < length (h_bounds h)"
  shows "sum_list (take (i + 1) (h_counts (histogram_observe v h))) =
    sum_list (take (i + 1) (h_counts h)) + (if v \<le> h_bounds h ! i then 1 else 0)"
proof -
  have "bucket_index v (h_bounds h) 0 < length (h_counts h)"
    using bucket_index_bounds [of 0 v "h_bounds h"] assms(1) by simp
  moreover have "bucket_index v (h_bounds h) 0 < i + 1 \<longleftrightarrow> v \<le> h_bounds h ! i"
    using bucket_index_le [OF assms(2,3), of v] by (simp add: less_Suc_eq_le)
  ultimately show ?thesis
    using sum_take_update [of "bucket_index v (h_bounds h) 0" "h_counts h" "i + 1"]
    by (simp add: histogram_observe_def Let_def)
qed

lemma observe_length: "length (h_counts (histogram_observe v h)) = length (h_counts h)"
  by (simp add: histogram_observe_def Let_def)

lemma observe_all_bounds: "h_bounds (observe_all vs h) = h_bounds h"
  by (induction vs arbitrary: h) (simp_all add: observe_all_def)

lemma observe_all_length: "length (h_counts (observe_all vs h)) = length (h_counts h)"
  by (induction vs arbitrary: h) (simp_all add: observe_all_def observe_length)

lemma observe_all_wf: "histogram_wf h \<Longrightarrow> histogram_wf (observe_all vs h)"
  by (induction vs arbitrary: h) (simp_all add: observe_all_def histogram_observe_wf)

lemma observe_all_total: "h_total (observe_all vs h) = h_total h + of_nat (length vs)"
  by (induction vs arbitrary: h) (simp_all add: observe_all_def)

lemma observe_all_prefix:
  "length (h_counts h) = length (h_bounds h) + 1 \<Longrightarrow> sorted (h_bounds h) \<Longrightarrow> i < length (h_bounds h) \<Longrightarrow>
     sum_list (take (i + 1) (h_counts (observe_all vs h))) =
       sum_list (take (i + 1) (h_counts h)) + of_nat (length (filter (\<lambda>v. v \<le> h_bounds h ! i) vs))"
proof (induction vs arbitrary: h)
  case Nil
  then show ?case by (simp add: observe_all_def)
next
  case (Cons v vs)
  have "sum_list (take (i + 1) (h_counts (observe_all vs (histogram_observe v h)))) =
      sum_list (take (i + 1) (h_counts (histogram_observe v h))) +
      of_nat (length (filter (\<lambda>v. v \<le> h_bounds h ! i) vs))"
    using Cons.IH [of "histogram_observe v h"] Cons.prems by (simp add: observe_length)
  with observe_prefix [OF Cons.prems, of v] show ?case by (simp add: observe_all_def)
qed

lemma frame_interval_buckets_sorted: "sorted frame_interval_buckets"
proof -
  have mono: "sorted (map rnd xs)" if "sorted xs" for xs
    using that by (simp add: sorted_wrt_map) (erule sorted_wrt_mono_rel [rotated], rule rnd_mono)
  show ?thesis unfolding frame_interval_buckets_def by (rule mono) simp
qed

subsection \<open>Capture statistics\<close>

record capture_stats =
  st_frames_received :: u64
  st_bytes_received :: u64
  st_capture_state :: int
  st_reconnects :: u64
  st_stalls :: u64
  st_last_frame_unixtime :: int
  st_frame_interval_seconds :: histogram
  st_errors :: "u64 list"
  st_stream_info_known :: bool
  st_stream_info :: stream_format

definition capture_stats_new :: capture_stats where
  "capture_stats_new =
     \<lparr>st_frames_received = 0, st_bytes_received = 0,
      st_capture_state = capture_state_code CS_DeviceAbsent,
      st_reconnects = 0, st_stalls = 0, st_last_frame_unixtime = 0,
      st_frame_interval_seconds = histogram_new frame_interval_buckets,
      st_errors = replicate kErrorReasonCount 0,
      st_stream_info_known = False, st_stream_info = stream_format_default\<rparr>"

text \<open>
  The error counters are an array of \<open>kErrorReasonCount\<close> entries, indexed without a
  check: an index outside it has no defined outcome.
\<close>

definition record_error :: "error_reason \<Rightarrow> capture_stats \<Rightarrow> capture_stats option" where
  "record_error reason st =
     (let i = error_reason_code reason
      in if i < length (st_errors st)
         then Some (st\<lparr>st_errors := (st_errors st)[i := st_errors st ! i + 1]\<rparr>)
         else None)"

definition error_count :: "error_reason \<Rightarrow> capture_stats \<Rightarrow> u64 option" where
  "error_count reason st =
     (let i = error_reason_code reason
      in if i < length (st_errors st) then Some (st_errors st ! i) else None)"

definition set_stream_info :: "stream_format \<Rightarrow> capture_stats \<Rightarrow> capture_stats" where
  "set_stream_info format st = st\<lparr>st_stream_info := format, st_stream_info_known := True\<rparr>"

text \<open>Returns the format, or \<^term>\<open>None\<close> where the source returns false.\<close>

definition stream_info :: "capture_stats \<Rightarrow> stream_format option" where
  "stream_info st = (if \<not> st_stream_info_known st then None else Some (st_stream_info st))"

definition stats_wf :: "capture_stats \<Rightarrow> bool" where
  "stats_wf st \<longleftrightarrow>
     length (st_errors st) = kErrorReasonCount \<and>
     histogram_wf (st_frame_interval_seconds st) \<and>
     h_bounds (st_frame_interval_seconds st) = frame_interval_buckets"

lemma error_reason_code_less: "r \<noteq> ER_Count \<Longrightarrow> error_reason_code r < kErrorReasonCount"
  by (cases r) (simp_all add: kErrorReasonCount_def)

lemma error_reason_code_inj [simp]: "error_reason_code r = error_reason_code s \<longleftrightarrow> r = s"
  by (cases r; cases s) simp_all

lemma capture_state_code_inj [simp]: "capture_state_code r = capture_state_code s \<longleftrightarrow> r = s"
  by (cases r; cases s) simp_all

lemma capture_stats_new_wf: "stats_wf capture_stats_new"
  by (simp add: stats_wf_def capture_stats_new_def histogram_new_wf) (simp add: histogram_new_def)

text \<open>Recording an error: the only effect is that its own counter goes up by one.\<close>

lemma record_error_Some [bind_iff]:
  "record_error r st = Some st' \<longleftrightarrow>
     error_reason_code r < length (st_errors st) \<and>
     st' = st\<lparr>st_errors := (st_errors st)[error_reason_code r := st_errors st ! error_reason_code r + 1]\<rparr>"
  by (auto simp: record_error_def Let_def)

lemma record_error_defined:
  "stats_wf st \<Longrightarrow> r \<noteq> ER_Count \<Longrightarrow> \<exists>st'. record_error r st = Some st'"
  by (simp add: record_error_def Let_def stats_wf_def error_reason_code_less)

lemma error_count_record:
  assumes "record_error r st = Some st'"
  shows "error_count s st' = map_option (\<lambda>n. if s = r then n + 1 else n) (error_count s st)"
  using assms by (auto simp: record_error_Some error_count_def Let_def nth_list_update)

end
