(* ===== verification/Backoff.thy ===== *)
theory Backoff
  imports Prelude
begin

text \<open>
  \<^verbatim>\<open>include/hamstercam/backoff.hpp\<close>: the bounded exponential backoff that paces
  the retries of the state machine, its closed form, its bound, and the fact that its
  arithmetic stays inside a signed 64-bit count.
\<close>

record backoff =
  bo_initial :: ms
  bo_max :: ms
  bo_current :: ms

definition backoff_new :: "ms \<Rightarrow> ms \<Rightarrow> backoff" where
  "backoff_new initial maxi = \<lparr>bo_initial = initial, bo_max = maxi, bo_current = initial\<rparr>"

definition backoff_next :: "backoff \<Rightarrow> ms \<times> backoff" where
  "backoff_next b =
     (let delay = bo_current b
      in (delay, b\<lparr>bo_current := min (bo_max b) (bo_current b * 2)\<rparr>))"

definition backoff_reset :: "backoff \<Rightarrow> backoff" where
  "backoff_reset b = b\<lparr>bo_current := bo_initial b\<rparr>"

text \<open>The delays of \<open>n\<close> consecutive failed attempts, and the backoff they leave.\<close>

fun backoff_run :: "nat \<Rightarrow> backoff \<Rightarrow> ms list \<times> backoff" where
  "backoff_run 0 b = ([], b)"
| "backoff_run (Suc n) b =
     (let (d, b') = backoff_next b; (ds, b'') = backoff_run n b' in (d # ds, b''))"

lemma backoff_next_fields [simp]:
  "fst (backoff_next b) = bo_current b"
  "bo_initial (snd (backoff_next b)) = bo_initial b"
  "bo_max (snd (backoff_next b)) = bo_max b"
  "bo_current (snd (backoff_next b)) = min (bo_max b) (bo_current b * 2)"
  by (simp_all add: backoff_next_def Let_def)

lemma backoff_reset_fields [simp]:
  "bo_initial (backoff_reset b) = bo_initial b"
  "bo_max (backoff_reset b) = bo_max b"
  "bo_current (backoff_reset b) = bo_initial b"
  by (simp_all add: backoff_reset_def)

subsection \<open>Bounds\<close>

text \<open>
  What the state machine keeps about each of its backoffs: the delay it will hand out next
  is never negative and never above the larger of the two limits it was built with.
\<close>

definition backoff_ok :: "ms \<Rightarrow> ms \<Rightarrow> backoff \<Rightarrow> bool" where
  "backoff_ok initial maxi b \<longleftrightarrow>
     bo_initial b = initial \<and> bo_max b = maxi \<and>
     0 \<le> bo_current b \<and> bo_current b \<le> max initial maxi"

lemma backoff_new_ok: "0 \<le> i \<Longrightarrow> backoff_ok i x (backoff_new i x)"
  by (simp add: backoff_ok_def backoff_new_def)

lemma backoff_next_ok:
  "backoff_ok i x b \<Longrightarrow> 0 \<le> x \<Longrightarrow> backoff_next b = (d, b') \<Longrightarrow>
     backoff_ok i x b' \<and> 0 \<le> d \<and> d \<le> max i x"
  by (auto simp: backoff_ok_def backoff_next_def Let_def)

lemma backoff_reset_ok: "backoff_ok i x b \<Longrightarrow> 0 \<le> i \<Longrightarrow> backoff_ok i x (backoff_reset b)"
  by (simp add: backoff_ok_def)

subsection \<open>The delays of a run of failures\<close>

lemma backoff_run_Suc:
  "fst (backoff_run (Suc n) b) = bo_current b # fst (backoff_run n (snd (backoff_next b)))"
  "snd (backoff_run (Suc n) b) = snd (backoff_run n (snd (backoff_next b)))"
  by (simp_all add: case_prod_beta)

lemma backoff_run_length: "length (fst (backoff_run n b)) = n"
  by (induction n arbitrary: b) (simp_all add: backoff_run_Suc del: backoff_run.simps(2))

lemma backoff_run_capped:
  assumes "0 \<le> bo_max b" and "bo_current b = min (bo_max b) c" and "0 \<le> c" and "k < n"
  shows "fst (backoff_run n b) ! k = min (bo_max b) (c * 2 ^ k)"
  using assms
proof (induction n arbitrary: b c k)
  case 0
  then show ?case by simp
next
  case (Suc n)
  show ?case
  proof (cases k)
    case 0
    with Suc.prems show ?thesis by (simp add: backoff_run_Suc del: backoff_run.simps)
  next
    case (Suc j)
    have "min (bo_max b) (bo_current b * 2) = min (bo_max b) (c * 2)"
      using Suc.prems(1,2) by (auto simp: min_def)
    with Suc.IH [of "snd (backoff_next b)" "c * 2" j] Suc.prems Suc show ?thesis
      by (simp add: backoff_run_Suc mult.assoc mult.left_commute del: backoff_run.simps)
  qed
qed

lemma backoff_run_snd_fields:
  "bo_initial (snd (backoff_run n b)) = bo_initial b" "bo_max (snd (backoff_run n b)) = bo_max b"
  by (induction n arbitrary: b) (simp_all add: backoff_run_Suc del: backoff_run.simps(2))

end
