(* ===== verification/Capture_Machine.thy ===== *)
theory Capture_Machine
  imports Stats Backoff
begin

text \<open>
  \<^verbatim>\<open>capture_state_machine.hpp\<close> and \<^verbatim>\<open>capture_state_machine.cpp\<close>:
  the state machine that drives one device through its life. One definition per member
  function, in the order of the calls. The device and the clock are the functions of an
  \<^typ>\<open>'w env\<close> on the world \<open>w\<close>; the statistics and the event sink are part
  of the machine's own record, the sink as the list of the events emitted so far.
\<close>

record csm =
  m_config :: daemon_config
  m_stats :: capture_stats
  m_events :: "event list"
  m_state :: capture_state
  m_device_absent_backoff :: backoff
  m_awaiting_producer_backoff :: backoff
  m_next_attempt_at :: ns
  m_last_frame_at :: ns
  m_have_last_frame :: bool
  m_recovering :: bool
  m_current_format :: stream_format
  m_has_streamed_before :: bool
  m_stall_threshold :: ms
  m_rate_window_start :: ns
  m_rate_window_frame_count :: u32
  m_rate_anomaly_active :: bool

text \<open>The value of \<open>StepOutcome::recommended_wait\<close>.\<close>

type_synonym step_outcome = ms

named_theorems machine_defs \<open>the member functions of the state machine\<close>

subsection \<open>Constants and constructor\<close>

definition kRateAnomalyFactor :: double where
  "kRateAnomalyFactor = rnd 5"

definition kRateAnomalyWindow :: ns where
  "kRateAnomalyWindow = 2 * ns_per_s"

definition expected_interval_seconds :: "daemon_config \<Rightarrow> double" where
  "expected_interval_seconds cfg =
     (if 0 < dc_expected_fps cfg then rnd (1 / double_of_u32 (dc_expected_fps cfg)) else 1)"

definition stall_threshold_of :: "daemon_config \<Rightarrow> ms" where
  "stall_threshold_of cfg =
     int_of_double
       (rnd (rnd (expected_interval_seconds cfg * double_of_u32 (dc_stall_multiple cfg)) * 1000))"

definition store_state :: "csm \<Rightarrow> csm" where
  \<comment> \<open>\<open>stats_.capture_state.store(static_cast<int>(state_))\<close>\<close>
  "store_state m = m\<lparr>m_stats := (m_stats m)\<lparr>st_capture_state := capture_state_code (m_state m)\<rparr>\<rparr>"

definition csm_new ::
  "'w env \<Rightarrow> capture_stats \<Rightarrow> daemon_config \<Rightarrow> 'w \<Rightarrow> csm \<times> 'w" where
  "csm_new E stats config w =
     (let (now, w) = clk_steady_now E w
      in (store_state
            \<lparr>m_config = config, m_stats = stats, m_events = [], m_state = CS_DeviceAbsent,
             m_device_absent_backoff =
               backoff_new (dc_reconnect_initial_backoff config) (dc_reconnect_max_backoff config),
             m_awaiting_producer_backoff =
               backoff_new (dc_reconnect_initial_backoff config)
                 (dc_awaiting_producer_max_backoff config),
             m_next_attempt_at = now, m_last_frame_at = 0, m_have_last_frame = False,
             m_recovering = False, m_current_format = stream_format_default,
             m_has_streamed_before = False, m_stall_threshold = stall_threshold_of config,
             m_rate_window_start = 0, m_rate_window_frame_count = 0,
             m_rate_anomaly_active = False\<rparr>,
          w))"

subsection \<open>Small steps shared by the handlers\<close>

definition set_state :: "capture_state \<Rightarrow> csm \<Rightarrow> csm" where
  "set_state s m = store_state (m\<lparr>m_state := s\<rparr>)"

definition emit :: "event \<Rightarrow> csm \<Rightarrow> csm" where
  "emit e m = m\<lparr>m_events := m_events m @ [e]\<rparr>"

definition count_error :: "error_reason \<Rightarrow> csm \<Rightarrow> csm option" where
  "count_error reason m =
     (case record_error reason (m_stats m) of
        None \<Rightarrow> None
      | Some st \<Rightarrow> Some (m\<lparr>m_stats := st\<rparr>))"

definition reset_backoffs :: "csm \<Rightarrow> csm" where
  "reset_backoffs m =
     m\<lparr>m_device_absent_backoff := backoff_reset (m_device_absent_backoff m),
       m_awaiting_producer_backoff := backoff_reset (m_awaiting_producer_backoff m)\<rparr>"

text \<open>
  \<open>next_attempt_at_ = now + delay\<close> with the next delay of the named backoff; the delay
  is returned.
\<close>

definition schedule_absent :: "ns \<Rightarrow> csm \<Rightarrow> ms \<times> csm" where
  "schedule_absent now m =
     (let (delay, b) = backoff_next (m_device_absent_backoff m)
      in (delay, m\<lparr>m_device_absent_backoff := b, m_next_attempt_at := now + delay * ns_per_ms\<rparr>))"

definition schedule_awaiting :: "ns \<Rightarrow> csm \<Rightarrow> ms \<times> csm" where
  "schedule_awaiting now m =
     (let (delay, b) = backoff_next (m_awaiting_producer_backoff m)
      in (delay, m\<lparr>m_awaiting_producer_backoff := b, m_next_attempt_at := now + delay * ns_per_ms\<rparr>))"

subsection \<open>Releasing and losing the device\<close>

definition begin_release_cycle ::
  "'w env \<Rightarrow> error_reason \<Rightarrow> csm \<Rightarrow> 'w \<Rightarrow> (csm \<times> 'w) option" where
  "begin_release_cycle E reason m w = do {
     let m = m\<lparr>m_stats := (m_stats m)\<lparr>st_stalls := st_stalls (m_stats m) + 1\<rparr>\<rparr>;
     m \<leftarrow> count_error reason m;
     let m = set_state CS_Stalled m;
     let m = emit (mk_event EV_StallDetected) m;
     w \<leftarrow> dev_stop_streaming E w;
     w \<leftarrow> dev_close E w;
     let m = set_state CS_AwaitingProducer m;
     let m = m\<lparr>m_recovering := True,
               m_awaiting_producer_backoff := backoff_reset (m_awaiting_producer_backoff m)\<rparr>;
     let (now, w) = clk_steady_now E w;
     Some (m\<lparr>m_next_attempt_at := now, m_have_last_frame := False\<rparr>, w)
   }"

definition lose_device :: "'w env \<Rightarrow> csm \<Rightarrow> 'w \<Rightarrow> (csm \<times> 'w) option" where
  "lose_device E m w = do {
     m \<leftarrow> count_error ER_DeviceLost m;
     w \<leftarrow> dev_stop_streaming E w;
     w \<leftarrow> dev_close E w;
     let m = emit (mk_event EV_DeviceLost) m;
     let m = set_state CS_DeviceAbsent m;
     let m = reset_backoffs (m\<lparr>m_recovering := False\<rparr>);
     let (now, w) = clk_steady_now E w;
     Some (m\<lparr>m_next_attempt_at := now, m_have_last_frame := False\<rparr>, w)
   }"

subsection \<open>Frames\<close>

definition handle_frame ::
  "'w env \<Rightarrow> frame_descriptor \<Rightarrow> csm \<Rightarrow> 'w \<Rightarrow> (csm \<times> 'w) option" where
  "handle_frame E frame m w = do {
     w \<leftarrow> dev_requeue_frame E (fd_buffer_index frame) w;
     let (wall, w) = clk_wall_now E w;
     let st = m_stats m;
     let st = st\<lparr>st_frames_received := st_frames_received st + 1,
                 st_bytes_received := st_bytes_received st + fd_bytes_used frame,
                 st_last_frame_unixtime := s_of_ns wall\<rparr>;
     let st = (if m_have_last_frame m
               then st\<lparr>st_frame_interval_seconds :=
                        histogram_observe (seconds_of_ns (fd_captured_at frame - m_last_frame_at m))
                          (st_frame_interval_seconds st)\<rparr>
               else st);
     Some (m\<lparr>m_stats := st, m_last_frame_at := fd_captured_at frame, m_have_last_frame := True\<rparr>, w)
   }"

definition arrival_rate :: "u32 \<Rightarrow> ns \<Rightarrow> double" where
  "arrival_rate n elapsed = rnd (double_of_u32 n / seconds_of_ns elapsed)"

definition rate_threshold :: "daemon_config \<Rightarrow> double" where
  "rate_threshold cfg = rnd (double_of_u32 (dc_expected_fps cfg) * kRateAnomalyFactor)"

definition check_arrival_rate :: "ns \<Rightarrow> csm \<Rightarrow> csm option" where
  "check_arrival_rate now m = do {
     let m = m\<lparr>m_rate_window_frame_count := m_rate_window_frame_count m + 1\<rparr>;
     let elapsed = now - m_rate_window_start m;
     if elapsed < kRateAnomalyWindow then Some m
     else do {
       let rate = arrival_rate (m_rate_window_frame_count m) elapsed;
       m \<leftarrow> (if 0 < dc_expected_fps (m_config m) \<and> rate_threshold (m_config m) < rate
             then if \<not> m_rate_anomaly_active m
                  then do {
                    m \<leftarrow> count_error ER_Geometry m;
                    Some (m\<lparr>m_rate_anomaly_active := True\<rparr>)
                  }
                  else Some m
             else Some (m\<lparr>m_rate_anomaly_active := False\<rparr>));
       Some (m\<lparr>m_rate_window_start := now, m_rate_window_frame_count := 0\<rparr>)
     }
   }"

subsection \<open>The handlers of the states\<close>

definition enter_configuring ::
  "'w env \<Rightarrow> csm \<Rightarrow> 'w \<Rightarrow> (step_outcome \<times> csm \<times> 'w) option" where
  "enter_configuring E m w = do {
     let m = set_state CS_Configuring m;
     (r, w) \<leftarrow> dev_start_streaming E (dc_buffer_count (m_config m)) w;
     if r = SS_BufferError then do {
       m \<leftarrow> count_error ER_Buffer m;
       let m = set_state CS_AwaitingProducer m;
       let (now, w) = clk_steady_now E w;
       let (delay, m) = schedule_awaiting now m;
       Some (delay, m, w)
     } else do {
       let m = reset_backoffs m;
       let m = m\<lparr>m_stats := set_stream_info (m_current_format m) (m_stats m),
                 m_have_last_frame := False\<rparr>;
       let (now, w) = clk_steady_now E w;
       let m = m\<lparr>m_rate_window_start := now, m_rate_window_frame_count := 0,
                 m_rate_anomaly_active := False\<rparr>;
       Some (0, set_state CS_Streaming m, w)
     }
   }"

definition step_device_absent ::
  "'w env \<Rightarrow> csm \<Rightarrow> 'w \<Rightarrow> (step_outcome \<times> csm \<times> 'w) option" where
  "step_device_absent E m w = do {
     let (now, w) = clk_steady_now E w;
     if now < m_next_attempt_at m
     then Some (ms_of_ns (m_next_attempt_at m - now), m, w)
     else do {
       (r, w) \<leftarrow> dev_open E w;
       if r = OR_Opened then do {
         let m = set_state CS_AwaitingProducer (reset_backoffs m);
         let m = emit (mk_event EV_DeviceOpened) m;
         let m = emit (mk_event EV_AwaitingProducer) m;
         Some (0, m, w)
       } else do {
         m \<leftarrow> count_error ER_Open m;
         let (delay, m) = schedule_absent now m;
         Some (delay, m, w)
       }
     }
   }"

definition step_awaiting_producer ::
  "'w env \<Rightarrow> csm \<Rightarrow> 'w \<Rightarrow> (step_outcome \<times> csm \<times> 'w) option" where
  "step_awaiting_producer E m w = do {
     let (now, w) = clk_steady_now E w;
     if now < m_next_attempt_at m
     then Some (ms_of_ns (m_next_attempt_at m - now), m, w)
     else do {
       (result, format, w) \<leftarrow> dev_query_format E stream_format_default w;
       if result = FR_NoProducer then do {
         let (delay, m) = schedule_awaiting now m;
         Some (delay, m, w)
       } else if result = FR_Error then do {
         m \<leftarrow> count_error ER_Format m;
         let (delay, m) = schedule_awaiting now m;
         Some (delay, m, w)
       } else do {
         let m = m\<lparr>m_current_format := format\<rparr>;
         (outcome, m, w) \<leftarrow> enter_configuring E m w;
         let m =
           (if m_state m = CS_Streaming
            then if m_has_streamed_before m
                 then emit (mk_event EV_Reconnecting)
                        (m\<lparr>m_stats := (m_stats m)\<lparr>st_reconnects := st_reconnects (m_stats m) + 1\<rparr>\<rparr>)
                 else emit ((mk_event EV_StreamingStarted)\<lparr>ev_format := m_current_format m\<rparr>)
                        (m\<lparr>m_has_streamed_before := True\<rparr>)
            else m);
         Some (outcome, m, w)
       }
     }
   }"

definition step_streaming ::
  "'w env \<Rightarrow> ms \<Rightarrow> csm \<Rightarrow> 'w \<Rightarrow> (step_outcome \<times> csm \<times> 'w) option" where
  "step_streaming E poll_timeout m w = do {
     (result, frame, w) \<leftarrow> dev_dequeue_frame E poll_timeout frame_descriptor_default w;
     case result of
       DQ_Frame \<Rightarrow> do {
         (m, w) \<leftarrow> handle_frame E frame m w;
         m \<leftarrow> check_arrival_rate (fd_captured_at frame) m;
         if \<not> sf_compressed (m_current_format m) \<and>
            fd_bytes_used frame \<noteq> ucast (sf_size_image (m_current_format m))
         then do {
           (m, w) \<leftarrow> begin_release_cycle E ER_Geometry m w;
           Some (0, m, w)
         } else Some (0, m, w)
       }
     | DQ_Timeout \<Rightarrow> do {
         let (now, w) = clk_steady_now E w;
         if m_have_last_frame m \<and> m_stall_threshold m * ns_per_ms \<le> now - m_last_frame_at m
         then do {
           (m, w) \<leftarrow> begin_release_cycle E ER_Timeout m w;
           Some (0, m, w)
         } else Some (0, m, w)
       }
     | DQ_Error \<Rightarrow> do {
         m \<leftarrow> count_error ER_Dequeue m;
         Some (0, m, w)
       }
     | DQ_DeviceLost \<Rightarrow> do {
         (m, w) \<leftarrow> lose_device E m w;
         Some (0, m, w)
       }
   }"

definition step_recovering ::
  "'w env \<Rightarrow> csm \<Rightarrow> 'w \<Rightarrow> (step_outcome \<times> csm \<times> 'w) option" where
  "step_recovering E m w = do {
     let (now, w) = clk_steady_now E w;
     if now < m_next_attempt_at m
     then Some (ms_of_ns (m_next_attempt_at m - now), m, w)
     else do {
       (r, w) \<leftarrow> dev_open E w;
       if r \<noteq> OR_Opened then do {
         (m, w) \<leftarrow> lose_device E m w;
         Some (0, m, w)
       } else do {
         (result, format, w) \<leftarrow> dev_query_format E stream_format_default w;
         if result \<noteq> FR_Known then do {
           w \<leftarrow> dev_close E w;
           m \<leftarrow> (if result = FR_Error then count_error ER_Format m else Some m);
           let (delay, m) = schedule_awaiting now m;
           Some (delay, m, w)
         } else do {
           let previous = m_current_format m;
           let m = m\<lparr>m_current_format := format\<rparr>;
           (outcome, m, w) \<leftarrow> enter_configuring E m w;
           if m_state m = CS_Streaming then do {
             let m = m\<lparr>m_recovering := False\<rparr>;
             let m = emit (mk_event EV_StallCleared) m;
             let m = (if format \<noteq> previous
                      then emit ((mk_event EV_FormatChanged)
                                   \<lparr>ev_format := format, ev_previous_format := previous\<rparr>) m
                      else m);
             let m = emit ((mk_event EV_StreamingStarted)\<lparr>ev_format := m_current_format m\<rparr>) m;
             Some (outcome, m, w)
           } else do {
             w \<leftarrow> dev_close E w;
             Some (outcome, m, w)
           }
         }
       }
     }
   }"

definition csm_step ::
  "'w env \<Rightarrow> ms \<Rightarrow> csm \<Rightarrow> 'w \<Rightarrow> (step_outcome \<times> csm \<times> 'w) option" where
  "csm_step E poll_timeout m w =
     (case m_state m of
        CS_DeviceAbsent \<Rightarrow> step_device_absent E m w
      | CS_AwaitingProducer \<Rightarrow>
          if m_recovering m then step_recovering E m w else step_awaiting_producer E m w
      | CS_Configuring \<Rightarrow> Some (0, m, w)
      | CS_Stalled \<Rightarrow> Some (0, m, w)
      | CS_Streaming \<Rightarrow> step_streaming E poll_timeout m w)"

lemmas [machine_defs] =
  begin_release_cycle_def lose_device_def handle_frame_def check_arrival_rate_def
  enter_configuring_def step_device_absent_def step_awaiting_producer_def
  step_streaming_def step_recovering_def

end
