(* ===== verification/Capture_Steps.thy ===== *)
theory Capture_Steps
  imports Capture_Machine
begin

text \<open>
  The step relation of the state machine: \<open>csm_trans\<close> has one rule for every way a
  call of \<open>step()\<close> can go, with the answers of the device as its premises, and
  \<open>csm_step_trans\<close> shows that every call that returns is one of its rules. The
  helpers shared by several handlers (releasing, losing, configuring, counting a frame)
  have an elimination rule each that gives the machine they return as one record update,
  so that a property of the machine is proved rule by rule by the simplifier.
\<close>

subsection \<open>What the helpers return\<close>

lemma count_error_Some [bind_iff]:
  "count_error r m = Some m' \<longleftrightarrow>
     (\<exists>st. record_error r (m_stats m) = Some st \<and> m' = m\<lparr>m_stats := st\<rparr>)"
  by (auto simp: count_error_def split: option.splits)

lemmas small_defs = set_state_def store_state_def emit_def reset_backoffs_def
  schedule_absent_def schedule_awaiting_def

definition bump_error :: "error_reason \<Rightarrow> capture_stats \<Rightarrow> capture_stats" where
  "bump_error r st =
     st\<lparr>st_errors := (st_errors st)[error_reason_code r := st_errors st ! error_reason_code r + 1]\<rparr>"

lemma record_error_bump: "record_error r st = Some st' \<Longrightarrow> st' = bump_error r st"
  by (simp add: bump_error_def bind_iff)

lemma begin_release_cycleE:
  assumes "begin_release_cycle E reason m w = Some (m', w')"
  obtains w1 w2 now where
    "dev_stop_streaming E w = Some w1" and "dev_close E w1 = Some w2"
    and "clk_steady_now E w2 = (now, w')"
    and "m' = m\<lparr>m_stats := (bump_error reason (m_stats m))
                  \<lparr>st_stalls := st_stalls (m_stats m) + 1, st_capture_state := 1\<rparr>,
               m_events := m_events m @ [mk_event EV_StallDetected],
               m_state := CS_AwaitingProducer, m_recovering := True,
               m_awaiting_producer_backoff := backoff_reset (m_awaiting_producer_backoff m),
               m_next_attempt_at := now, m_have_last_frame := False\<rparr>"
proof -
  from assms obtain w1 w2 where sc: "dev_stop_streaming E w = Some w1" "dev_close E w1 = Some w2"
    by (auto simp: begin_release_cycle_def bind_iff Let_def small_defs)
  obtain now w3 where k: "clk_steady_now E w2 = (now, w3)" by fastforce
  show thesis
    using assms sc k
    by (intro that [of w1 w2 now]) (auto simp: begin_release_cycle_def bind_iff Let_def small_defs bump_error_def)
qed

lemma lose_deviceE:
  assumes "lose_device E m w = Some (m', w')"
  obtains w1 w2 now where
    "dev_stop_streaming E w = Some w1" and "dev_close E w1 = Some w2"
    and "clk_steady_now E w2 = (now, w')"
    and "m' = m\<lparr>m_stats := (bump_error ER_DeviceLost (m_stats m))\<lparr>st_capture_state := 0\<rparr>,
               m_events := m_events m @ [mk_event EV_DeviceLost],
               m_state := CS_DeviceAbsent, m_recovering := False,
               m_device_absent_backoff := backoff_reset (m_device_absent_backoff m),
               m_awaiting_producer_backoff := backoff_reset (m_awaiting_producer_backoff m),
               m_next_attempt_at := now, m_have_last_frame := False\<rparr>"
proof -
  from assms obtain w1 w2 where sc: "dev_stop_streaming E w = Some w1" "dev_close E w1 = Some w2"
    by (auto simp: lose_device_def bind_iff Let_def small_defs)
  obtain now w3 where k: "clk_steady_now E w2 = (now, w3)" by fastforce
  show thesis
    using assms sc k
    by (intro that [of w1 w2 now]) (auto simp: lose_device_def bind_iff Let_def small_defs bump_error_def)
qed

lemma enter_configuringE:
  assumes "enter_configuring E m w = Some (wait, m', w')"
  obtains (failed) w1 now b where
    "dev_start_streaming E (dc_buffer_count (m_config m)) w = Some (SS_BufferError, w1)"
    and "clk_steady_now E w1 = (now, w')"
    and "backoff_next (m_awaiting_producer_backoff m) = (wait, b)"
    and "m' = m\<lparr>m_stats := (bump_error ER_Buffer (m_stats m))\<lparr>st_capture_state := 1\<rparr>,
               m_state := CS_AwaitingProducer,
               m_awaiting_producer_backoff := b,
               m_next_attempt_at := now + wait * ns_per_ms\<rparr>"
  | (started) w1 now where
    "dev_start_streaming E (dc_buffer_count (m_config m)) w = Some (SS_Started, w1)"
    and "clk_steady_now E w1 = (now, w')" and "wait = 0"
    and "m' = m\<lparr>m_stats := (set_stream_info (m_current_format m) (m_stats m))\<lparr>st_capture_state := 3\<rparr>,
               m_state := CS_Streaming,
               m_device_absent_backoff := backoff_reset (m_device_absent_backoff m),
               m_awaiting_producer_backoff := backoff_reset (m_awaiting_producer_backoff m),
               m_have_last_frame := False, m_rate_window_start := now,
               m_rate_window_frame_count := 0, m_rate_anomaly_active := False\<rparr>"
proof -
  from assms obtain r w1 where s: "dev_start_streaming E (dc_buffer_count (m_config m)) w = Some (r, w1)"
    by (auto simp: enter_configuring_def bind_iff Let_def small_defs)
  obtain now w2 where c: "clk_steady_now E w1 = (now, w2)" by fastforce
  obtain d b where d: "backoff_next (m_awaiting_producer_backoff m) = (d, b)" by fastforce
  show thesis
  proof (cases r)
    case SS_BufferError
    with assms s c d show thesis
      by (intro failed [of w1 now b]) (auto simp: enter_configuring_def bind_iff Let_def small_defs bump_error_def)
  next
    case SS_Started
    with assms s c show thesis
      by (intro started [of w1 now]) (auto simp: enter_configuring_def bind_iff Let_def small_defs set_stream_info_def)
  qed
qed
text \<open>The statistics after a frame: the three counters and, from the second frame on, the interval.\<close>

definition frame_stats :: "ns \<Rightarrow> frame_descriptor \<Rightarrow> csm \<Rightarrow> capture_stats" where
  "frame_stats wall frame m =
     (m_stats m)
       \<lparr>st_frames_received := st_frames_received (m_stats m) + 1,
        st_bytes_received := st_bytes_received (m_stats m) + fd_bytes_used frame,
        st_last_frame_unixtime := s_of_ns wall,
        st_frame_interval_seconds :=
          (if m_have_last_frame m
           then histogram_observe (seconds_of_ns (fd_captured_at frame - m_last_frame_at m))
                  (st_frame_interval_seconds (m_stats m))
           else st_frame_interval_seconds (m_stats m))\<rparr>"

lemma handle_frameE:
  assumes "handle_frame E frame m w = Some (m', w')"
  obtains w1 wall where
    "dev_requeue_frame E (fd_buffer_index frame) w = Some w1"
    and "clk_wall_now E w1 = (wall, w')"
    and "m' = m\<lparr>m_stats := frame_stats wall frame m,
               m_last_frame_at := fd_captured_at frame, m_have_last_frame := True\<rparr>"
proof -
  from assms obtain w1 where r: "dev_requeue_frame E (fd_buffer_index frame) w = Some w1"
    by (auto simp: handle_frame_def bind_iff)
  obtain wall w2 where k: "clk_wall_now E w1 = (wall, w2)" by fastforce
  show thesis
    using assms r k
    by (intro that [of w1 wall]) (auto simp: handle_frame_def bind_iff Let_def frame_stats_def)
qed

text \<open>
  A rate check either leaves the window open, or closes it with the verdict
  \<open>too_fast\<close>; an error is counted only where an episode begins.
\<close>

definition too_fast :: "csm \<Rightarrow> ns \<Rightarrow> bool" where
  "too_fast m elapsed \<longleftrightarrow>
     0 < dc_expected_fps (m_config m) \<and>
     rate_threshold (m_config m) < arrival_rate (m_rate_window_frame_count m + 1) elapsed"

lemma check_arrival_rateE:
  assumes "check_arrival_rate now m = Some m'"
  obtains (window_open)
    "now - m_rate_window_start m < kRateAnomalyWindow"
    and "m' = m\<lparr>m_rate_window_frame_count := m_rate_window_frame_count m + 1\<rparr>"
  | (window_closed)
    "kRateAnomalyWindow \<le> now - m_rate_window_start m"
    and "m' = m\<lparr>m_stats :=
                 (if too_fast m (now - m_rate_window_start m) \<and> \<not> m_rate_anomaly_active m
                  then bump_error ER_Geometry (m_stats m) else m_stats m),
               m_rate_anomaly_active := too_fast m (now - m_rate_window_start m),
               m_rate_window_start := now, m_rate_window_frame_count := 0\<rparr>"
proof (cases "now - m_rate_window_start m < kRateAnomalyWindow")
  case True
  with assms show thesis by (intro window_open) (auto simp: check_arrival_rate_def Let_def)
next
  case False
  with assms show thesis
    by (intro window_closed)
      (auto simp: check_arrival_rate_def Let_def too_fast_def bump_error_def bind_iff split: if_splits)
qed

subsection \<open>The step relation\<close>

inductive csm_trans ::
  "'w env \<Rightarrow> ms \<Rightarrow> csm \<times> 'w \<Rightarrow> step_outcome \<times> csm \<times> 'w \<Rightarrow> bool"
  for E :: "'w env" and poll_timeout :: ms where
  waiting:
    "\<lbrakk>m_state m = CS_DeviceAbsent \<or> m_state m = CS_AwaitingProducer;
      clk_steady_now E w = (now, w'); now < m_next_attempt_at m\<rbrakk>
     \<Longrightarrow> csm_trans E poll_timeout (m, w) (ms_of_ns (m_next_attempt_at m - now), m, w')"
| opened:
    "\<lbrakk>m_state m = CS_DeviceAbsent; clk_steady_now E w = (now, w1); m_next_attempt_at m \<le> now;
      dev_open E w1 = Some (OR_Opened, w')\<rbrakk>
     \<Longrightarrow> csm_trans E poll_timeout (m, w)
          (0, m\<lparr>m_stats := (m_stats m)\<lparr>st_capture_state := 1\<rparr>,
                m_events := m_events m @ [mk_event EV_DeviceOpened, mk_event EV_AwaitingProducer],
                m_state := CS_AwaitingProducer,
                m_device_absent_backoff := backoff_reset (m_device_absent_backoff m),
                m_awaiting_producer_backoff := backoff_reset (m_awaiting_producer_backoff m)\<rparr>, w')"
| absent:
    "\<lbrakk>m_state m = CS_DeviceAbsent; clk_steady_now E w = (now, w1); m_next_attempt_at m \<le> now;
      dev_open E w1 = Some (OR_Absent, w'); backoff_next (m_device_absent_backoff m) = (wait, b)\<rbrakk>
     \<Longrightarrow> csm_trans E poll_timeout (m, w)
          (wait, m\<lparr>m_stats := bump_error ER_Open (m_stats m), m_device_absent_backoff := b,
                   m_next_attempt_at := now + wait * ns_per_ms\<rparr>, w')"
| no_format:
    "\<lbrakk>m_state m = CS_AwaitingProducer; \<not> m_recovering m;
      clk_steady_now E w = (now, w1); m_next_attempt_at m \<le> now;
      dev_query_format E stream_format_default w1 = Some (r, fmt, w'); r \<noteq> FR_Known;
      backoff_next (m_awaiting_producer_backoff m) = (wait, b)\<rbrakk>
     \<Longrightarrow> csm_trans E poll_timeout (m, w)
          (wait, m\<lparr>m_stats := (if r = FR_Error then bump_error ER_Format (m_stats m) else m_stats m),
                   m_awaiting_producer_backoff := b,
                   m_next_attempt_at := now + wait * ns_per_ms\<rparr>, w')"
| configure_failed:
    "\<lbrakk>m_state m = CS_AwaitingProducer; \<not> m_recovering m;
      clk_steady_now E w = (now, w1); m_next_attempt_at m \<le> now;
      dev_query_format E stream_format_default w1 = Some (FR_Known, fmt, w2);
      enter_configuring E (m\<lparr>m_current_format := fmt\<rparr>) w2 = Some (wait, m', w');
      m_state m' \<noteq> CS_Streaming\<rbrakk>
     \<Longrightarrow> csm_trans E poll_timeout (m, w) (wait, m', w')"
| started:
    "\<lbrakk>m_state m = CS_AwaitingProducer; \<not> m_recovering m;
      clk_steady_now E w = (now, w1); m_next_attempt_at m \<le> now;
      dev_query_format E stream_format_default w1 = Some (FR_Known, fmt, w2);
      enter_configuring E (m\<lparr>m_current_format := fmt\<rparr>) w2 = Some (wait, m1, w');
      m_state m1 = CS_Streaming; \<not> m_has_streamed_before m\<rbrakk>
     \<Longrightarrow> csm_trans E poll_timeout (m, w)
          (wait, m1\<lparr>m_events := m_events m @ [(mk_event EV_StreamingStarted)\<lparr>ev_format := fmt\<rparr>],
                    m_has_streamed_before := True\<rparr>, w')"
| reconnected:
    "\<lbrakk>m_state m = CS_AwaitingProducer; \<not> m_recovering m;
      clk_steady_now E w = (now, w1); m_next_attempt_at m \<le> now;
      dev_query_format E stream_format_default w1 = Some (FR_Known, fmt, w2);
      enter_configuring E (m\<lparr>m_current_format := fmt\<rparr>) w2 = Some (wait, m1, w');
      m_state m1 = CS_Streaming; m_has_streamed_before m\<rbrakk>
     \<Longrightarrow> csm_trans E poll_timeout (m, w)
          (wait, m1\<lparr>m_stats := (m_stats m1)\<lparr>st_reconnects := st_reconnects (m_stats m1) + 1\<rparr>,
                    m_events := m_events m @ [mk_event EV_Reconnecting]\<rparr>, w')"
| probe_lost:
    "\<lbrakk>m_state m = CS_AwaitingProducer; m_recovering m;
      clk_steady_now E w = (now, w1); m_next_attempt_at m \<le> now;
      dev_open E w1 = Some (OR_Absent, w2); lose_device E m w2 = Some (m', w')\<rbrakk>
     \<Longrightarrow> csm_trans E poll_timeout (m, w) (0, m', w')"
| probe_no_format:
    "\<lbrakk>m_state m = CS_AwaitingProducer; m_recovering m;
      clk_steady_now E w = (now, w1); m_next_attempt_at m \<le> now;
      dev_open E w1 = Some (OR_Opened, w2);
      dev_query_format E stream_format_default w2 = Some (r, fmt, w3); r \<noteq> FR_Known;
      dev_close E w3 = Some w'; backoff_next (m_awaiting_producer_backoff m) = (wait, b)\<rbrakk>
     \<Longrightarrow> csm_trans E poll_timeout (m, w)
          (wait, m\<lparr>m_stats := (if r = FR_Error then bump_error ER_Format (m_stats m) else m_stats m),
                   m_awaiting_producer_backoff := b,
                   m_next_attempt_at := now + wait * ns_per_ms\<rparr>, w')"
| probe_configure_failed:
    "\<lbrakk>m_state m = CS_AwaitingProducer; m_recovering m;
      clk_steady_now E w = (now, w1); m_next_attempt_at m \<le> now;
      dev_open E w1 = Some (OR_Opened, w2);
      dev_query_format E stream_format_default w2 = Some (FR_Known, fmt, w3);
      enter_configuring E (m\<lparr>m_current_format := fmt\<rparr>) w3 = Some (wait, m', w4);
      m_state m' \<noteq> CS_Streaming; dev_close E w4 = Some w'\<rbrakk>
     \<Longrightarrow> csm_trans E poll_timeout (m, w) (wait, m', w')"
| resumed:
    "\<lbrakk>m_state m = CS_AwaitingProducer; m_recovering m;
      clk_steady_now E w = (now, w1); m_next_attempt_at m \<le> now;
      dev_open E w1 = Some (OR_Opened, w2);
      dev_query_format E stream_format_default w2 = Some (FR_Known, fmt, w3);
      enter_configuring E (m\<lparr>m_current_format := fmt\<rparr>) w3 = Some (wait, m1, w');
      m_state m1 = CS_Streaming\<rbrakk>
     \<Longrightarrow> csm_trans E poll_timeout (m, w)
          (wait, m1\<lparr>m_events := m_events m @ [mk_event EV_StallCleared] @
                      (if fmt \<noteq> m_current_format m
                       then [(mk_event EV_FormatChanged)
                               \<lparr>ev_format := fmt, ev_previous_format := m_current_format m\<rparr>]
                       else []) @
                      [(mk_event EV_StreamingStarted)\<lparr>ev_format := fmt\<rparr>],
                    m_recovering := False\<rparr>, w')"
| frame_ok:
    "\<lbrakk>m_state m = CS_Streaming;
      dev_dequeue_frame E poll_timeout frame_descriptor_default w = Some (DQ_Frame, f, w1);
      handle_frame E f m w1 = Some (m1, w');
      check_arrival_rate (fd_captured_at f) m1 = Some m';
      sf_compressed (m_current_format m) \<or> fd_bytes_used f = ucast (sf_size_image (m_current_format m))\<rbrakk>
     \<Longrightarrow> csm_trans E poll_timeout (m, w) (0, m', w')"
| frame_mismatch:
    "\<lbrakk>m_state m = CS_Streaming;
      dev_dequeue_frame E poll_timeout frame_descriptor_default w = Some (DQ_Frame, f, w1);
      handle_frame E f m w1 = Some (m1, w2);
      check_arrival_rate (fd_captured_at f) m1 = Some m2;
      \<not> sf_compressed (m_current_format m);
      fd_bytes_used f \<noteq> ucast (sf_size_image (m_current_format m));
      begin_release_cycle E ER_Geometry m2 w2 = Some (m', w')\<rbrakk>
     \<Longrightarrow> csm_trans E poll_timeout (m, w) (0, m', w')"
| poll_timed_out:
    "\<lbrakk>m_state m = CS_Streaming;
      dev_dequeue_frame E poll_timeout frame_descriptor_default w = Some (DQ_Timeout, f, w1);
      clk_steady_now E w1 = (now, w');
      m_have_last_frame m \<longrightarrow> now - m_last_frame_at m < m_stall_threshold m * ns_per_ms\<rbrakk>
     \<Longrightarrow> csm_trans E poll_timeout (m, w) (0, m, w')"
| stalled:
    "\<lbrakk>m_state m = CS_Streaming;
      dev_dequeue_frame E poll_timeout frame_descriptor_default w = Some (DQ_Timeout, f, w1);
      clk_steady_now E w1 = (now, w2);
      m_have_last_frame m; m_stall_threshold m * ns_per_ms \<le> now - m_last_frame_at m;
      begin_release_cycle E ER_Timeout m w2 = Some (m', w')\<rbrakk>
     \<Longrightarrow> csm_trans E poll_timeout (m, w) (0, m', w')"
| dequeue_error:
    "\<lbrakk>m_state m = CS_Streaming;
      dev_dequeue_frame E poll_timeout frame_descriptor_default w = Some (DQ_Error, f, w')\<rbrakk>
     \<Longrightarrow> csm_trans E poll_timeout (m, w) (0, m\<lparr>m_stats := bump_error ER_Dequeue (m_stats m)\<rparr>, w')"
| lost:
    "\<lbrakk>m_state m = CS_Streaming;
      dev_dequeue_frame E poll_timeout frame_descriptor_default w = Some (DQ_DeviceLost, f, w1);
      lose_device E m w1 = Some (m', w')\<rbrakk>
     \<Longrightarrow> csm_trans E poll_timeout (m, w) (0, m', w')"
| transient:
    "m_state m = CS_Configuring \<or> m_state m = CS_Stalled
     \<Longrightarrow> csm_trans E poll_timeout (m, w) (0, m, w)"

subsection \<open>Every call that returns is a rule of the relation\<close>

lemma enter_configuring_keeps:
  assumes "enter_configuring E m w = Some (wait, m', w')"
  shows "m_events m' = m_events m" and "m_has_streamed_before m' = m_has_streamed_before m"
    and "m_current_format m' = m_current_format m" and "m_recovering m' = m_recovering m"
  using assms by (auto elim: enter_configuringE)

lemma handle_frame_keeps:
  assumes "handle_frame E f m w = Some (m', w')"
  shows "m_current_format m' = m_current_format m"
  using assms by (auto elim: handle_frameE)

lemma check_arrival_rate_keeps:
  assumes "check_arrival_rate now m = Some m'"
  shows "m_current_format m' = m_current_format m"
  using assms by (auto elim: check_arrival_rateE)

lemma step_device_absent_trans:
  assumes step: "step_device_absent E m w = Some (wait, m', w')" and st: "m_state m = CS_DeviceAbsent"
  shows "csm_trans E pt (m, w) (wait, m', w')"
proof -
  obtain now w1 where c: "clk_steady_now E w = (now, w1)" by fastforce
  show ?thesis
  proof (cases "now < m_next_attempt_at m")
    case True
    with step c have "wait = ms_of_ns (m_next_attempt_at m - now)" "m' = m" "w' = w1"
      by (auto simp: step_device_absent_def)
    with st c True show ?thesis by (auto intro: csm_trans.waiting)
  next
    case False
    with step c obtain r where o: "dev_open E w1 = Some (r, w')"
      by (auto simp: step_device_absent_def bind_iff Let_def split: if_splits prod.splits)
    show ?thesis
    proof (cases r)
      case OR_Opened
      with step c False o have "wait = 0"
        and "m' = m\<lparr>m_stats := (m_stats m)\<lparr>st_capture_state := 1\<rparr>,
                m_events := m_events m @ [mk_event EV_DeviceOpened, mk_event EV_AwaitingProducer],
                m_state := CS_AwaitingProducer,
                m_device_absent_backoff := backoff_reset (m_device_absent_backoff m),
                m_awaiting_producer_backoff := backoff_reset (m_awaiting_producer_backoff m)\<rparr>"
        by (auto simp: step_device_absent_def small_defs)
      with st c False o OR_Opened show ?thesis by (auto intro: csm_trans.opened)
    next
      case OR_Absent
      obtain d b where b: "backoff_next (m_device_absent_backoff m) = (d, b)" by fastforce
      have "wait = d \<and>
        m' = m\<lparr>m_stats := bump_error ER_Open (m_stats m), m_device_absent_backoff := b,
               m_next_attempt_at := now + wait * ns_per_ms\<rparr>"
        using step c False o OR_Absent b
        by (auto simp: step_device_absent_def bind_iff small_defs bump_error_def)
      then show ?thesis
        using csm_trans.absent [OF st c _ _ b, where poll_timeout = pt] False o OR_Absent
        by (simp add: not_less)
    qed
  qed
qed

lemma step_awaiting_producer_trans:
  assumes step: "step_awaiting_producer E m w = Some (wait, m', w')"
    and st: "m_state m = CS_AwaitingProducer" "\<not> m_recovering m"
  shows "csm_trans E pt (m, w) (wait, m', w')"
proof -
  obtain now w1 where c: "clk_steady_now E w = (now, w1)" by fastforce
  show ?thesis
  proof (cases "now < m_next_attempt_at m")
    case True
    with step c have "wait = ms_of_ns (m_next_attempt_at m - now)" "m' = m" "w' = w1"
      by (auto simp: step_awaiting_producer_def)
    with st c True show ?thesis by (auto intro: csm_trans.waiting)
  next
    case False
    with step c obtain r fmt w2 where q: "dev_query_format E stream_format_default w1 = Some (r, fmt, w2)"
      by (auto simp: step_awaiting_producer_def bind_iff)
    show ?thesis
    proof (cases "r = FR_Known")
      case False
      obtain d b where b: "backoff_next (m_awaiting_producer_backoff m) = (d, b)" by fastforce
      have "wait = d \<and> w' = w2 \<and>
        m' = m\<lparr>m_stats := (if r = FR_Error then bump_error ER_Format (m_stats m) else m_stats m),
               m_awaiting_producer_backoff := b, m_next_attempt_at := now + wait * ns_per_ms\<rparr>"
        using step c q b \<open>\<not> now < m_next_attempt_at m\<close> False
        by (cases r) (auto simp: step_awaiting_producer_def bind_iff small_defs bump_error_def)
      then show ?thesis
        using csm_trans.no_format [OF st c _ q False b, where poll_timeout = pt] \<open>\<not> now < m_next_attempt_at m\<close>
        by (simp add: not_less)
    next
      case True
      with step c q \<open>\<not> now < m_next_attempt_at m\<close>
      obtain m1 where e: "enter_configuring E (m\<lparr>m_current_format := fmt\<rparr>) w2 = Some (wait, m1, w')"
        and m': "m' = (if m_state m1 = CS_Streaming
            then if m_has_streamed_before m1
                 then m1\<lparr>m_stats := (m_stats m1)\<lparr>st_reconnects := st_reconnects (m_stats m1) + 1\<rparr>,
                         m_events := m_events m1 @ [mk_event EV_Reconnecting]\<rparr>
                 else m1\<lparr>m_events := m_events m1 @ [(mk_event EV_StreamingStarted)\<lparr>ev_format := m_current_format m1\<rparr>],
                         m_has_streamed_before := True\<rparr>
            else m1)"
        by (auto simp: step_awaiting_producer_def bind_iff Let_def emit_def)
      note keeps = enter_configuring_keeps [OF e, simplified]
      consider "m_state m1 \<noteq> CS_Streaming" | "m_state m1 = CS_Streaming" "m_has_streamed_before m"
        | "m_state m1 = CS_Streaming" "\<not> m_has_streamed_before m" by blast
      then show ?thesis
        using st c q e m' keeps True \<open>\<not> now < m_next_attempt_at m\<close>
        by cases (auto intro: csm_trans.configure_failed csm_trans.started csm_trans.reconnected)
    qed
  qed
qed

lemma step_recovering_trans:
  assumes step: "step_recovering E m w = Some (wait, m', w')"
    and st: "m_state m = CS_AwaitingProducer" "m_recovering m"
  shows "csm_trans E pt (m, w) (wait, m', w')"
proof -
  obtain now w1 where c: "clk_steady_now E w = (now, w1)" by fastforce
  show ?thesis
  proof (cases "now < m_next_attempt_at m")
    case True
    with step c have "wait = ms_of_ns (m_next_attempt_at m - now)" "m' = m" "w' = w1"
      by (auto simp: step_recovering_def)
    with st c True show ?thesis by (auto intro: csm_trans.waiting)
  next
    case False
    note due = this
    with step c obtain r w2 where o: "dev_open E w1 = Some (r, w2)"
      by (auto simp: step_recovering_def bind_iff)
    show ?thesis
    proof (cases r)
      case OR_Absent
      with step c due o have "wait = 0" "lose_device E m w2 = Some (m', w')"
        by (auto simp: step_recovering_def bind_iff)
      with st c due o OR_Absent show ?thesis by (auto intro: csm_trans.probe_lost)
    next
      case OR_Opened
      with step c due o obtain q fmt w3 where
        q: "dev_query_format E stream_format_default w2 = Some (q, fmt, w3)"
        by (auto simp: step_recovering_def bind_iff)
      note ctx = c due o OR_Opened q
      show ?thesis
      proof (cases "q = FR_Known")
        case False
        obtain d b where b: "backoff_next (m_awaiting_producer_backoff m) = (d, b)" by fastforce
        have "dev_close E w3 = Some w' \<and> wait = d \<and>
          m' = m\<lparr>m_stats := (if q = FR_Error then bump_error ER_Format (m_stats m) else m_stats m),
                 m_awaiting_producer_backoff := b, m_next_attempt_at := now + wait * ns_per_ms\<rparr>"
          using step ctx b False
          by (cases q) (auto simp: step_recovering_def bind_iff small_defs bump_error_def)
        then show ?thesis
          using csm_trans.probe_no_format [OF st c _ _ q False _ b, where poll_timeout = pt and w' = w'] ctx by (simp add: not_less)
      next
        case True
        with step ctx obtain m1 w4 where
          e: "enter_configuring E (m\<lparr>m_current_format := fmt\<rparr>) w3 = Some (wait, m1, w4)"
          by (auto simp: step_recovering_def bind_iff Let_def split: if_splits)
        note keeps = enter_configuring_keeps [OF e, simplified]
        show ?thesis
        proof (cases "m_state m1 = CS_Streaming")
          case False
          with step ctx True e have "dev_close E w4 = Some w'" "m' = m1"
            by (auto simp: step_recovering_def bind_iff Let_def)
          with st ctx True e False show ?thesis by (auto intro: csm_trans.probe_configure_failed)
        next
          case streaming: True
          with step ctx True e keeps have "w' = w4 \<and> m' =
            m1\<lparr>m_events := m_events m @ [mk_event EV_StallCleared] @
                 (if fmt \<noteq> m_current_format m
                  then [(mk_event EV_FormatChanged)
                          \<lparr>ev_format := fmt, ev_previous_format := m_current_format m\<rparr>]
                  else []) @
                 [(mk_event EV_StreamingStarted)\<lparr>ev_format := fmt\<rparr>],
               m_recovering := False\<rparr>"
            by (auto simp: step_recovering_def bind_iff Let_def emit_def)
          then show ?thesis
            using csm_trans.resumed [OF st c _ _ _ e streaming, where poll_timeout = pt] ctx True by (simp add: not_less)
        qed
      qed
    qed
  qed
qed

lemma step_streaming_trans:
  assumes step: "step_streaming E pt m w = Some (wait, m', w')" and st: "m_state m = CS_Streaming"
  shows "csm_trans E pt (m, w) (wait, m', w')"
proof -
  from step obtain r f w1 where d: "dev_dequeue_frame E pt frame_descriptor_default w = Some (r, f, w1)"
    by (auto simp: step_streaming_def bind_iff)
  show ?thesis
  proof (cases r)
    case DQ_Frame
    with step d obtain m1 w2 m2 where h: "handle_frame E f m w1 = Some (m1, w2)"
      and r: "check_arrival_rate (fd_captured_at f) m1 = Some m2"
      by (auto simp: step_streaming_def bind_iff)
    note keeps = handle_frame_keeps [OF h] check_arrival_rate_keeps [OF r]
    have "wait = 0 \<and>
      (if \<not> sf_compressed (m_current_format m) \<and> fd_bytes_used f \<noteq> ucast (sf_size_image (m_current_format m))
       then begin_release_cycle E ER_Geometry m2 w2 = Some (m', w') else m' = m2 \<and> w' = w2)"
      using step d DQ_Frame h r keeps by (auto simp: step_streaming_def bind_iff split: if_splits)
    with st d DQ_Frame h r show ?thesis
      by (auto intro: csm_trans.frame_ok csm_trans.frame_mismatch split: if_splits)
  next
    case DQ_Timeout
    obtain now w2 where c: "clk_steady_now E w1 = (now, w2)" by fastforce
    have "wait = 0 \<and>
      (if m_have_last_frame m \<and> m_stall_threshold m * ns_per_ms \<le> now - m_last_frame_at m
       then begin_release_cycle E ER_Timeout m w2 = Some (m', w') else m' = m \<and> w' = w2)"
      using step d DQ_Timeout c by (auto simp: step_streaming_def bind_iff split: if_splits)
    with st d DQ_Timeout c show ?thesis
      by (auto intro: csm_trans.poll_timed_out csm_trans.stalled split: if_splits)
  next
    case DQ_DeviceLost
    with step d have "wait = 0" "lose_device E m w1 = Some (m', w')"
      by (auto simp: step_streaming_def bind_iff)
    with st d DQ_DeviceLost show ?thesis by (auto intro: csm_trans.lost)
  next
    case DQ_Error
    with step d have "wait = 0" "w' = w1" "m' = m\<lparr>m_stats := bump_error ER_Dequeue (m_stats m)\<rparr>"
      by (auto simp: step_streaming_def bind_iff bump_error_def)
    with st d DQ_Error show ?thesis by (auto intro: csm_trans.dequeue_error)
  qed
qed

text \<open>The relation covers the machine: the inversion rule every property of a step uses.\<close>

lemma csm_step_trans:
  assumes "csm_step E pt m w = Some (wait, m', w')"
  shows "csm_trans E pt (m, w) (wait, m', w')"
proof (cases "m_state m")
  case CS_DeviceAbsent
  with assms show ?thesis by (auto simp: csm_step_def intro: step_device_absent_trans)
next
  case CS_AwaitingProducer
  with assms show ?thesis
    by (auto simp: csm_step_def intro: step_awaiting_producer_trans step_recovering_trans split: if_splits)
next
  case CS_Streaming
  with assms show ?thesis by (auto simp: csm_step_def intro: step_streaming_trans)
qed (use assms in \<open>auto simp: csm_step_def intro: csm_trans.transient\<close>)

end
