(* ===== verification/Capture_Lifecycle.thy ===== *)
theory Capture_Lifecycle
  imports Capture_Steps
begin

text \<open>
  What the state machine promises to whoever reads its events and its counters: an
  abstract life cycle of four phases with the events each transition announces, the
  invariant the machine keeps between calls, the proof that every call is a transition of
  the life cycle (a refinement), and the accounting between events and counters that
  follows from it.
\<close>

subsection \<open>The invariant between calls of step()\<close>

definition machine_wf :: "csm \<Rightarrow> bool" where
  "machine_wf m \<longleftrightarrow>
     stats_wf (m_stats m) \<and>
     m_state m \<noteq> CS_Configuring \<and> m_state m \<noteq> CS_Stalled \<and>
     st_capture_state (m_stats m) = capture_state_code (m_state m) \<and>
     (m_recovering m \<longrightarrow> m_state m = CS_AwaitingProducer \<and> m_has_streamed_before m) \<and>
     (m_state m = CS_Streaming \<longrightarrow> m_has_streamed_before m)"

lemma bump_error_fields [simp]:
  "st_frames_received (bump_error r st) = st_frames_received st"
  "st_bytes_received (bump_error r st) = st_bytes_received st"
  "st_capture_state (bump_error r st) = st_capture_state st"
  "st_reconnects (bump_error r st) = st_reconnects st"
  "st_stalls (bump_error r st) = st_stalls st"
  "st_last_frame_unixtime (bump_error r st) = st_last_frame_unixtime st"
  "st_frame_interval_seconds (bump_error r st) = st_frame_interval_seconds st"
  "st_stream_info_known (bump_error r st) = st_stream_info_known st"
  "st_stream_info (bump_error r st) = st_stream_info st"
  "length (st_errors (bump_error r st)) = length (st_errors st)"
  by (simp_all add: bump_error_def)

lemma set_stream_info_fields [simp]:
  "st_frames_received (set_stream_info f st) = st_frames_received st"
  "st_bytes_received (set_stream_info f st) = st_bytes_received st"
  "st_capture_state (set_stream_info f st) = st_capture_state st"
  "st_reconnects (set_stream_info f st) = st_reconnects st"
  "st_stalls (set_stream_info f st) = st_stalls st"
  "st_frame_interval_seconds (set_stream_info f st) = st_frame_interval_seconds st"
  "st_errors (set_stream_info f st) = st_errors st"
  by (simp_all add: set_stream_info_def)

lemma frame_stats_fields [simp]:
  "st_frames_received (frame_stats wall f m) = st_frames_received (m_stats m) + 1"
  "st_bytes_received (frame_stats wall f m) = st_bytes_received (m_stats m) + fd_bytes_used f"
  "st_capture_state (frame_stats wall f m) = st_capture_state (m_stats m)"
  "st_reconnects (frame_stats wall f m) = st_reconnects (m_stats m)"
  "st_stalls (frame_stats wall f m) = st_stalls (m_stats m)"
  "st_errors (frame_stats wall f m) = st_errors (m_stats m)"
  by (simp_all add: frame_stats_def)

lemma stats_wf_bump [simp]: "stats_wf (bump_error r st) \<longleftrightarrow> stats_wf st"
  by (simp add: stats_wf_def)

lemma stats_wf_set_stream_info [simp]: "stats_wf (set_stream_info f st) \<longleftrightarrow> stats_wf st"
  by (simp add: stats_wf_def)

lemma stats_wf_updates [simp]:
  "stats_wf (st\<lparr>st_capture_state := c\<rparr>) \<longleftrightarrow> stats_wf st"
  "stats_wf (st\<lparr>st_stalls := n\<rparr>) \<longleftrightarrow> stats_wf st"
  "stats_wf (st\<lparr>st_stalls := n, st_capture_state := c\<rparr>) \<longleftrightarrow> stats_wf st"
  "stats_wf (st\<lparr>st_reconnects := n\<rparr>) \<longleftrightarrow> stats_wf st"
  by (simp_all add: stats_wf_def)

lemma frame_stats_wf: "stats_wf (m_stats m) \<Longrightarrow> stats_wf (frame_stats wall f m)"
  by (simp add: stats_wf_def frame_stats_def histogram_observe_wf)

subsection \<open>The abstract life cycle\<close>

datatype phase = P_Absent | P_Waiting | P_Live | P_Released

inductive lifecycle :: "phase \<times> bool \<Rightarrow> event_type list \<Rightarrow> phase \<times> bool \<Rightarrow> bool" where
  lc_idle: "lifecycle p [] p"
| lc_open: "lifecycle (P_Absent, s) [EV_DeviceOpened, EV_AwaitingProducer] (P_Waiting, s)"
| lc_first: "lifecycle (P_Waiting, False) [EV_StreamingStarted] (P_Live, True)"
| lc_reconnect: "lifecycle (P_Waiting, True) [EV_Reconnecting] (P_Live, True)"
| lc_stall: "lifecycle (P_Live, True) [EV_StallDetected] (P_Released, True)"
| lc_lost: "lifecycle (P_Live, True) [EV_DeviceLost] (P_Absent, True)"
| lc_resume: "lifecycle (P_Released, True) [EV_StallCleared, EV_StreamingStarted] (P_Live, True)"
| lc_changed:
    "lifecycle (P_Released, True)
       [EV_StallCleared, EV_FormatChanged, EV_StreamingStarted] (P_Live, True)"
| lc_gone: "lifecycle (P_Released, True) [EV_DeviceLost] (P_Absent, True)"

definition phase_of :: "csm \<Rightarrow> phase \<times> bool" where
  "phase_of m =
     (case m_state m of
        CS_DeviceAbsent \<Rightarrow> P_Absent
      | CS_AwaitingProducer \<Rightarrow> if m_recovering m then P_Released else P_Waiting
      | _ \<Rightarrow> P_Live,
      m_has_streamed_before m)"

text \<open>Facts about the helpers that every preservation proof shares.\<close>

lemma handle_frame_wf:
  assumes "handle_frame E f m w = Some (m', w')" and "machine_wf m"
  shows "machine_wf m'" and "m_state m' = m_state m" and "m_recovering m' = m_recovering m"
    and "m_has_streamed_before m' = m_has_streamed_before m" and "m_events m' = m_events m"
  using assms by (auto elim!: handle_frameE simp: machine_wf_def frame_stats_wf)

lemma check_arrival_rate_wf:
  assumes "check_arrival_rate now m = Some m'" and "machine_wf m"
  shows "machine_wf m'" and "m_state m' = m_state m" and "m_recovering m' = m_recovering m"
    and "m_has_streamed_before m' = m_has_streamed_before m" and "m_events m' = m_events m"
  using assms by (auto elim!: check_arrival_rateE simp: machine_wf_def)

lemma begin_release_cycle_wf:
  assumes "begin_release_cycle E r m w = Some (m', w')" and "machine_wf m" and "m_state m = CS_Streaming"
  shows "machine_wf m'" and "phase_of m' = (P_Released, True)"
    and "m_events m' = m_events m @ [mk_event EV_StallDetected]"
  using assms by (auto elim!: begin_release_cycleE simp: machine_wf_def phase_of_def)

lemma lose_device_wf:
  assumes "lose_device E m w = Some (m', w')" and "machine_wf m"
  shows "machine_wf m'" and "phase_of m' = (P_Absent, m_has_streamed_before m)"
    and "m_events m' = m_events m @ [mk_event EV_DeviceLost]"
  using assms by (auto elim!: lose_deviceE simp: machine_wf_def phase_of_def)

subsection \<open>Every step is a transition of the life cycle\<close>

lemma csm_trans_refines:
  assumes "csm_trans E pt (m, w) (wait, m', w')" and "machine_wf m"
  shows "machine_wf m' \<and>
    (\<exists>evs. m_events m' = m_events m @ evs \<and> lifecycle (phase_of m) (map ev_type evs) (phase_of m'))"
  using assms(1)
proof (cases rule: csm_trans.cases)
  case (frame_ok f w1 m1)
  note h = handle_frame_wf [OF frame_ok(4) assms(2)]
  note r = check_arrival_rate_wf [OF frame_ok(5) h(1)]
  from h r have "phase_of m' = phase_of m" by (simp add: phase_of_def)
  with h r show ?thesis by (auto intro: lc_idle)
next
  case (frame_mismatch f w1 m1 w2 m2)
  note h = handle_frame_wf [OF frame_mismatch(4) assms(2)]
  note r = check_arrival_rate_wf [OF frame_mismatch(5) h(1)]
  from h r frame_mismatch have s: "m_state m2 = CS_Streaming" by simp
  have "phase_of m = (P_Live, True)"
    using assms(2) frame_mismatch by (simp add: phase_of_def machine_wf_def)
  then show ?thesis
    using begin_release_cycle_wf [OF frame_mismatch(8) r(1) s] h r by (auto intro: lc_stall)
next
  case (stalled f w1 now w2)
  have "phase_of m = (P_Live, True)"
    using assms(2) stalled by (simp add: phase_of_def machine_wf_def)
  then show ?thesis
    using begin_release_cycle_wf [OF stalled(7) assms(2) stalled(2)] by (auto intro: lc_stall)
next
  case (lost f w1)
  have "phase_of m = (P_Live, True)" "m_has_streamed_before m"
    using assms(2) lost by (simp_all add: phase_of_def machine_wf_def)
  then show ?thesis using lose_device_wf [OF lost(4) assms(2)] by (auto intro: lc_lost)
next
  case (probe_lost now w1 w2)
  have "phase_of m = (P_Released, True)" "m_has_streamed_before m"
    using assms(2) probe_lost by (simp_all add: phase_of_def machine_wf_def)
  then show ?thesis using lose_device_wf [OF probe_lost(7) assms(2)] by (auto intro: lc_gone)
qed (use assms(2) in \<open>(auto elim!: enter_configuringE simp: machine_wf_def phase_of_def intro: lifecycle.intros; fail)+\<close>)

subsection \<open>Reachable machines\<close>

text \<open>
  A machine is reachable from a configuration when it comes out of the constructor and any
  number of steps, each step in a world of its own: between two calls the device, the
  driver and the clock may have done anything.
\<close>

inductive csm_reach :: "'w env \<Rightarrow> daemon_config \<Rightarrow> csm \<Rightarrow> bool" for E :: "'w env" and cfg where
  reach_new: "csm_new E capture_stats_new cfg w = (m, w') \<Longrightarrow> csm_reach E cfg m"
| reach_step: "csm_reach E cfg m \<Longrightarrow> csm_step E pt m w = Some (wait, m', w') \<Longrightarrow> csm_reach E cfg m'"

text \<open>The traces of the life cycle from its start, with the phase they end in.\<close>

inductive lifecycle_run :: "event_type list \<Rightarrow> phase \<times> bool \<Rightarrow> bool" where
  run_start: "lifecycle_run [] (P_Absent, False)"
| run_more: "lifecycle_run tr p \<Longrightarrow> lifecycle p evs q \<Longrightarrow> lifecycle_run (tr @ evs) q"

lemma csm_new_fields:
  assumes "csm_new E st cfg w = (m, w')"
  shows "m_config m = cfg" and "m_state m = CS_DeviceAbsent" and "m_events m = []"
    and "m_recovering m = False" and "m_has_streamed_before m = False"
    and "m_stats m = st\<lparr>st_capture_state := 0\<rparr>"
    and "m_stall_threshold m = stall_threshold_of cfg"
    and "m_device_absent_backoff m =
           backoff_new (dc_reconnect_initial_backoff cfg) (dc_reconnect_max_backoff cfg)"
    and "m_awaiting_producer_backoff m =
           backoff_new (dc_reconnect_initial_backoff cfg) (dc_awaiting_producer_max_backoff cfg)"
  using assms by (auto simp: csm_new_def Let_def store_state_def split: prod.splits)

lemma csm_new_wf: "csm_new E capture_stats_new cfg w = (m, w') \<Longrightarrow> machine_wf m"
  by (simp add: machine_wf_def csm_new_fields capture_stats_new_wf)

lemma csm_step_refines:
  assumes "csm_step E pt m w = Some (wait, m', w')" and "machine_wf m"
  shows "machine_wf m' \<and>
    (\<exists>evs. m_events m' = m_events m @ evs \<and> lifecycle (phase_of m) (map ev_type evs) (phase_of m'))"
  using csm_trans_refines [OF csm_step_trans [OF assms(1)] assms(2)] .

lemma csm_reach_wf: "csm_reach E cfg m \<Longrightarrow> machine_wf m"
  by (induction rule: csm_reach.induct) (auto dest: csm_new_wf csm_step_refines)

lemma csm_reach_lifecycle:
  "csm_reach E cfg m \<Longrightarrow> lifecycle_run (map ev_type (m_events m)) (phase_of m)"
proof (induction rule: csm_reach.induct)
  case (reach_new w m w')
  then show ?case by (auto simp: csm_new_fields phase_of_def intro: run_start)
next
  case (reach_step m pt w wait m' w')
  from csm_step_refines [OF reach_step.hyps(2) csm_reach_wf [OF reach_step.hyps(1)]]
  show ?case using reach_step.IH by (auto intro: run_more)
qed

subsection \<open>Counting the events of a life cycle\<close>

text \<open>\<open>bit b\<close> is 1 where \<open>b\<close> holds.\<close>

abbreviation bit_of :: "bool \<Rightarrow> nat" where
  "bit_of b \<equiv> (if b then 1 else 0)"

lemma lifecycle_run_counts:
  assumes "lifecycle_run tr p"
  shows "count_list tr EV_AwaitingProducer = count_list tr EV_DeviceOpened"
    and "count_list tr EV_DeviceOpened = count_list tr EV_DeviceLost + bit_of (fst p \<noteq> P_Absent)"
    and "count_list tr EV_StreamingStarted = count_list tr EV_StallCleared + bit_of (snd p)"
    and "count_list tr EV_Reconnecting + bit_of (snd p) =
           count_list tr EV_DeviceLost + bit_of (fst p = P_Live \<or> fst p = P_Released)"
    and "count_list tr EV_StallCleared + bit_of (fst p = P_Released) \<le> count_list tr EV_StallDetected"
    and "count_list tr EV_StallDetected \<le>
           count_list tr EV_StallCleared + count_list tr EV_DeviceLost + bit_of (fst p = P_Released)"
    and "count_list tr EV_FormatChanged \<le> count_list tr EV_StallCleared"
  using assms by (induction rule: lifecycle_run.induct) (auto elim!: lifecycle.cases)

subsection \<open>Counters against events\<close>

abbreviation event_count :: "csm \<Rightarrow> event_type \<Rightarrow> nat" where
  "event_count m t \<equiv> count_list (map ev_type (m_events m)) t"

definition error_counter :: "error_reason \<Rightarrow> csm \<Rightarrow> u64" where
  "error_counter r m = st_errors (m_stats m) ! error_reason_code r"

definition accounted :: "csm \<Rightarrow> bool" where
  "accounted m \<longleftrightarrow>
     st_stalls (m_stats m) = of_nat (event_count m EV_StallDetected) \<and>
     st_reconnects (m_stats m) = of_nat (event_count m EV_Reconnecting) \<and>
     error_counter ER_DeviceLost m = of_nat (event_count m EV_DeviceLost)"

lemma nth_bump_error:
  "stats_wf st \<Longrightarrow> r \<noteq> ER_Count \<Longrightarrow>
     st_errors (bump_error r st) ! i = (if i = error_reason_code r then st_errors st ! i + 1 else st_errors st ! i)"
  using error_reason_code_less [of r] by (auto simp: bump_error_def stats_wf_def nth_list_update)

lemma handle_frame_accounted:
  "handle_frame E f m w = Some (m', w') \<Longrightarrow> accounted m \<Longrightarrow> accounted m'"
  by (erule handle_frameE) (simp add: accounted_def error_counter_def)

lemma check_arrival_rate_accounted:
  "check_arrival_rate now m = Some m' \<Longrightarrow> machine_wf m \<Longrightarrow> accounted m \<Longrightarrow> accounted m'"
  by (erule check_arrival_rateE)
    (simp_all add: accounted_def error_counter_def nth_bump_error machine_wf_def)

lemma begin_release_cycle_accounted:
  "begin_release_cycle E r m w = Some (m', w') \<Longrightarrow> machine_wf m \<Longrightarrow> accounted m \<Longrightarrow>
     r = ER_Timeout \<or> r = ER_Geometry \<Longrightarrow> accounted m'"
  by (erule begin_release_cycleE)
    (auto simp: accounted_def error_counter_def nth_bump_error machine_wf_def)

lemma lose_device_accounted:
  "lose_device E m w = Some (m', w') \<Longrightarrow> machine_wf m \<Longrightarrow> accounted m \<Longrightarrow> accounted m'"
  by (erule lose_deviceE) (simp add: accounted_def error_counter_def nth_bump_error machine_wf_def)

lemma csm_trans_accounted:
  assumes "csm_trans E pt (m, w) (wait, m', w')" and wf: "machine_wf m" and ac: "accounted m"
  shows "accounted m'"
  using assms(1)
proof (cases rule: csm_trans.cases)
  case (frame_ok f w1 m1)
  note h = handle_frame_wf(1) [OF frame_ok(4) wf] handle_frame_accounted [OF frame_ok(4) ac]
  show ?thesis by (rule check_arrival_rate_accounted [OF frame_ok(5) h])
next
  case (frame_mismatch f w1 m1 w2 m2)
  note h = handle_frame_wf(1) [OF frame_mismatch(4) wf] handle_frame_accounted [OF frame_mismatch(4) ac]
  note r = check_arrival_rate_wf(1) [OF frame_mismatch(5) h(1)] check_arrival_rate_accounted [OF frame_mismatch(5) h]
  show ?thesis by (rule begin_release_cycle_accounted [OF frame_mismatch(8) r]) simp
next
  case (stalled f w1 now w2)
  show ?thesis by (rule begin_release_cycle_accounted [OF stalled(7) wf ac]) simp
next
  case (lost f w1)
  show ?thesis by (rule lose_device_accounted [OF lost(4) wf ac])
next
  case (probe_lost now w1 w2)
  show ?thesis by (rule lose_device_accounted [OF probe_lost(7) wf ac])
qed (use wf ac in \<open>(auto elim!: enter_configuringE
       simp: machine_wf_def accounted_def error_counter_def nth_bump_error; fail)+\<close>)

lemma csm_reach_accounted: "csm_reach E cfg m \<Longrightarrow> accounted m"
proof (induction rule: csm_reach.induct)
  case (reach_new w m w')
  then show ?case
    by (simp add: csm_new_fields accounted_def error_counter_def capture_stats_new_def kErrorReasonCount_def)
next
  case (reach_step m pt w wait m' w')
  show ?case
    by (rule csm_trans_accounted [OF csm_step_trans [OF reach_step.hyps(2)]
          csm_reach_wf [OF reach_step.hyps(1)] reach_step.IH])
qed

end
