(* ===== verification/Capture_Device.thy ===== *)
theory Capture_Device
  imports Capture_Lifecycle
begin

text \<open>
  What the state machine needs from an \<open>ICaptureDevice\<close>, as a locale: how each method
  moves the two facts that matter about a device, whether it holds an open descriptor and
  whether it is streaming. From these laws alone the machine is shown to own at most one
  descriptor, to hold none while it waits out a disruption, and to call every method only
  where the method makes sense. The laws are about calls that return; nothing is assumed
  about what a device answers.
\<close>

subsection \<open>The discipline a machine keeps\<close>

definition fd_discipline :: "bool \<Rightarrow> bool \<Rightarrow> csm \<Rightarrow> bool" where
  "fd_discipline opened strm m \<longleftrightarrow>
     (case m_state m of
        CS_DeviceAbsent \<Rightarrow> \<not> opened \<and> \<not> strm
      | CS_AwaitingProducer \<Rightarrow> opened = (\<not> m_recovering m) \<and> \<not> strm
      | CS_Streaming \<Rightarrow> opened \<and> strm
      | _ \<Rightarrow> False)"

text \<open>
  The same environment with every misuse made undefined: opening a device that is already
  open (which would leak its descriptor), querying or configuring one that is not open,
  configuring one that already streams, and taking or returning frames on one that does
  not stream.
\<close>

definition guarded :: "('w \<Rightarrow> bool) \<Rightarrow> ('w \<Rightarrow> bool) \<Rightarrow> 'w env \<Rightarrow> 'w env" where
  "guarded is_open is_streaming E =
     E\<lparr>dev_open := (\<lambda>w. if is_open w then None else dev_open E w),
       dev_query_format := (\<lambda>f w. if is_open w then dev_query_format E f w else None),
       dev_start_streaming :=
         (\<lambda>n w. if is_open w \<and> \<not> is_streaming w then dev_start_streaming E n w else None),
       dev_dequeue_frame :=
         (\<lambda>t f w. if is_open w \<and> is_streaming w then dev_dequeue_frame E t f w else None),
       dev_requeue_frame :=
         (\<lambda>i w. if is_open w \<and> is_streaming w then dev_requeue_frame E i w else None)\<rparr>"

text \<open>What a guard does to each method, and which methods have none.\<close>

lemma guarded_fields [simp]:
  "dev_open (guarded opn strm E) w = (if opn w then None else dev_open E w)"
  "dev_query_format (guarded opn strm E) f w = (if opn w then dev_query_format E f w else None)"
  "dev_start_streaming (guarded opn strm E) n w =
     (if opn w \<and> \<not> strm w then dev_start_streaming E n w else None)"
  "dev_dequeue_frame (guarded opn strm E) t fr w =
     (if opn w \<and> strm w then dev_dequeue_frame E t fr w else None)"
  "dev_requeue_frame (guarded opn strm E) i w =
     (if opn w \<and> strm w then dev_requeue_frame E i w else None)"
  by (simp_all add: guarded_def)

lemma guarded_same [simp]:
  "dev_close (guarded opn strm E) = dev_close E"
  "dev_stop_streaming (guarded opn strm E) = dev_stop_streaming E"
  "clk_steady_now (guarded opn strm E) = clk_steady_now E"
  "clk_wall_now (guarded opn strm E) = clk_wall_now E"
  by (simp_all add: guarded_def)

subsection \<open>Runs in a world\<close>

text \<open>
  A machine and the world it lives in: constructed in the world \<open>w0\<close>, it takes steps,
  and between two steps the rest of the system may change the world by \<open>other\<close>.
\<close>

inductive device_run ::
  "'w env \<Rightarrow> ('w \<Rightarrow> 'w \<Rightarrow> bool) \<Rightarrow> daemon_config \<Rightarrow> 'w \<Rightarrow> csm \<Rightarrow> 'w \<Rightarrow> bool"
  for E :: "'w env" and other and cfg and w0 where
  dr_new: "csm_new E capture_stats_new cfg w0 = (m, w) \<Longrightarrow> device_run E other cfg w0 m w"
| dr_step:
    "device_run E other cfg w0 m w \<Longrightarrow> csm_step E pt m w = Some (wait, m', w') \<Longrightarrow>
       device_run E other cfg w0 m' w'"
| dr_other: "device_run E other cfg w0 m w \<Longrightarrow> other w w' \<Longrightarrow> device_run E other cfg w0 m w'"

lemma device_run_reach: "device_run E other cfg w0 m w \<Longrightarrow> csm_reach E cfg m"
  by (induction rule: device_run.induct) (auto intro: csm_reach.intros)

lemma csm_new_world: "csm_new E st cfg w = (m, w') \<Longrightarrow> w' = snd (clk_steady_now E w)"
  by (auto simp: csm_new_def Let_def split: prod.splits)

lemma csm_new_guarded: "csm_new (guarded opn strm E) st cfg w = csm_new E st cfg w"
  by (simp add: csm_new_def)

subsection \<open>The laws of a device\<close>

locale capture_device =
  fixes E :: "'w env"
    and is_open :: "'w \<Rightarrow> bool"
    and is_streaming :: "'w \<Rightarrow> bool"
  assumes open_opened:
      "dev_open E w = Some (OR_Opened, w') \<Longrightarrow> is_open w' \<and> is_streaming w' = is_streaming w"
    and open_absent:
      "dev_open E w = Some (OR_Absent, w') \<Longrightarrow> \<not> is_open w' \<and> is_streaming w' = is_streaming w"
    and close_closes:
      "dev_close E w = Some w' \<Longrightarrow> \<not> is_open w' \<and> (is_streaming w' \<longrightarrow> is_streaming w)"
    and query_keeps:
      "dev_query_format E fmt w = Some (r, fmt2, w') \<Longrightarrow>
         is_open w' = is_open w \<and> is_streaming w' = is_streaming w"
    and start_started:
      "dev_start_streaming E n w = Some (SS_Started, w') \<Longrightarrow> is_open w' = is_open w \<and> is_streaming w'"
    and start_failed:
      "dev_start_streaming E n w = Some (SS_BufferError, w') \<Longrightarrow>
         is_open w' = is_open w \<and> (is_streaming w' \<longrightarrow> is_streaming w)"
    and stop_stops:
      "dev_stop_streaming E w = Some w' \<Longrightarrow> is_open w' = is_open w \<and> \<not> is_streaming w'"
    and dequeue_keeps:
      "dev_dequeue_frame E t fr w = Some (q, fr2, w') \<Longrightarrow>
         is_open w' = is_open w \<and> is_streaming w' = is_streaming w"
    and requeue_keeps:
      "dev_requeue_frame E i w = Some w' \<Longrightarrow>
         is_open w' = is_open w \<and> is_streaming w' = is_streaming w"
    and steady_keeps:
      "clk_steady_now E w = (t, w') \<Longrightarrow> is_open w' = is_open w \<and> is_streaming w' = is_streaming w"
    and wall_keeps:
      "clk_wall_now E w = (t, w') \<Longrightarrow> is_open w' = is_open w \<and> is_streaming w' = is_streaming w"
begin

lemmas device_laws =
  open_opened open_absent close_closes query_keeps start_started start_failed stop_stops
  dequeue_keeps requeue_keeps steady_keeps wall_keeps

lemma handle_frame_device:
  "handle_frame E f m w = Some (m', w') \<Longrightarrow>
     is_open w' = is_open w \<and> is_streaming w' = is_streaming w"
  by (erule handle_frameE) (auto dest: device_laws)

lemma begin_release_cycle_device:
  "begin_release_cycle E r m w = Some (m', w') \<Longrightarrow> \<not> is_open w' \<and> \<not> is_streaming w'"
  by (erule begin_release_cycleE) (auto dest!: device_laws)

lemma lose_device_device:
  "lose_device E m w = Some (m', w') \<Longrightarrow> \<not> is_open w' \<and> \<not> is_streaming w'"
  by (erule lose_deviceE) (auto dest!: device_laws)

lemma enter_configuring_device:
  assumes "enter_configuring E m w = Some (wait, m', w')" and "\<not> is_streaming w"
  shows "is_open w' = is_open w \<and> is_streaming w' = (m_state m' = CS_Streaming)
    \<and> (m_state m' = CS_Streaming \<or> m_state m' = CS_AwaitingProducer)"
  using assms(1)
proof (cases rule: enter_configuringE)
  case (failed w1 now b)
  with start_failed [OF failed(1)] steady_keeps [OF failed(2)] assms(2) show ?thesis by auto
next
  case (started w1 now)
  with start_started [OF started(1)] steady_keeps [OF started(2)] show ?thesis by simp
qed

text \<open>Every step keeps the discipline.\<close>

lemma trans_discipline:
  assumes t: "csm_trans E pt (m, w) (wait, m', w')" and wf: "machine_wf m"
    and d: "fd_discipline (is_open w) (is_streaming w) m"
  shows "fd_discipline (is_open w') (is_streaming w') m'"
  using t
proof (cases rule: csm_trans.cases)
  case (configure_failed now w1 fmt w2)
  have "is_open w2" "\<not> is_streaming w2"
    using d configure_failed(1,2) steady_keeps [OF configure_failed(3)] query_keeps [OF configure_failed(5)]
    by (simp_all add: fd_discipline_def)
  with enter_configuring_device [OF configure_failed(6)] enter_configuring_keeps(4) [OF configure_failed(6)]
    configure_failed(2,7) show ?thesis by (auto simp: fd_discipline_def)
next
  case (started now w1 fmt w2 m1)
  have "is_open w2" "\<not> is_streaming w2"
    using d started(2,3) steady_keeps [OF started(4)] query_keeps [OF started(6)]
    by (simp_all add: fd_discipline_def)
  with enter_configuring_device [OF started(7)] started(1,8) show ?thesis
    by (simp add: fd_discipline_def)
next
  case (reconnected now w1 fmt w2 m1)
  have "is_open w2" "\<not> is_streaming w2"
    using d reconnected(2,3) steady_keeps [OF reconnected(4)] query_keeps [OF reconnected(6)]
    by (simp_all add: fd_discipline_def)
  with enter_configuring_device [OF reconnected(7)] reconnected(1,8) show ?thesis
    by (simp add: fd_discipline_def)
next
  case (probe_configure_failed now w1 w2 fmt w3 w4)
  have "\<not> is_streaming w3"
    using d probe_configure_failed(1) steady_keeps [OF probe_configure_failed(3)]
      open_opened [OF probe_configure_failed(5)] query_keeps [OF probe_configure_failed(6)]
    by (simp add: fd_discipline_def)
  with enter_configuring_device [OF probe_configure_failed(7)] enter_configuring_keeps(4) [OF probe_configure_failed(7)]
    close_closes [OF probe_configure_failed(9)] probe_configure_failed(2,8)
  show ?thesis by (auto simp: fd_discipline_def)
next
  case (resumed now w1 w2 fmt w3 m1)
  have "is_open w3" "\<not> is_streaming w3"
    using d resumed(2) steady_keeps [OF resumed(4)] open_opened [OF resumed(6)] query_keeps [OF resumed(7)]
    by (simp_all add: fd_discipline_def)
  with enter_configuring_device [OF resumed(8)] resumed(1,9) show ?thesis
    by (simp add: fd_discipline_def)
next
  case (probe_lost now w1 w2)
  then show ?thesis
    using lose_device_device [OF probe_lost(7)] lose_device_wf(2) [OF probe_lost(7) wf]
    by (auto elim: lose_deviceE simp: fd_discipline_def)
next
  case (lost f w1)
  then show ?thesis
    using lose_device_device [OF lost(4)] by (auto elim: lose_deviceE simp: fd_discipline_def)
next
  case (frame_ok f w1 m1)
  note h = handle_frame_wf [OF frame_ok(4) wf]
  note r = check_arrival_rate_wf [OF frame_ok(5) h(1)]
  show ?thesis
    using d frame_ok(2) h r dequeue_keeps [OF frame_ok(3)] handle_frame_device [OF frame_ok(4)]
    by (simp add: fd_discipline_def)
next
  case (frame_mismatch f w1 m1 w2 m2)
  then show ?thesis
    using begin_release_cycle_device [OF frame_mismatch(8)]
    by (auto elim: begin_release_cycleE simp: fd_discipline_def)
next
  case (stalled f w1 now w2)
  then show ?thesis
    using begin_release_cycle_device [OF stalled(7)]
    by (auto elim: begin_release_cycleE simp: fd_discipline_def)
qed (use d wf in \<open>auto simp: fd_discipline_def machine_wf_def dest!: device_laws\<close>)

text \<open>
  Under the discipline no guard ever fires: the machine in the guarded environment and the
  machine in the plain one do the same.
\<close>

lemma enter_configuring_guarded:
  "is_open w \<Longrightarrow> \<not> is_streaming w \<Longrightarrow>
     enter_configuring (guarded is_open is_streaming E) m w = enter_configuring E m w"
  unfolding enter_configuring_def guarded_same by simp

lemma release_guarded:
  "begin_release_cycle (guarded is_open is_streaming E) = begin_release_cycle E"
  "lose_device (guarded is_open is_streaming E) = lose_device E"
  unfolding begin_release_cycle_def lose_device_def guarded_same fun_eq_iff by simp_all

lemma handle_frame_guarded:
  "is_open w \<Longrightarrow> is_streaming w \<Longrightarrow>
     handle_frame (guarded is_open is_streaming E) f m w = handle_frame E f m w"
  unfolding handle_frame_def guarded_same by simp

lemma step_guarded:
  assumes d: "fd_discipline (is_open w) (is_streaming w) m"
  shows "csm_step (guarded is_open is_streaming E) pt m w = csm_step E pt m w"
proof -
  let ?G = "guarded is_open is_streaming E"
  obtain now w1 where c: "clk_steady_now E w = (now, w1)" by fastforce
  note k = steady_keeps [OF c]
  show ?thesis
  proof (cases "m_state m")
    case CS_DeviceAbsent
    with d k c show ?thesis
      by (simp add: csm_step_def step_device_absent_def fd_discipline_def)
  next
    case CS_AwaitingProducer
    show ?thesis
    proof (cases "m_recovering m")
      case False
      with CS_AwaitingProducer d k have o: "is_open w1" "\<not> is_streaming w1"
        by (simp_all add: fd_discipline_def)
      have "enter_configuring ?G n w2 = enter_configuring E n w2"
        if "dev_query_format E f w1 = Some (r, fmt, w2)" for n f r fmt w2
        using query_keeps [OF that] o by (simp add: enter_configuring_guarded)
      with CS_AwaitingProducer False c o show ?thesis
        by (auto simp: csm_step_def step_awaiting_producer_def Let_def intro!: Option.bind_cong)
    next
      case True
      with CS_AwaitingProducer d k have o: "\<not> is_open w1" "\<not> is_streaming w1"
        by (simp_all add: fd_discipline_def)
      have q: "dev_query_format ?G f w2 = dev_query_format E f w2"
        if "dev_open E w1 = Some (OR_Opened, w2)" for f w2
        using open_opened [OF that] by (simp add:)
      have e: "enter_configuring ?G n w3 = enter_configuring E n w3"
        if "dev_open E w1 = Some (OR_Opened, w2)" "dev_query_format E f w2 = Some (r, fmt, w3)"
        for n f r fmt w2 w3
        using open_opened [OF that(1)] query_keeps [OF that(2)] o by (simp add: enter_configuring_guarded)
      from CS_AwaitingProducer True c o q e show ?thesis
        by (auto simp: csm_step_def step_recovering_def Let_def release_guarded intro!: Option.bind_cong)
    qed
  next
    case CS_Streaming
    with d have o: "is_open w" "is_streaming w" by (simp_all add: fd_discipline_def)
    have "handle_frame ?G f m w2 = handle_frame E f m w2"
      if "dev_dequeue_frame E pt frame_descriptor_default w = Some (q, f, w2)" for q f w2
      using dequeue_keeps [OF that] o by (simp add: handle_frame_guarded)
    with CS_Streaming o show ?thesis
      by (auto simp: csm_step_def step_streaming_def Let_def release_guarded
          intro!: Option.bind_cong split: dequeue_result.splits prod.splits)
  qed (use d in \<open>simp_all add: csm_step_def\<close>)
qed

text \<open>Whole runs: the discipline holds throughout, and the guards never matter.\<close>

lemma run_discipline:
  assumes "device_run E other cfg w0 m w" and start: "\<not> is_open w0" "\<not> is_streaming w0"
    and other: "\<And>w w'. other w w' \<Longrightarrow> is_open w' = is_open w \<and> is_streaming w' = is_streaming w"
  shows "fd_discipline (is_open w) (is_streaming w) m"
  using assms(1)
proof (induction rule: device_run.induct)
  case (dr_new m w)
  obtain t where "clk_steady_now E w0 = (t, w)"
    using csm_new_world [OF dr_new] by (cases "clk_steady_now E w0") auto
  with steady_keeps [OF this] start show ?case by (simp add: fd_discipline_def csm_new_fields [OF dr_new])
next
  case (dr_step m w pt wait m' w')
  show ?case
    by (rule trans_discipline [OF csm_step_trans [OF dr_step.hyps(2)] _ dr_step.IH])
      (rule csm_reach_wf [OF device_run_reach [OF dr_step.hyps(1)]])
next
  case (dr_other m w w')
  then show ?case using other [of w w'] by simp
qed

lemma run_guarded:
  assumes "device_run E other cfg w0 m w" and start: "\<not> is_open w0" "\<not> is_streaming w0"
    and other: "\<And>w w'. other w w' \<Longrightarrow> is_open w' = is_open w \<and> is_streaming w' = is_streaming w"
  shows "device_run (guarded is_open is_streaming E) other cfg w0 m w"
  using assms(1)
proof (induction rule: device_run.induct)
  case (dr_new m w)
  then show ?case by (auto intro: device_run.dr_new simp: csm_new_guarded)
next
  case (dr_step m w pt wait m' w')
  have "fd_discipline (is_open w) (is_streaming w) m"
    using dr_step.hyps(1) start other by (rule run_discipline)
  with dr_step show ?case by (auto intro: device_run.dr_step simp: step_guarded)
next
  case (dr_other m w w')
  then show ?case by (auto intro: device_run.dr_other)
qed

end

subsection \<open>Invariants of the world\<close>

text \<open>
  A property of the world that every method of the device keeps, whatever it answers, is
  kept by every step of the machine.
\<close>

locale env_invariant =
  fixes E :: "'w env"
    and I :: "'w \<Rightarrow> bool"
  assumes open_I: "I w \<Longrightarrow> dev_open E w = Some (r, w') \<Longrightarrow> I w'"
    and close_I: "I w \<Longrightarrow> dev_close E w = Some w' \<Longrightarrow> I w'"
    and query_I: "I w \<Longrightarrow> dev_query_format E fmt w = Some (fr, fmt2, w') \<Longrightarrow> I w'"
    and start_I: "I w \<Longrightarrow> dev_start_streaming E n w = Some (sr, w') \<Longrightarrow> I w'"
    and stop_I: "I w \<Longrightarrow> dev_stop_streaming E w = Some w' \<Longrightarrow> I w'"
    and dequeue_I: "I w \<Longrightarrow> dev_dequeue_frame E t fd w = Some (q, fd2, w') \<Longrightarrow> I w'"
    and requeue_I: "I w \<Longrightarrow> dev_requeue_frame E i w = Some w' \<Longrightarrow> I w'"
    and steady_I: "I w \<Longrightarrow> clk_steady_now E w = (t, w') \<Longrightarrow> I w'"
    and wall_I: "I w \<Longrightarrow> clk_wall_now E w = (t, w') \<Longrightarrow> I w'"
begin

lemmas env_I = open_I close_I query_I start_I stop_I dequeue_I requeue_I steady_I wall_I

lemma handle_frame_I: "handle_frame E f m w = Some (m', w') \<Longrightarrow> I w \<Longrightarrow> I w'"
  by (erule handle_frameE) (drule (1) requeue_I, drule (1) wall_I, assumption)

lemma begin_release_cycle_I: "begin_release_cycle E r m w = Some (m', w') \<Longrightarrow> I w \<Longrightarrow> I w'"
  by (erule begin_release_cycleE) (drule (1) stop_I, drule (1) close_I, drule (1) steady_I, assumption)

lemma lose_device_I: "lose_device E m w = Some (m', w') \<Longrightarrow> I w \<Longrightarrow> I w'"
  by (erule lose_deviceE) (drule (1) stop_I, drule (1) close_I, drule (1) steady_I, assumption)

lemma enter_configuring_I: "enter_configuring E m w = Some (wait, m', w') \<Longrightarrow> I w \<Longrightarrow> I w'"
  by (erule enter_configuringE; drule (1) start_I, drule (1) steady_I, assumption)

lemmas call_I = env_I handle_frame_I begin_release_cycle_I lose_device_I enter_configuring_I

lemma trans_I:
  assumes "csm_trans E pt (m, w) (wait, m', w')" and "I w"
  shows "I w'"
  using assms(1)
  by (cases rule: csm_trans.cases) (insert assms(2), (((drule (1) call_I)+, assumption) | assumption | simp)+)

lemma step_I: "csm_step E pt m w = Some (wait, m', w') \<Longrightarrow> I w \<Longrightarrow> I w'"
  by (rule trans_I [OF csm_step_trans])

lemma run_I:
  assumes "device_run E other cfg w0 m w" and "I w0" and other: "\<And>w w'. other w w' \<Longrightarrow> I w \<Longrightarrow> I w'"
  shows "I w"
  using assms(1)
proof (induction rule: device_run.induct)
  case (dr_new m w)
  obtain t where "clk_steady_now E w0 = (t, w)"
    using csm_new_world [OF dr_new] by (cases "clk_steady_now E w0") auto
  then show ?case by (rule steady_I [OF \<open>I w0\<close>])
qed (auto intro: step_I other)

end

subsection \<open>Buffers on loan\<close>

text \<open>
  The contract about the driver's buffers: a dequeued frame lends its buffer, a requeue
  gives it back. A machine that starts a step with no buffer on loan ends it with none.
\<close>

locale buffer_device =
  fixes E :: "'w env"
    and pinned :: "'w \<Rightarrow> u32 set"
  assumes dequeue_pins:
      "dev_dequeue_frame E t fr w = Some (DQ_Frame, fr2, w') \<Longrightarrow>
         pinned w' \<subseteq> insert (fd_buffer_index fr2) (pinned w)"
    and dequeue_other_pins:
      "dev_dequeue_frame E t fr w = Some (q, fr2, w') \<Longrightarrow> q \<noteq> DQ_Frame \<Longrightarrow> pinned w' \<subseteq> pinned w"
    and requeue_unpins:
      "dev_requeue_frame E i w = Some w' \<Longrightarrow> pinned w' \<subseteq> pinned w - {i}"
    and open_pins: "dev_open E w = Some (r, w') \<Longrightarrow> pinned w' \<subseteq> pinned w"
    and close_pins: "dev_close E w = Some w' \<Longrightarrow> pinned w' \<subseteq> pinned w"
    and query_pins: "dev_query_format E fmt w = Some (qr, fmt2, w') \<Longrightarrow> pinned w' \<subseteq> pinned w"
    and start_pins: "dev_start_streaming E n w = Some (sr, w') \<Longrightarrow> pinned w' \<subseteq> pinned w"
    and stop_pins: "dev_stop_streaming E w = Some w' \<Longrightarrow> pinned w' \<subseteq> pinned w"
    and steady_pins: "clk_steady_now E w = (t, w') \<Longrightarrow> pinned w' \<subseteq> pinned w"
    and wall_pins: "clk_wall_now E w = (t, w') \<Longrightarrow> pinned w' \<subseteq> pinned w"
begin

lemma free_kept:
  "pinned w = {} \<Longrightarrow> dev_open E w = Some (r, w') \<Longrightarrow> pinned w' = {}"
  "pinned w = {} \<Longrightarrow> dev_close E w = Some w' \<Longrightarrow> pinned w' = {}"
  "pinned w = {} \<Longrightarrow> dev_query_format E fmt w = Some (qr, fmt2, w') \<Longrightarrow> pinned w' = {}"
  "pinned w = {} \<Longrightarrow> dev_start_streaming E n w = Some (sr, w') \<Longrightarrow> pinned w' = {}"
  "pinned w = {} \<Longrightarrow> dev_stop_streaming E w = Some w' \<Longrightarrow> pinned w' = {}"
  "pinned w = {} \<Longrightarrow> clk_steady_now E w = (t, w') \<Longrightarrow> pinned w' = {}"
  "pinned w = {} \<Longrightarrow> clk_wall_now E w = (t, w') \<Longrightarrow> pinned w' = {}"
  "pinned w = {} \<Longrightarrow> dev_dequeue_frame E pt f0 w = Some (DQ_Timeout, f1, w') \<Longrightarrow> pinned w' = {}"
  "pinned w = {} \<Longrightarrow> dev_dequeue_frame E pt f0 w = Some (DQ_Error, f1, w') \<Longrightarrow> pinned w' = {}"
  "pinned w = {} \<Longrightarrow> dev_dequeue_frame E pt f0 w = Some (DQ_DeviceLost, f1, w') \<Longrightarrow> pinned w' = {}"
  by (drule open_pins close_pins query_pins start_pins stop_pins steady_pins wall_pins dequeue_other_pins; simp)+

lemma handle_frame_frees:
  assumes "handle_frame E f m w1 = Some (m', w')"
    and "pinned w = {}" and "dev_dequeue_frame E pt f0 w = Some (DQ_Frame, f, w1)"
  shows "pinned w' = {}"
  using assms(1)
proof (rule handle_frameE)
  fix w2 wall
  assume r: "dev_requeue_frame E (fd_buffer_index f) w1 = Some w2" and c: "clk_wall_now E w2 = (wall, w')"
  have "pinned w2 = {}"
    using requeue_unpins [OF r] dequeue_pins [OF assms(3)] assms(2) by auto
  then show ?thesis using wall_pins [OF c] by simp
qed

lemma begin_release_cycle_frees: "begin_release_cycle E r m w = Some (m', w') \<Longrightarrow> pinned w = {} \<Longrightarrow> pinned w' = {}"
  by (erule begin_release_cycleE) (drule (1) free_kept(5), drule (1) free_kept(2), drule (1) free_kept(6), assumption)

lemma lose_device_frees: "lose_device E m w = Some (m', w') \<Longrightarrow> pinned w = {} \<Longrightarrow> pinned w' = {}"
  by (erule lose_deviceE) (drule (1) free_kept(5), drule (1) free_kept(2), drule (1) free_kept(6), assumption)

lemma enter_configuring_frees: "enter_configuring E m w = Some (wait, m', w') \<Longrightarrow> pinned w = {} \<Longrightarrow> pinned w' = {}"
  by (erule enter_configuringE; drule (1) free_kept(4), drule (1) free_kept(6), assumption)

lemmas call_frees = free_kept begin_release_cycle_frees lose_device_frees enter_configuring_frees

lemma trans_frees:
  assumes "csm_trans E pt (m, w) (wait, m', w')" and "pinned w = {}"
  shows "pinned w' = {}"
  using assms(1)
proof (cases rule: csm_trans.cases)
  case (frame_ok f w1 m1)
  show ?thesis by (rule handle_frame_frees [OF frame_ok(4) assms(2) frame_ok(3)])
next
  case (frame_mismatch f w1 m1 w2 m2)
  show ?thesis
    by (rule begin_release_cycle_frees [OF frame_mismatch(8)])
      (rule handle_frame_frees [OF frame_mismatch(4) assms(2) frame_mismatch(3)])
qed (insert assms(2), (((drule (1) call_frees)+, assumption) | assumption | simp)+)

lemma step_frees:
  assumes "csm_step E pt m w = Some (wait, m', w')" and "pinned w = {}"
  shows "pinned w' = {}"
  using trans_frees [OF csm_step_trans [OF assms(1)]] assms(2) by simp

lemma run_frees:
  assumes "device_run E other cfg w0 m w" and "pinned w0 = {}"
    and other: "\<And>w w'. other w w' \<Longrightarrow> pinned w = {} \<Longrightarrow> pinned w' = {}"
  shows "pinned w = {}"
  using assms(1)
proof (induction rule: device_run.induct)
  case (dr_new m w)
  obtain t where "clk_steady_now E w0 = (t, w)"
    using csm_new_world [OF dr_new] by (cases "clk_steady_now E w0") auto
  then show ?case by (rule free_kept(6) [OF assms(2)])
next
  case (dr_step m w pt wait m' w')
  show ?case by (rule step_frees [OF dr_step.hyps(2) dr_step.IH])
next
  case (dr_other m w w')
  show ?case by (rule other [OF dr_other.hyps(2) dr_other.IH])
qed

end

text \<open>
  Every device becomes one that honours this contract when its world also records which
  buffers are out: \<open>counted\<close> changes nothing else.
\<close>

definition keep_count :: "('w \<Rightarrow> ('a \<times> 'w) option) \<Rightarrow> 'w \<times> 'c \<Rightarrow> ('a \<times> 'w \<times> 'c) option" where
  "keep_count op w = (case op (fst w) of None \<Rightarrow> None | Some (r, w') \<Rightarrow> Some (r, w', snd w))"

definition counted :: "'w env \<Rightarrow> ('w \<times> u32 set) env" where
  "counted E =
     \<lparr>dev_open = keep_count (dev_open E),
      dev_close = (\<lambda>w. map_option (\<lambda>w'. (w', snd w)) (dev_close E (fst w))),
      dev_query_format = (\<lambda>f w.
        case dev_query_format E f (fst w) of
          None \<Rightarrow> None | Some (r, g, w') \<Rightarrow> Some (r, g, w', snd w)),
      dev_start_streaming = (\<lambda>n. keep_count (dev_start_streaming E n)),
      dev_stop_streaming = (\<lambda>w. map_option (\<lambda>w'. (w', snd w)) (dev_stop_streaming E (fst w))),
      dev_dequeue_frame = (\<lambda>t f w.
        case dev_dequeue_frame E t f (fst w) of
          None \<Rightarrow> None
        | Some (q, g, w') \<Rightarrow>
            Some (q, g, w', if q = DQ_Frame then insert (fd_buffer_index g) (snd w) else snd w)),
      dev_requeue_frame = (\<lambda>i w. map_option (\<lambda>w'. (w', snd w - {i})) (dev_requeue_frame E i (fst w))),
      clk_steady_now = (\<lambda>w. case clk_steady_now E (fst w) of (t, w') \<Rightarrow> (t, w', snd w)),
      clk_wall_now = (\<lambda>w. case clk_wall_now E (fst w) of (t, w') \<Rightarrow> (t, w', snd w))\<rparr>"

interpretation loans: buffer_device "counted E" snd for E :: "'w env"
  by unfold_locales (auto simp: counted_def keep_count_def split: option.splits prod.splits)

text \<open>Any device in a world with something beside it that it does not touch.\<close>

definition lifted_env :: "'w env \<Rightarrow> ('w \<times> 'c) env" where
  "lifted_env E =
     \<lparr>dev_open = keep_count (dev_open E),
      dev_close = (\<lambda>w. map_option (\<lambda>w'. (w', snd w)) (dev_close E (fst w))),
      dev_query_format = (\<lambda>f w.
        map_option (\<lambda>(r, g, w'). (r, g, w', snd w)) (dev_query_format E f (fst w))),
      dev_start_streaming = (\<lambda>n. keep_count (dev_start_streaming E n)),
      dev_stop_streaming = (\<lambda>w. map_option (\<lambda>w'. (w', snd w)) (dev_stop_streaming E (fst w))),
      dev_dequeue_frame = (\<lambda>t f w.
        map_option (\<lambda>(q, g, w'). (q, g, w', snd w)) (dev_dequeue_frame E t f (fst w))),
      dev_requeue_frame = (\<lambda>i w. map_option (\<lambda>w'. (w', snd w)) (dev_requeue_frame E i (fst w))),
      clk_steady_now = (\<lambda>w. case clk_steady_now E (fst w) of (t, w') \<Rightarrow> (t, w', snd w)),
      clk_wall_now = (\<lambda>w. case clk_wall_now E (fst w) of (t, w') \<Rightarrow> (t, w', snd w))\<rparr>"

interpretation beside: env_invariant "lifted_env E" "\<lambda>w. snd w = c" for E :: "'w env" and c :: 'c
  by unfold_locales (auto simp: lifted_env_def keep_count_def split: option.splits prod.splits)

end
