(* ===== verification/Fake_Device.thy ===== *)
theory Fake_Device
  imports Capture_Device
begin

text \<open>
  \<^verbatim>\<open>tests/support\<close>: \<open>FakeCaptureDevice\<close>, \<open>FakeClock\<close> and the recording
  event sink (the sink is the machine's own list of events). The scripted device of the
  repository's tests is the concrete world in which the theorems are applied. It is shown
  to honour the interfaces that the theorems about all devices rest on.
\<close>

record fake_clock =
  fc_steady :: ns
  fc_wall :: ns

record fake_device =
  fk_open_result :: open_result
  fk_format_result :: format_result
  fk_format :: stream_format
  fk_observed_format_result :: format_result
  fk_observed_format :: stream_format
  fk_start_result :: stream_start_result
  fk_default_dequeue_result :: dequeue_result
  fk_dequeue_queue :: "(dequeue_result \<times> frame_descriptor) list"
  fk_outstanding :: "u32 set"
  fk_is_open :: bool
  fk_is_streaming :: bool
  fk_buffer_count :: u32
  fk_open_call_count :: int
  fk_close_call_count :: int
  fk_requeue_call_count :: int
  fk_clock :: fake_clock

definition fake_new :: fake_device where
  "fake_new =
     \<lparr>fk_open_result = OR_Absent, fk_format_result = FR_NoProducer,
      fk_format = stream_format_default,
      fk_observed_format_result = FR_NoProducer, fk_observed_format = stream_format_default,
      fk_start_result = SS_Started, fk_default_dequeue_result = DQ_Timeout,
      fk_dequeue_queue = [], fk_outstanding = {}, fk_is_open = False, fk_is_streaming = False,
      fk_buffer_count = 0, fk_open_call_count = 0, fk_close_call_count = 0,
      fk_requeue_call_count = 0, fk_clock = \<lparr>fc_steady = 0, fc_wall = 0\<rparr>\<rparr>"

definition fake_advance :: "ms \<Rightarrow> fake_device \<Rightarrow> fake_device" where
  "fake_advance delta d =
     d\<lparr>fk_clock := \<lparr>fc_steady = fc_steady (fk_clock d) + delta * ns_per_ms,
                    fc_wall = fc_wall (fk_clock d) + delta * ns_per_ms\<rparr>\<rparr>"

definition fake_queue_frame :: "frame_descriptor \<Rightarrow> fake_device \<Rightarrow> fake_device" where
  "fake_queue_frame frame d = d\<lparr>fk_dequeue_queue := fk_dequeue_queue d @ [(DQ_Frame, frame)]\<rparr>"

definition fake_queue_dequeue_result :: "dequeue_result \<Rightarrow> fake_device \<Rightarrow> fake_device" where
  "fake_queue_dequeue_result r d =
     d\<lparr>fk_dequeue_queue := fk_dequeue_queue d @ [(r, frame_descriptor_default)]\<rparr>"

definition fake_open :: "fake_device \<Rightarrow> (open_result \<times> fake_device) option" where
  "fake_open d =
     (let d = d\<lparr>fk_open_call_count := fk_open_call_count d + 1,
                fk_is_open := (fk_open_result d = OR_Opened)\<rparr>;
          d = (if fk_is_open d
               then d\<lparr>fk_observed_format_result := fk_format_result d,
                      fk_observed_format := fk_format d\<rparr>
               else d)
      in Some (fk_open_result d, d))"

definition fake_close :: "fake_device \<Rightarrow> fake_device option" where
  "fake_close d =
     Some (d\<lparr>fk_is_open := False, fk_is_streaming := False,
             fk_close_call_count := fk_close_call_count d + 1\<rparr>)"

definition fake_query_format ::
  "stream_format \<Rightarrow> fake_device \<Rightarrow> (format_result \<times> stream_format \<times> fake_device) option" where
  "fake_query_format out d =
     (let out = (if fk_observed_format_result d = FR_Known then fk_observed_format d else out)
      in Some (fk_observed_format_result d, out, d))"

definition fake_start_streaming ::
  "u32 \<Rightarrow> fake_device \<Rightarrow> (stream_start_result \<times> fake_device) option" where
  "fake_start_streaming buffer_count d =
     (let d = d\<lparr>fk_buffer_count := buffer_count,
                fk_is_streaming := (fk_start_result d = SS_Started)\<rparr>
      in Some (fk_start_result d, d))"

definition fake_stop_streaming :: "fake_device \<Rightarrow> fake_device option" where
  "fake_stop_streaming d = Some (d\<lparr>fk_is_streaming := False\<rparr>)"

definition fake_dequeue_frame ::
  "ms \<Rightarrow> frame_descriptor \<Rightarrow> fake_device \<Rightarrow>
     (dequeue_result \<times> frame_descriptor \<times> fake_device) option" where
  "fake_dequeue_frame timeout out d =
     (case fk_dequeue_queue d of
        [] \<Rightarrow> Some (fk_default_dequeue_result d, out, d)
      | (result, frame) # rest \<Rightarrow>
          let d = d\<lparr>fk_dequeue_queue := rest\<rparr>
          in if result = DQ_Frame
             then let frame = frame\<lparr>fd_captured_at := fc_steady (fk_clock d)\<rparr>
                  in Some (result, frame,
                       d\<lparr>fk_outstanding := insert (fd_buffer_index frame) (fk_outstanding d)\<rparr>)
             else Some (result, out, d))"

definition fake_requeue_frame :: "u32 \<Rightarrow> fake_device \<Rightarrow> fake_device option" where
  "fake_requeue_frame buffer_index d =
     Some (d\<lparr>fk_requeue_call_count := fk_requeue_call_count d + 1,
             fk_outstanding := fk_outstanding d - {buffer_index}\<rparr>)"

definition fake_env :: "fake_device env" where
  "fake_env =
     \<lparr>dev_open = fake_open, dev_close = fake_close, dev_query_format = fake_query_format,
      dev_start_streaming = fake_start_streaming, dev_stop_streaming = fake_stop_streaming,
      dev_dequeue_frame = fake_dequeue_frame, dev_requeue_frame = fake_requeue_frame,
      clk_steady_now = (\<lambda>d. (fc_steady (fk_clock d), d)),
      clk_wall_now = (\<lambda>d. (fc_wall (fk_clock d), d))\<rparr>"

lemmas fake_defs =
  fake_env_def fake_open_def fake_close_def fake_query_format_def fake_start_streaming_def
  fake_stop_streaming_def fake_dequeue_frame_def fake_requeue_frame_def

interpretation fake: capture_device fake_env fk_is_open fk_is_streaming
  by unfold_locales (auto simp: fake_defs Let_def split: list.splits if_splits prod.splits)

interpretation fake: buffer_device fake_env fk_outstanding
  by unfold_locales (auto simp: fake_defs Let_def split: list.splits if_splits prod.splits)

subsection \<open>Running a scenario\<close>

text \<open>
  A test script: before each step the harness may touch the fake device, then the machine
  takes a step.
\<close>

fun scenario ::
  "(fake_device \<Rightarrow> fake_device) list \<Rightarrow> csm \<times> fake_device \<Rightarrow> (csm \<times> fake_device) option" where
  "scenario [] s = Some s"
| "scenario (f # fs) (m, d) =
     (case csm_step fake_env 100 m (f d) of
        None \<Rightarrow> None
      | Some (wait, m, d) \<Rightarrow> scenario fs (m, d))"

lemma scenario_run:
  assumes "scenario fs (m, d) = Some (m', d')"
    and "device_run fake_env (\<lambda>d d'. \<exists>f \<in> set hs. d' = f d) cfg w0 m d" and "set fs \<subseteq> set hs"
  shows "device_run fake_env (\<lambda>d d'. \<exists>f \<in> set hs. d' = f d) cfg w0 m' d'"
  using assms
proof (induction fs arbitrary: m d)
  case Nil
  then show ?case by simp
next
  case (Cons f fs)
  then obtain wait m1 d1 where s: "csm_step fake_env 100 m (f d) = Some (wait, m1, d1)"
    and rest: "scenario fs (m1, d1) = Some (m', d')" by (auto split: option.splits prod.splits)
  have "device_run fake_env (\<lambda>d d'. \<exists>f \<in> set hs. d' = f d) cfg w0 m (f d)"
    using Cons.prems(2,3) by (auto intro: dr_other)
  then have "device_run fake_env (\<lambda>d d'. \<exists>f \<in> set hs. d' = f d) cfg w0 m1 d1"
    by (rule dr_step) (rule s)
  with Cons rest show ?case by auto
qed

end
