(* ===== verification/Capture_Timing.thy ===== *)
theory Capture_Timing
  imports Capture_Lifecycle
begin

text \<open>
  The timing rules of the state machine: what stays fixed after construction, the waits it
  recommends, the accuracy of the thresholds it computes in floating point, the placement
  of frame intervals in the histogram, and the counting of arrival rate anomalies.
\<close>

subsection \<open>The settings and the backoffs\<close>

definition settings_ok :: "daemon_config \<Rightarrow> csm \<Rightarrow> bool" where
  "settings_ok cfg m \<longleftrightarrow>
     m_config m = cfg \<and> m_stall_threshold m = stall_threshold_of cfg \<and>
     backoff_ok (dc_reconnect_initial_backoff cfg) (dc_reconnect_max_backoff cfg)
       (m_device_absent_backoff m) \<and>
     backoff_ok (dc_reconnect_initial_backoff cfg) (dc_awaiting_producer_max_backoff cfg)
       (m_awaiting_producer_backoff m)"

definition config_nonneg :: "daemon_config \<Rightarrow> bool" where
  "config_nonneg cfg \<longleftrightarrow>
     0 \<le> dc_reconnect_initial_backoff cfg \<and> 0 \<le> dc_reconnect_max_backoff cfg \<and>
     0 \<le> dc_awaiting_producer_max_backoff cfg"

definition max_backoff :: "daemon_config \<Rightarrow> ms" where
  "max_backoff cfg =
     max (dc_reconnect_initial_backoff cfg)
       (max (dc_reconnect_max_backoff cfg) (dc_awaiting_producer_max_backoff cfg))"

lemma max_backoff_nonneg: "config_nonneg cfg \<Longrightarrow> 0 \<le> max_backoff cfg"
  by (auto simp: config_nonneg_def max_backoff_def le_max_iff_disj)

text \<open>The next delay of either backoff, and what is left of the backoff.\<close>

lemma absent_next:
  assumes "settings_ok cfg m" and "config_nonneg cfg" and "backoff_next (m_device_absent_backoff m) = (d, b)"
  shows "0 \<le> d \<and> d \<le> max_backoff cfg \<and>
    backoff_ok (dc_reconnect_initial_backoff cfg) (dc_reconnect_max_backoff cfg) b"
  using backoff_next_ok [OF _ _ assms(3)] assms(1,2)
  by (fastforce simp: settings_ok_def config_nonneg_def max_backoff_def le_max_iff_disj)

lemma awaiting_next:
  assumes "settings_ok cfg m" and "config_nonneg cfg" and "backoff_next (m_awaiting_producer_backoff m) = (d, b)"
  shows "0 \<le> d \<and> d \<le> max_backoff cfg \<and>
    backoff_ok (dc_reconnect_initial_backoff cfg) (dc_awaiting_producer_max_backoff cfg) b"
  using backoff_next_ok [OF _ _ assms(3)] assms(1,2)
  by (fastforce simp: settings_ok_def config_nonneg_def max_backoff_def le_max_iff_disj)

lemma handle_frame_settings:
  "handle_frame E f m w = Some (m', w') \<Longrightarrow> settings_ok cfg m \<Longrightarrow> settings_ok cfg m'"
  by (erule handle_frameE) (simp add: settings_ok_def)

lemma check_arrival_rate_settings:
  "check_arrival_rate now m = Some m' \<Longrightarrow> settings_ok cfg m \<Longrightarrow> settings_ok cfg m'"
  by (erule check_arrival_rateE) (simp_all add: settings_ok_def)

lemma begin_release_cycle_settings:
  "begin_release_cycle E r m w = Some (m', w') \<Longrightarrow> settings_ok cfg m \<Longrightarrow> config_nonneg cfg \<Longrightarrow>
     settings_ok cfg m'"
  by (erule begin_release_cycleE) (simp add: settings_ok_def config_nonneg_def backoff_reset_ok)

lemma lose_device_settings:
  "lose_device E m w = Some (m', w') \<Longrightarrow> settings_ok cfg m \<Longrightarrow> config_nonneg cfg \<Longrightarrow>
     settings_ok cfg m'"
  by (erule lose_deviceE) (simp add: settings_ok_def config_nonneg_def backoff_reset_ok)

lemma enter_configuring_settings:
  assumes "enter_configuring E m w = Some (wait, m', w')" and "settings_ok cfg m" and "config_nonneg cfg"
  shows "settings_ok cfg m' \<and> 0 \<le> wait \<and> wait \<le> max_backoff cfg"
  using assms(1)
proof (cases rule: enter_configuringE)
  case (failed w1 now b)
  with awaiting_next [OF assms(2,3) failed(3)] assms(2) show ?thesis
    by (simp add: settings_ok_def)
next
  case (started w1 now)
  with assms(2,3) max_backoff_nonneg [OF assms(3)] show ?thesis
    by (simp add: settings_ok_def config_nonneg_def backoff_reset_ok)
qed

text \<open>
  One step: the settings stay, the wait is never negative, and it is bounded by the largest
  backoff unless the machine is still inside a wait it was told of before.
\<close>

lemma csm_trans_settings:
  assumes "csm_trans E pt (m, w) (wait, m', w')" and s: "settings_ok cfg m" and c: "config_nonneg cfg"
  shows "settings_ok cfg m' \<and> 0 \<le> wait \<and>
    (wait \<le> max_backoff cfg \<or> fst (clk_steady_now E w) < m_next_attempt_at m)"
proof -
  note c' = max_backoff_nonneg [OF c]
  have s': "settings_ok cfg (m\<lparr>m_current_format := f\<rparr>)" for f
    using s by (simp add: settings_ok_def)
  show ?thesis
    using assms(1)
  proof (cases rule: csm_trans.cases)
    case (waiting now)
    then show ?thesis using s by (simp add: ms_of_ns_nonneg)
  next
    case (absent now w1 b)
    with absent_next [OF s c absent(6)] s show ?thesis by (simp add: settings_ok_def)
  next
    case (no_format now w1 r fmt b)
    with awaiting_next [OF s c no_format(8)] s show ?thesis by (simp add: settings_ok_def)
  next
    case (probe_no_format now w1 w2 r fmt w3 b)
    with awaiting_next [OF s c probe_no_format(10)] s show ?thesis by (simp add: settings_ok_def)
  next
    case (configure_failed now w1 fmt w2)
    with enter_configuring_settings [OF configure_failed(6) s' c] show ?thesis by simp
  next
    case (started now w1 fmt w2 m1)
    with enter_configuring_settings [OF started(7) s' c] show ?thesis by (simp add: settings_ok_def)
  next
    case (reconnected now w1 fmt w2 m1)
    with enter_configuring_settings [OF reconnected(7) s' c] show ?thesis by (simp add: settings_ok_def)
  next
    case (probe_configure_failed now w1 w2 fmt w3 w4)
    with enter_configuring_settings [OF probe_configure_failed(7) s' c] show ?thesis by simp
  next
    case (resumed now w1 w2 fmt w3 m1)
    with enter_configuring_settings [OF resumed(8) s' c] show ?thesis by (simp add: settings_ok_def)
  next
    case (probe_lost now w1 w2)
    with lose_device_settings [OF probe_lost(7) s c] c' show ?thesis by simp
  next
    case (frame_ok f w1 m1)
    with check_arrival_rate_settings [OF frame_ok(5) handle_frame_settings [OF frame_ok(4) s]] c'
    show ?thesis by simp
  next
    case (frame_mismatch f w1 m1 w2 m2)
    note r = check_arrival_rate_settings [OF frame_mismatch(5) handle_frame_settings [OF frame_mismatch(4) s]]
    with begin_release_cycle_settings [OF frame_mismatch(8) r c] frame_mismatch c' show ?thesis by simp
  next
    case (stalled f w1 now w2)
    with begin_release_cycle_settings [OF stalled(7) s c] c' show ?thesis by simp
  next
    case (lost f w1)
    with lose_device_settings [OF lost(4) s c] c' show ?thesis by simp
  qed (use s c c' in \<open>simp_all add: settings_ok_def config_nonneg_def backoff_reset_ok\<close>)
qed

lemma csm_reach_settings: "csm_reach E cfg m \<Longrightarrow> config_nonneg cfg \<Longrightarrow> settings_ok cfg m"
proof (induction rule: csm_reach.induct)
  case (reach_new w m w')
  then show ?case by (simp add: settings_ok_def csm_new_fields config_nonneg_def backoff_new_ok)
next
  case (reach_step m pt w wait m' w')
  from csm_trans_settings [OF csm_step_trans [OF reach_step.hyps(2)] reach_step.IH [OF reach_step.prems]
      reach_step.prems] show ?case by blast
qed

subsection \<open>The stall threshold\<close>

text \<open>Three roundings away from the exact quotient: less than one unit for these magnitudes.\<close>

lemma rnd_rel_bounds: "0 \<le> x \<Longrightarrow> x * (1 - 1 / 2 ^ 53) \<le> rnd x \<and> rnd x \<le> x * (1 + 1 / 2 ^ 53)"
  using rnd_err [of x] unfolding right_diff_distrib distrib_left abs_le_iff by simp

lemma three_roundings:
  fixes q n :: rat
  assumes q: "0 \<le> q" and n: "0 \<le> n" and small: "q * n * 1000 \<le> 2 ^ 43"
  shows "\<bar>rnd (rnd (rnd q * n) * 1000) - q * n * 1000\<bar> < 1"
proof -
  define l where "l = (1 - 1 / 2 ^ 53 :: rat)"
  define u where "u = (1 + 1 / 2 ^ 53 :: rat)"
  have lu: "0 \<le> l" "0 \<le> u" by (simp_all add: l_def u_def)
  define x1 where "x1 = rnd q"
  define x2 where "x2 = rnd (x1 * n)"
  have x1: "q * l \<le> x1" "x1 \<le> q * u" "0 \<le> x1"
    using rnd_rel_bounds [OF q] q by (simp_all add: x1_def l_def u_def)
  have x2: "x1 * n * l \<le> x2" "x2 \<le> x1 * n * u" "0 \<le> x2"
    using rnd_rel_bounds [of "x1 * n"] x1(3) n by (simp_all add: x2_def l_def u_def)
  have x3: "x2 * 1000 * l \<le> rnd (x2 * 1000)" "rnd (x2 * 1000) \<le> x2 * 1000 * u"
    using rnd_rel_bounds [of "x2 * 1000"] x2(3) by (simp_all add: l_def u_def)
  have "q * n * 1000 * (l * l * l) = q * l * n * l * 1000 * l" by simp
  also have "\<dots> \<le> x1 * n * l * 1000 * l" using x1(1) n lu by (intro mult_right_mono) simp_all
  also have "\<dots> \<le> x2 * 1000 * l" using x2(1) lu by (intro mult_right_mono) simp_all
  finally have lo: "q * n * 1000 * (l * l * l) \<le> rnd (x2 * 1000)" using x3(1) by linarith
  have "x2 * 1000 * u \<le> x1 * n * u * 1000 * u" using x2(2) lu by (intro mult_right_mono) simp_all
  also have "\<dots> \<le> q * u * n * u * 1000 * u" using x1(2) n lu by (intro mult_right_mono) simp_all
  also have "\<dots> = q * n * 1000 * (u * u * u)" by simp
  finally have hi: "rnd (x2 * 1000) \<le> q * n * 1000 * (u * u * u)" using x3(2) by linarith
  define Q where "Q = q * n * 1000"
  have Q: "0 \<le> Q" "Q \<le> 2 ^ 43" using q n small by (simp_all add: Q_def)
  have "1 - 1 / 2 ^ 51 \<le> l * l * l" "u * u * u \<le> 1 + 1 / 2 ^ 51" by (simp_all add: l_def u_def)
  then have "Q * (1 - 1 / 2 ^ 51) \<le> Q * (l * l * l)" "Q * (u * u * u) \<le> Q * (1 + 1 / 2 ^ 51)"
    using Q(1) by (auto intro: mult_left_mono simp only:)
  with lo hi have "Q * (1 - 1 / 2 ^ 51) \<le> rnd (x2 * 1000)" "rnd (x2 * 1000) \<le> Q * (1 + 1 / 2 ^ 51)"
    unfolding Q_def by linarith+
  then have "\<bar>rnd (x2 * 1000) - Q\<bar> < 1" using Q by (simp add: abs_less_iff algebra_simps)
  then show ?thesis by (simp add: x1_def x2_def Q_def)
qed

lemma floor_close:
  fixes x y :: rat
  assumes "\<bar>x - y\<bar> < 1"
  shows "\<bar>\<lfloor>x\<rfloor> - \<lfloor>y\<rfloor>\<bar> \<le> 1"
  using assms by linarith

lemma uint_u32_bounds: "0 \<le> uint (w :: u32)" "uint (w :: u32) \<le> 4294967295"
  using unsigned_less [of w] uint_lt2p [of w] by simp_all

lemma uint_pos_of_ne_0:
  assumes "w \<noteq> 0"
  shows "1 \<le> uint (w :: u32)"
proof -
  have "uint w \<noteq> 0" using assms by (simp add: unsigned_eq_0_iff)
  with uint_u32_bounds(1) [of w] show ?thesis by linarith
qed

definition exact_stall_ms :: "daemon_config \<Rightarrow> ms" where
  \<comment> \<open>the threshold in exact arithmetic, in whole milliseconds\<close>
  "exact_stall_ms cfg =
     (if dc_expected_fps cfg = 0 then 1000 * uint (dc_stall_multiple cfg)
      else 1000 * uint (dc_stall_multiple cfg) div uint (dc_expected_fps cfg))"

lemma stall_threshold_close: "\<bar>stall_threshold_of cfg - exact_stall_ms cfg\<bar> \<le> 1"
proof -
  define f where "f = uint (dc_expected_fps cfg)"
  define n where "n = uint (dc_stall_multiple cfg)"
  define q :: rat where "q = (if f = 0 then 1 else 1 / of_int f)"
  have f: "0 \<le> f" and n: "0 \<le> n" "n \<le> 4294967295"
    by (simp_all add: f_def n_def uint_u32_bounds)
  have q: "0 \<le> q" "q \<le> 1" using f by (auto simp: q_def)
  have f0: "(dc_expected_fps cfg = 0) = (f = 0)" by (simp add: f_def unsigned_eq_0_iff)
  have iv: "expected_interval_seconds cfg = rnd q"
    using f0 by (auto simp: expected_interval_seconds_def q_def double_of_u32 f_def word_neq_0_conv)
  have le: "q * of_int n * 1000 \<le> 2 ^ 43"
  proof -
    have "q * of_int n \<le> 1 * of_int n" using q n by (intro mult_right_mono) simp_all
    also have "(of_int n :: rat) \<le> of_int 4294967295" using n by (simp only: of_int_le_iff)
    finally show ?thesis by simp
  qed
  define x where "x = rnd (rnd (rnd q * of_int n) * 1000)"
  have close: "\<bar>x - q * of_int n * 1000\<bar> < 1"
    unfolding x_def using q n le by (intro three_roundings) simp_all
  have "0 \<le> x" using q n by (simp add: x_def)
  then have thr: "stall_threshold_of cfg = \<lfloor>x\<rfloor>"
    by (simp add: stall_threshold_of_def int_of_double_def iv double_of_u32 x_def n_def)
  have "q * of_int n * 1000 = (if f = 0 then of_int (1000 * n) else of_int (1000 * n) / of_int f)"
    by (simp add: q_def)
  then have "\<lfloor>q * of_int n * 1000\<rfloor> = exact_stall_ms cfg"
    unfolding exact_stall_ms_def f0 f_def [symmetric] n_def [symmetric]
    by (cases "f = 0") (simp_all only: refl if_True if_False floor_divide_of_int_eq floor_of_int)
  with floor_close [OF close] show ?thesis by (simp add: thr)
qed

lemma stall_threshold_bounds:
  "0 \<le> stall_threshold_of cfg \<and> stall_threshold_of cfg \<le> 4294967295001"
proof -
  have "exact_stall_ms cfg \<le> 1000 * uint (dc_stall_multiple cfg)"
    using zdiv_mono2 [of "1000 * uint (dc_stall_multiple cfg)" 1 "uint (dc_expected_fps cfg)"]
    by (simp add: exact_stall_ms_def uint_pos_of_ne_0)
  moreover have "0 \<le> stall_threshold_of cfg"
  proof -
    have "0 \<le> expected_interval_seconds cfg" by (simp add: expected_interval_seconds_def)
    then show ?thesis by (simp add: stall_threshold_of_def int_of_double_def)
  qed
  ultimately show ?thesis
    using stall_threshold_close [of cfg] uint_u32_bounds [of "dc_stall_multiple cfg"] by linarith
qed

subsection \<open>Frame intervals land in the bucket their exact length belongs to\<close>

text \<open>The bounds of the table in whole nanoseconds.\<close>

definition bucket_bounds_ns :: "ns list" where
  "bucket_bounds_ns =
     [5000000, 10000000, 20000000, 33000000, 50000000, 66700000,
      100000000, 150000000, 250000000, 500000000, 1000000000, 2000000000, 5000000000]"

text \<open>
  The comparison of two doubles decides the comparison of the exact numbers: the interval
  one nanosecond above a bound is already a larger double than the bound.
\<close>

lemma compare_at_bound:
  assumes "seconds_of_ns k \<le> b" and "b < seconds_of_ns (k + 1)"
  shows "seconds_of_ns t \<le> b \<longleftrightarrow> t \<le> k"
proof (cases "t \<le> k")
  case True
  with seconds_of_ns_mono [OF True] assms(1) show ?thesis by linarith
next
  case False
  then have "seconds_of_ns (k + 1) \<le> seconds_of_ns t" by (intro seconds_of_ns_mono) simp
  with False assms(2) show ?thesis by linarith
qed

lemma bucket_index_transfer:
  assumes "list_all2 (\<lambda>b k. \<forall>t. seconds_of_ns t \<le> b \<longleftrightarrow> t \<le> k) bs ks"
  shows "bucket_index (seconds_of_ns t) bs 0 = length (takeWhile (\<lambda>k. k < t) ks)"
  using assms by (induction rule: list_all2_induct) (auto simp: bucket_index_Suc not_le)

lemma bucket_bounds_close:
  "list_all2 (\<lambda>b k. seconds_of_ns k \<le> b \<and> b < seconds_of_ns (k + 1)) frame_interval_buckets bucket_bounds_ns"
  unfolding frame_interval_buckets_def bucket_bounds_ns_def list.map
  by (intro list_all2_Cons [THEN iffD2] conjI list_all2_Nil [THEN iffD2]) (code_simp+)

lemma interval_bucket:
  "bucket_index (seconds_of_ns t) frame_interval_buckets 0 =
     length (takeWhile (\<lambda>k. k < t) bucket_bounds_ns)"
  by (rule bucket_index_transfer, rule list_all2_mono [OF bucket_bounds_close])
    (use compare_at_bound in blast)

subsection \<open>Arrival rate anomalies\<close>

text \<open>A run of checks at the given times, and the verdicts of the windows it closes.\<close>

fun rate_run :: "ns list \<Rightarrow> csm \<Rightarrow> csm option" where
  "rate_run [] m = Some m"
| "rate_run (t # ts) m = do { m \<leftarrow> check_arrival_rate t m; rate_run ts m }"

fun rate_verdicts :: "ns list \<Rightarrow> csm \<Rightarrow> bool list" where
  "rate_verdicts [] m = []"
| "rate_verdicts (t # ts) m =
     (if t - m_rate_window_start m < kRateAnomalyWindow then []
      else [too_fast m (t - m_rate_window_start m)]) @
     (case check_arrival_rate t m of None \<Rightarrow> [] | Some m' \<Rightarrow> rate_verdicts ts m')"

text \<open>The number of episodes in a list of verdicts: how often the verdict turns true.\<close>

fun episodes :: "bool \<Rightarrow> bool list \<Rightarrow> nat" where
  "episodes active [] = 0"
| "episodes active (v # vs) = (if v \<and> \<not> active then 1 else 0) + episodes v vs"

lemma rate_run_episodes:
  assumes "rate_run ts m = Some m'" and "machine_wf m"
  shows "error_counter ER_Geometry m' =
      error_counter ER_Geometry m + of_nat (episodes (m_rate_anomaly_active m) (rate_verdicts ts m))
    \<and> m_state m' = m_state m \<and> m_events m' = m_events m"
  using assms
proof (induction ts arbitrary: m)
  case Nil
  then show ?case by simp
next
  case (Cons t ts)
  from Cons.prems(1) obtain m1 where c: "check_arrival_rate t m = Some m1" and r: "rate_run ts m1 = Some m'"
    by (auto simp: bind_iff)
  note wf = check_arrival_rate_wf [OF c Cons.prems(2)]
  note IH = Cons.IH [OF r wf(1)]
  have geo: "error_counter ER_Geometry (m\<lparr>m_stats := bump_error ER_Geometry (m_stats m)\<rparr>) =
      error_counter ER_Geometry m + 1"
    using Cons.prems(2) by (simp add: error_counter_def nth_bump_error machine_wf_def)
  from c show ?case
  proof (cases rule: check_arrival_rateE)
    case window_open
    with IH wf c show ?thesis by (simp add: error_counter_def)
  next
    case window_closed
    with IH wf c geo show ?thesis by (simp add: error_counter_def)
  qed
qed

end
