(* ===== verification/Capture_Progress.thy ===== *)
theory Capture_Progress
  imports Capture_Timing
begin

text \<open>
  When a call of \<open>step()\<close> returns, and how soon a healthy device streams again. A device
  is responsive when every one of its methods returns; it is healthy when it opens, knows
  its format and starts. The clock is steady when no method makes it go back.
\<close>

subsection \<open>Every call returns\<close>

definition responsive :: "'w env \<Rightarrow> bool" where
  "responsive E \<longleftrightarrow>
     (\<forall>w. dev_open E w \<noteq> None) \<and> (\<forall>w. dev_close E w \<noteq> None) \<and>
     (\<forall>f w. dev_query_format E f w \<noteq> None) \<and> (\<forall>n w. dev_start_streaming E n w \<noteq> None) \<and>
     (\<forall>w. dev_stop_streaming E w \<noteq> None) \<and> (\<forall>t f w. dev_dequeue_frame E t f w \<noteq> None) \<and>
     (\<forall>i w. dev_requeue_frame E i w \<noteq> None)"

lemma responsiveD:
  assumes "responsive E"
  shows "\<exists>r w'. dev_open E w = Some (r, w')" and "\<exists>w'. dev_close E w = Some w'"
    and "\<exists>q g w'. dev_query_format E f w = Some (q, g, w')"
    and "\<exists>s w'. dev_start_streaming E n w = Some (s, w')"
    and "\<exists>w'. dev_stop_streaming E w = Some w'"
    and "\<exists>d g w'. dev_dequeue_frame E t h w = Some (d, g, w')"
    and "\<exists>w'. dev_requeue_frame E i w = Some w'"
  using assms by (auto simp: responsive_def)

lemma count_error_returns:
  "stats_wf (m_stats m) \<Longrightarrow> r \<noteq> ER_Count \<Longrightarrow> count_error r m = Some (m\<lparr>m_stats := bump_error r (m_stats m)\<rparr>)"
  using record_error_defined [of "m_stats m" r] by (auto simp: count_error_def dest!: record_error_bump split: option.splits)

lemma begin_release_cycle_returns:
  assumes "responsive E" and "stats_wf (m_stats m)" and "r \<noteq> ER_Count"
  shows "\<exists>m' w'. begin_release_cycle E r m w = Some (m', w')"
proof -
  obtain w1 where s: "dev_stop_streaming E w = Some w1" using responsiveD(5) [OF assms(1)] by blast
  obtain w2 where c: "dev_close E w1 = Some w2" using responsiveD(2) [OF assms(1)] by blast
  obtain t w3 where n: "clk_steady_now E w2 = (t, w3)" by fastforce
  show ?thesis using assms s c n by (simp add: begin_release_cycle_def count_error_returns Let_def)
qed

lemma lose_device_returns:
  assumes "responsive E" and "stats_wf (m_stats m)"
  shows "\<exists>m' w'. lose_device E m w = Some (m', w')"
proof -
  obtain w1 where s: "dev_stop_streaming E w = Some w1" using responsiveD(5) [OF assms(1)] by blast
  obtain w2 where c: "dev_close E w1 = Some w2" using responsiveD(2) [OF assms(1)] by blast
  obtain t w3 where n: "clk_steady_now E w2 = (t, w3)" by fastforce
  show ?thesis using assms s c n by (simp add: lose_device_def count_error_returns Let_def)
qed

lemma handle_frame_returns:
  assumes "responsive E"
  shows "\<exists>m' w'. handle_frame E f m w = Some (m', w')"
proof -
  obtain w1 where "dev_requeue_frame E (fd_buffer_index f) w = Some w1"
    using responsiveD(7) [OF assms] by blast
  moreover obtain t w2 where "clk_wall_now E w1 = (t, w2)" by fastforce
  ultimately show ?thesis by (simp add: handle_frame_def Let_def)
qed

lemma check_arrival_rate_returns:
  assumes "stats_wf (m_stats m)"
  shows "\<exists>m'. check_arrival_rate now m = Some m'"
  using assms by (simp add: check_arrival_rate_def Let_def count_error_returns)

lemma enter_configuring_returns:
  assumes "responsive E" and "stats_wf (m_stats m)"
  shows "\<exists>wait m' w'. enter_configuring E m w = Some (wait, m', w')"
proof -
  obtain r w1 where s: "dev_start_streaming E (dc_buffer_count (m_config m)) w = Some (r, w1)"
    using responsiveD(4) [OF assms(1)] by blast
  obtain t w2 where c: "clk_steady_now E w1 = (t, w2)" by fastforce
  have "stats_wf (m_stats (set_state CS_Configuring m))" using assms(2) by (simp add: small_defs)
  with s c show ?thesis
    by (cases r) (simp_all add: enter_configuring_def count_error_returns Let_def small_defs split: prod.splits)
qed

lemma handle_frame_stats_wf:
  "handle_frame E f m w = Some (m', w') \<Longrightarrow> stats_wf (m_stats m) \<Longrightarrow> stats_wf (m_stats m')"
  by (erule handle_frameE) (simp add: frame_stats_wf)

lemma check_arrival_rate_stats_wf:
  "check_arrival_rate now m = Some m' \<Longrightarrow> stats_wf (m_stats m) \<Longrightarrow> stats_wf (m_stats m')"
  by (erule check_arrival_rateE) simp_all

lemma step_device_absent_returns:
  assumes "responsive E" and "stats_wf (m_stats m)"
  shows "\<exists>r. step_device_absent E m w = Some r"
proof -
  obtain t w1 where c: "clk_steady_now E w = (t, w1)" by fastforce
  obtain r w2 where "dev_open E w1 = Some (r, w2)" using responsiveD(1) [OF assms(1)] by blast
  with c assms(2) show ?thesis
    by (cases r) (auto simp: step_device_absent_def count_error_returns Let_def split: prod.splits)
qed

lemma step_awaiting_producer_returns:
  assumes "responsive E" and "stats_wf (m_stats m)"
  shows "\<exists>r. step_awaiting_producer E m w = Some r"
proof -
  obtain t w1 where c: "clk_steady_now E w = (t, w1)" by fastforce
  obtain q g w2 where q: "dev_query_format E stream_format_default w1 = Some (q, g, w2)"
    using responsiveD(3) [OF assms(1)] by blast
  obtain wait m' w' where "enter_configuring E (m\<lparr>m_current_format := g\<rparr>) w2 = Some (wait, m', w')"
    using enter_configuring_returns [OF assms(1)] assms(2) by fastforce
  with c q assms(2) show ?thesis
    by (cases q) (auto simp: step_awaiting_producer_def count_error_returns Let_def split: prod.splits)
qed

lemma step_streaming_returns:
  assumes "responsive E" and "stats_wf (m_stats m)"
  shows "\<exists>r. step_streaming E pt m w = Some r"
proof -
  obtain d f w1 where d: "dev_dequeue_frame E pt frame_descriptor_default w = Some (d, f, w1)"
    using responsiveD(6) [OF assms(1)] by blast
  obtain t w2 where c: "clk_steady_now E w1 = (t, w2)" by fastforce
  obtain m1 w3 where h: "handle_frame E f m w1 = Some (m1, w3)" using handle_frame_returns [OF assms(1)] by blast
  note wf1 = handle_frame_stats_wf [OF h assms(2)]
  obtain m2 where r: "check_arrival_rate (fd_captured_at f) m1 = Some m2"
    using check_arrival_rate_returns [OF wf1] by blast
  note wf2 = check_arrival_rate_stats_wf [OF r wf1]
  obtain m3 w4 where b: "begin_release_cycle E ER_Geometry m2 w3 = Some (m3, w4)"
    using begin_release_cycle_returns [OF assms(1) wf2] by blast
  obtain m4 w5 where s: "begin_release_cycle E ER_Timeout m w2 = Some (m4, w5)"
    using begin_release_cycle_returns [OF assms] by blast
  obtain m5 w6 where l: "lose_device E m w1 = Some (m5, w6)"
    using lose_device_returns [OF assms] by blast
  from d c h r b s l assms(2) show ?thesis
    by (cases d) (auto simp: step_streaming_def count_error_returns)
qed

lemma step_recovering_returns:
  assumes "responsive E" and "stats_wf (m_stats m)"
  shows "\<exists>r. step_recovering E m w = Some r"
proof -
  obtain t w1 where c: "clk_steady_now E w = (t, w1)" by fastforce
  obtain r w2 where o: "dev_open E w1 = Some (r, w2)" using responsiveD(1) [OF assms(1)] by blast
  obtain m3 w3 where l: "lose_device E m w2 = Some (m3, w3)" using lose_device_returns [OF assms] by blast
  obtain q g w4 where q: "dev_query_format E stream_format_default w2 = Some (q, g, w4)"
    using responsiveD(3) [OF assms(1)] by blast
  obtain w5 where x: "dev_close E w4 = Some w5" using responsiveD(2) [OF assms(1)] by blast
  obtain wait m' w' where e: "enter_configuring E (m\<lparr>m_current_format := g\<rparr>) w4 = Some (wait, m', w')"
    using enter_configuring_returns [OF assms(1)] assms(2) by fastforce
  obtain w6 where y: "dev_close E w' = Some w6" using responsiveD(2) [OF assms(1)] by blast
  from c o l q x e y assms(2) show ?thesis
    by (cases r; cases q) (auto simp: step_recovering_def count_error_returns Let_def split: prod.splits)
qed

lemma csm_step_returns:
  assumes "responsive E" and "machine_wf m"
  shows "\<exists>wait m' w'. csm_step E pt m w = Some (wait, m', w')"
proof -
  have "stats_wf (m_stats m)" using assms(2) by (simp add: machine_wf_def)
  note returns = step_device_absent_returns [OF assms(1) this, of w]
    step_awaiting_producer_returns [OF assms(1) this, of w]
    step_streaming_returns [OF assms(1) this, of pt w] step_recovering_returns [OF assms(1) this, of w]
  from returns have "\<exists>r. csm_step E pt m w = Some r" by (cases "m_state m") (auto simp: csm_step_def)
  then show ?thesis by auto
qed

subsection \<open>A healthy device streams again\<close>

definition healthy :: "'w env \<Rightarrow> bool" where
  "healthy E \<longleftrightarrow>
     (\<forall>w r w'. dev_open E w = Some (r, w') \<longrightarrow> r = OR_Opened) \<and>
     (\<forall>f w q g w'. dev_query_format E f w = Some (q, g, w') \<longrightarrow> q = FR_Known) \<and>
     (\<forall>n w s w'. dev_start_streaming E n w = Some (s, w') \<longrightarrow> s = SS_Started)"

definition steady_now :: "'w env \<Rightarrow> 'w \<Rightarrow> ns" where
  "steady_now E w = fst (clk_steady_now E w)"

lemma healthyD:
  assumes "healthy E"
  shows "dev_open E w \<noteq> Some (OR_Absent, w')"
    and "dev_start_streaming E n w \<noteq> Some (SS_BufferError, w')"
    and "dev_query_format E f w = Some (q, g, w') \<Longrightarrow> q = FR_Known"
proof -
  show "dev_open E w \<noteq> Some (OR_Absent, w')" using assms unfolding healthy_def by blast
  show "dev_start_streaming E n w \<noteq> Some (SS_BufferError, w')" using assms unfolding healthy_def by blast
  show "dev_query_format E f w = Some (q, g, w') \<Longrightarrow> q = FR_Known"
    using assms unfolding healthy_def by blast
qed

text \<open>One due step of a machine that waits for its producer, recovering or not.\<close>

lemma awaiting_streams:
  assumes st: "m_state m = CS_AwaitingProducer" and due: "m_next_attempt_at m \<le> steady_now E w"
    and h: "healthy E" and step: "csm_step E pt m w = Some (wait, m', w')"
  shows "m_state m' = CS_Streaming"
  using csm_step_trans [OF step]
proof (cases rule: csm_trans.cases)
  case (configure_failed now w1 fmt w2)
  then show ?thesis using healthyD(2) [OF h] by (auto elim!: enter_configuringE)
next
  case (probe_configure_failed now w1 w2 fmt w3 w4)
  then show ?thesis using healthyD(2) [OF h] by (auto elim!: enter_configuringE)
next
  case (probe_lost now w1 w2)
  then show ?thesis using healthyD(1) [OF h] by simp
next
  case (probe_no_format now w1 w2 r fmt w3 b)
  then show ?thesis using healthyD(3) [OF h probe_no_format(7)] by simp
next
  case (no_format now w1 r fmt b)
  then show ?thesis using healthyD(3) [OF h no_format(6)] by simp
qed (use st due in \<open>auto simp: steady_now_def\<close>)

lemma absent_opens:
  assumes st: "m_state m = CS_DeviceAbsent" and due: "m_next_attempt_at m \<le> steady_now E w"
    and h: "healthy E" and step: "csm_step E pt m w = Some (wait, m', w')"
  shows "wait = 0" and "m_state m' = CS_AwaitingProducer" and "m_next_attempt_at m' = m_next_attempt_at m"
    and "m_recovering m' = m_recovering m"
proof -
  have "wait = 0 \<and> m_state m' = CS_AwaitingProducer \<and> m_next_attempt_at m' = m_next_attempt_at m \<and>
    m_recovering m' = m_recovering m"
    using csm_step_trans [OF step]
  proof (cases rule: csm_trans.cases)
    case (absent now w1 b)
    then show ?thesis using healthyD(1) [OF h] by simp
  qed (use st due in \<open>auto simp: steady_now_def\<close>)
  then show "wait = 0" "m_state m' = CS_AwaitingProducer" "m_next_attempt_at m' = m_next_attempt_at m"
    "m_recovering m' = m_recovering m" by simp_all
qed

subsection \<open>Inside a wait\<close>

text \<open>A waiting machine asks the clock and nothing else, and says how long is left.\<close>

lemma waiting_step:
  assumes "m_state m = CS_DeviceAbsent \<or> m_state m = CS_AwaitingProducer"
    and "clk_steady_now E w = (now, w1)" and "now < m_next_attempt_at m"
  shows "csm_step E pt m w = Some (ms_of_ns (m_next_attempt_at m - now), m, w1)"
  using assms
  by (auto simp: csm_step_def step_device_absent_def step_awaiting_producer_def step_recovering_def Let_def)

text \<open>Sleeping the recommended wait leaves less than a millisecond of it.\<close>

lemma wait_remainder:
  assumes "now < due" and "w = ms_of_ns (due - now)"
  shows "now + w * ns_per_ms \<le> due" and "due < now + (w + 1) * ns_per_ms"
proof -
  have w: "w = (due - now) div ns_per_ms" using assms by (simp add: ms_of_ns_def ns_per_ms_def)
  have "due - now = 1000000 * w + (due - now) mod 1000000" by (simp add: w ns_per_ms_def)
  moreover have "0 \<le> (due - now) mod 1000000" "(due - now) mod 1000000 < 1000000" by simp_all
  ultimately show "now + w * ns_per_ms \<le> due" "due < now + (w + 1) * ns_per_ms"
    unfolding ns_per_ms_def by (simp_all add: algebra_simps)
qed

end
