(* ===== verification/Capture_Demo.thy ===== *)
theory Capture_Demo
  imports Fake_Device Capture_Progress
begin

text \<open>
  A concrete life of the machine on the scripted device of the repository's tests: a camera
  of 640 by 480 pixels in an uncompressed format is plugged in, delivers frames, stalls,
  recovers, is lost. The theorems about all devices are applied to it.
\<close>

definition yuyv :: stream_format where
  "yuyv =
     \<lparr>sf_width = 640, sf_height = 480, sf_pixel_format_fourcc = 0x56595559,
      sf_size_image = 614400, sf_bytesperline = 1280, sf_compressed = False\<rparr>"

definition plug :: "fake_device \<Rightarrow> fake_device" where
  "plug d = d\<lparr>fk_open_result := OR_Opened, fk_format_result := FR_Known, fk_format := yuyv\<rparr>"

definition tick :: "fake_device \<Rightarrow> fake_device" where
  "tick = fake_advance 66"

definition deliver :: "u64 \<Rightarrow> fake_device \<Rightarrow> fake_device" where
  "deliver n d = fake_queue_frame \<lparr>fd_buffer_index = 2, fd_bytes_used = n, fd_captured_at = 0\<rparr> (tick d)"

definition good_frame :: "fake_device \<Rightarrow> fake_device" where
  "good_frame = deliver 614400"

definition bad_frame :: "fake_device \<Rightarrow> fake_device" where
  "bad_frame = deliver 100"

definition silence :: "fake_device \<Rightarrow> fake_device" where
  "silence = fake_advance 1000"

definition unplug :: "fake_device \<Rightarrow> fake_device" where
  "unplug d = fake_queue_dequeue_result DQ_DeviceLost (d\<lparr>fk_open_result := OR_Absent\<rparr>)"

definition demo_start :: "csm \<times> fake_device" where
  "demo_start = csm_new fake_env capture_stats_new daemon_config_default fake_new"

definition demo :: "(fake_device \<Rightarrow> fake_device) list \<Rightarrow> csm \<times> fake_device" where
  "demo fs = the (scenario fs demo_start)"

text \<open>The stages of the life.\<close>

definition opened_demo :: "csm \<times> fake_device" where
  "opened_demo = demo [plug]"

definition streaming_demo :: "csm \<times> fake_device" where
  "streaming_demo = demo [plug, tick, good_frame]"

definition stalled_demo :: "csm \<times> fake_device" where
  "stalled_demo = demo [plug, tick, good_frame, silence]"

text \<open>Each stage is evaluated once, for all the facts about it.\<close>

definition reaches ::
  "(fake_device \<Rightarrow> fake_device) list \<Rightarrow> (csm \<Rightarrow> fake_device \<Rightarrow> bool) \<Rightarrow> bool" where
  "reaches fs P = (case scenario fs demo_start of None \<Rightarrow> False | Some (m, d) \<Rightarrow> P m d)"

lemma reachesD: "reaches fs P \<Longrightarrow> scenario fs demo_start \<noteq> None \<and> P (fst (demo fs)) (snd (demo fs))"
  by (auto simp: reaches_def demo_def split: option.splits)

lemma opened_reached:
  "reaches [plug] (\<lambda>m d. m_state m = CS_AwaitingProducer \<and> \<not> m_recovering m \<and>
     m_next_attempt_at m \<le> fc_steady (fk_clock d))"
  by code_simp

lemma streaming_reached:
  "reaches [plug, tick, good_frame] (\<lambda>m d. m_state m = CS_Streaming \<and>
     \<not> sf_compressed (m_current_format m) \<and> sf_size_image (m_current_format m) = 614400 \<and>
     fk_dequeue_queue d = [] \<and> fk_default_dequeue_result d = DQ_Timeout \<and> m_have_last_frame m \<and>
     stall_threshold_of daemon_config_default * 1000000 \<le>
       fc_steady (fk_clock d) + 1000 * 1000000 - m_last_frame_at m)"
  by code_simp

lemma stalled_reached:
  "reaches [plug, tick, good_frame, silence] (\<lambda>m d. m_state m = CS_AwaitingProducer \<and> m_recovering m \<and>
     m_next_attempt_at m \<le> fc_steady (fk_clock d) \<and> event_count m EV_StallDetected = 1 \<and>
     fk_open_result d = OR_Opened \<and> fk_format_result d = FR_Known \<and> fk_start_result d = SS_Started)"
  by code_simp

lemma demo_run:
  assumes "scenario fs demo_start \<noteq> None"
  shows "device_run fake_env (\<lambda>d d'. \<exists>f \<in> set fs. d' = f d) daemon_config_default fake_new
    (fst (demo fs)) (snd (demo fs))"
proof -
  obtain m d where start: "demo_start = (m, d)" by fastforce
  obtain m' d' where s: "scenario fs (m, d) = Some (m', d')" using assms start by auto
  have "device_run fake_env (\<lambda>d d'. \<exists>f \<in> set fs. d' = f d) daemon_config_default fake_new m' d'"
    by (rule scenario_run [OF s dr_new]) (simp_all add: start [symmetric] demo_start_def)
  with s start show ?thesis by (simp add: demo_def)
qed

lemmas demo_runs =
  demo_run [OF reachesD [OF opened_reached, THEN conjunct1], folded opened_demo_def]
  demo_run [OF reachesD [OF streaming_reached, THEN conjunct1], folded streaming_demo_def]
  demo_run [OF reachesD [OF stalled_reached, THEN conjunct1], folded stalled_demo_def]

lemmas demo_reach = demo_runs [THEN device_run_reach]

lemmas demo_facts =
  reachesD [OF opened_reached, THEN conjunct2, folded opened_demo_def]
  reachesD [OF streaming_reached, THEN conjunct2, folded streaming_demo_def]
  reachesD [OF stalled_reached, THEN conjunct2, folded stalled_demo_def]

lemma fake_responsive: "responsive fake_env"
  by (simp add: responsive_def fake_defs Let_def split: list.split prod.split)

lemmas demo_quiet = demo_facts(2)
lemmas demo_ready = demo_facts(3)

text \<open>The same device with the camera always there and always ready.\<close>

definition ready_env :: "fake_device env" where
  "ready_env = fake_env
     \<lparr>dev_open := (\<lambda>d. fake_open (plug d)),
      dev_query_format := (\<lambda>f d. Some (FR_Known, yuyv, d)),
      dev_start_streaming := (\<lambda>n d. fake_start_streaming n (d\<lparr>fk_start_result := SS_Started\<rparr>))\<rparr>"

definition ready_start :: "csm \<times> fake_device" where
  "ready_start = csm_new ready_env capture_stats_new daemon_config_default fake_new"

lemma ready_responsive: "responsive ready_env"
  by (simp add: responsive_def ready_env_def fake_defs Let_def split: list.split prod.split)

lemma ready_healthy: "healthy ready_env"
  by (simp add: healthy_def ready_env_def fake_defs plug_def Let_def)

end
