(* ===== verification/Capture_Correct.thy ===== *)
theory Capture_Correct
  imports Capture_Demo
begin

text \<open>
  The properties of the capture state machine, for any device and clock unless a property
  says otherwise, each applied to the scripted device.
\<close>

subsection \<open>The life cycle and its accounts\<close>

text \<open>
  C1: every call of \<open>step()\<close> on a machine in service is a transition of the abstract life
  cycle: it appends to the event log exactly the events that the transition announces, in
  their order.
\<close>

theorem step_refines_lifecycle:
  assumes "csm_reach E cfg m" and "csm_step E pt m w = Some (wait, m', w')"
  shows "\<exists>evs. m_events m' = m_events m @ evs \<and> lifecycle (phase_of m) (map ev_type evs) (phase_of m')"
  using csm_step_refines [OF assms(2) csm_reach_wf [OF assms(1)]] by blast

lemma step_refines_lifecycle_witness:
  "\<exists>wait m' w' evs.
     csm_step fake_env 100 (fst streaming_demo) (snd streaming_demo) = Some (wait, m', w') \<and>
     m_events m' = m_events (fst streaming_demo) @ evs \<and>
     lifecycle (phase_of (fst streaming_demo)) (map ev_type evs) (phase_of m')"
  using csm_step_returns [OF fake_responsive csm_reach_wf [OF demo_reach(2)]]
    step_refines_lifecycle [OF demo_reach(2)] by metis

text \<open>
  C3: the event log of a machine balances. Every opened device is followed by one more
  device lost or is still there; an opened device is always announced as awaiting its
  producer; every stall is either cleared, ended by the loss of the device, or still open;
  streaming started is announced once for the first stream and once per cleared stall; a
  format change is only announced with a cleared stall.
\<close>

theorem events_balance:
  assumes "csm_reach E cfg m"
  shows "event_count m EV_AwaitingProducer = event_count m EV_DeviceOpened \<and>
    event_count m EV_DeviceOpened = event_count m EV_DeviceLost + bit_of (m_state m \<noteq> CS_DeviceAbsent) \<and>
    event_count m EV_StreamingStarted = event_count m EV_StallCleared + bit_of (m_has_streamed_before m) \<and>
    event_count m EV_StallCleared + bit_of (m_recovering m) \<le> event_count m EV_StallDetected \<and>
    event_count m EV_StallDetected \<le>
      event_count m EV_StallCleared + event_count m EV_DeviceLost + bit_of (m_recovering m) \<and>
    event_count m EV_FormatChanged \<le> event_count m EV_StallCleared"
proof -
  note wf = csm_reach_wf [OF assms]
  have p: "fst (phase_of m) = P_Absent \<longleftrightarrow> m_state m = CS_DeviceAbsent"
    "fst (phase_of m) = P_Released \<longleftrightarrow> m_recovering m" "snd (phase_of m) = m_has_streamed_before m"
    using wf by (auto simp: phase_of_def machine_wf_def split: capture_state.splits)
  note counts = lifecycle_run_counts [OF csm_reach_lifecycle [OF assms], unfolded p]
  show ?thesis by (intro conjI) (rule counts)+
qed

lemma events_balance_witness:
  "event_count (fst stalled_demo) EV_StallDetected \<le>
     event_count (fst stalled_demo) EV_StallCleared + event_count (fst stalled_demo) EV_DeviceLost + 1"
  using events_balance [OF demo_reach(3)] demo_facts(3) by simp

text \<open>
  C17: what an observer sees between two calls of \<open>step()\<close>: the state gauge shows the state
  of the machine, the machine never rests in \<open>Configuring\<close> or \<open>Stalled\<close>, it recovers only
  while it awaits its producer, and both recovering and streaming imply that it has
  streamed. The error counters stay indexable by every reason.
\<close>

theorem resting_invariant:
  assumes "csm_reach E cfg m"
  shows "st_capture_state (m_stats m) = capture_state_code (m_state m) \<and>
    m_state m \<notin> {CS_Configuring, CS_Stalled} \<and>
    (m_recovering m \<longrightarrow> m_state m = CS_AwaitingProducer) \<and>
    (m_recovering m \<or> m_state m = CS_Streaming \<longrightarrow> m_has_streamed_before m) \<and>
    stats_wf (m_stats m)"
  using csm_reach_wf [OF assms] by (auto simp: machine_wf_def)

lemma resting_invariant_witness:
  "st_capture_state (m_stats (fst streaming_demo)) = 3 \<and> m_has_streamed_before (fst streaming_demo)"
  using resting_invariant [OF demo_reach(2)] demo_facts(2) by simp

text \<open>
  C13: three of the counters agree with the event log: stalls with the stalls detected,
  reconnects with the reconnecting events, and the error counter for a lost device with the
  devices lost, all modulo the 64 bits of the counters.
\<close>

theorem counters_match_events:
  assumes "csm_reach E cfg m"
  shows "st_stalls (m_stats m) = of_nat (event_count m EV_StallDetected) \<and>
    st_reconnects (m_stats m) = of_nat (event_count m EV_Reconnecting) \<and>
    st_errors (m_stats m) ! error_reason_code ER_DeviceLost = of_nat (event_count m EV_DeviceLost)"
  using csm_reach_accounted [OF assms] by (simp add: accounted_def error_counter_def)

lemma counters_match_events_witness: "st_stalls (m_stats (fst stalled_demo)) = 1"
  using counters_match_events [OF demo_reach(3)] demo_facts(3) by simp

subsection \<open>Every call returns, and a healthy device streams\<close>

text \<open>
  C24: with a device whose methods all return, every call of \<open>step()\<close> on a machine in
  service returns, whatever the device answers: no loop, no index out of the counters.
\<close>

theorem step_total:
  assumes "csm_reach E cfg m" and "responsive E"
  shows "\<exists>wait m' w'. csm_step E pt m w = Some (wait, m', w')"
  by (rule csm_step_returns [OF assms(2) csm_reach_wf [OF assms(1)]])

lemma step_total_witness:
  "\<exists>wait m' w'. csm_step fake_env 100 (fst stalled_demo) (snd stalled_demo) = Some (wait, m', w')"
  by (rule step_total [OF demo_reach(3) fake_responsive])

text \<open>
  C7: a healthy and responsive device streams. From a due machine that awaits its producer
  (recovering or not) one call of \<open>step()\<close> is enough; from a due machine without a device
  the call opens it, asks for no wait, and the next call streams unless the clock went back.
\<close>

theorem healthy_device_streams:
  assumes reach: "csm_reach E cfg m" and "responsive E" and "healthy E"
    and due: "m_next_attempt_at m \<le> steady_now E w"
    and st: "m_state m = CS_AwaitingProducer \<or> m_state m = CS_DeviceAbsent"
  shows "\<exists>wait m1 w1. csm_step E pt m w = Some (wait, m1, w1) \<and>
    (m_state m1 = CS_Streaming \<or>
     m_state m = CS_DeviceAbsent \<and> wait = 0 \<and>
     (steady_now E w \<le> steady_now E w1 \<longrightarrow>
        (\<exists>wait2 m2 w2. csm_step E pt m1 w1 = Some (wait2, m2, w2) \<and> m_state m2 = CS_Streaming)))"
proof -
  obtain wait m1 w1 where s: "csm_step E pt m w = Some (wait, m1, w1)"
    using csm_step_returns [OF assms(2) csm_reach_wf [OF reach]] by blast
  show ?thesis
  proof (cases "m_state m = CS_AwaitingProducer")
    case True
    from awaiting_streams [OF True due assms(3) s] s show ?thesis by blast
  next
    case False
    with st have absent: "m_state m = CS_DeviceAbsent" by simp
    note opens = absent_opens [OF absent due assms(3) s]
    obtain wait2 m2 w2 where s2: "csm_step E pt m1 w1 = Some (wait2, m2, w2)"
      using csm_step_returns [OF assms(2) csm_reach_wf [OF reach_step [OF reach s]]] by blast
    have "m_state m2 = CS_Streaming" if "steady_now E w \<le> steady_now E w1"
      using awaiting_streams [OF opens(2) _ assms(3) s2] opens(3) due that by simp
    with s s2 opens(1) absent show ?thesis by blast
  qed
qed

lemma healthy_device_streams_witness:
  "\<exists>wait m1 w1. csm_step ready_env 100 (fst ready_start) (snd ready_start) = Some (wait, m1, w1) \<and>
     (m_state m1 = CS_Streaming \<or> wait = 0)"
proof -
  have "csm_reach ready_env daemon_config_default (fst ready_start)"
    by (rule reach_new [of _ _ fake_new _ "snd ready_start"]) (simp add: ready_start_def)
  moreover have "m_next_attempt_at (fst ready_start) \<le> steady_now ready_env (snd ready_start)"
    "m_state (fst ready_start) = CS_DeviceAbsent"
    by (simp_all add: ready_start_def csm_new_def ready_env_def fake_env_def steady_now_def fake_new_def store_state_def)
  ultimately show ?thesis
    using healthy_device_streams [OF _ ready_responsive ready_healthy, of daemon_config_default "fst ready_start"
        "snd ready_start" 100] by blast
qed

subsection \<open>What one call does while streaming\<close>

text \<open>
  C6: a poll that times out is a stall exactly when a frame has been seen since streaming
  started and the last one is at least the threshold of the configuration old. A stall is
  counted once as a stall and once as a timeout, announced, and leaves the machine
  recovering; otherwise nothing at all changes.
\<close>

theorem stall_decision:
  assumes reach: "csm_reach E cfg m" and cfg: "config_nonneg cfg" and st: "m_state m = CS_Streaming"
    and poll: "dev_dequeue_frame E pt frame_descriptor_default w = Some (DQ_Timeout, f, w1)"
    and clock: "clk_steady_now E w1 = (now, w2)"
    and step: "csm_step E pt m w = Some (wait, m', w')"
  shows "if m_have_last_frame m \<and> stall_threshold_of cfg * ns_per_ms \<le> now - m_last_frame_at m
    then m_events m' = m_events m @ [mk_event EV_StallDetected] \<and>
         m_state m' = CS_AwaitingProducer \<and> m_recovering m' \<and>
         st_stalls (m_stats m') = st_stalls (m_stats m) + 1 \<and>
         error_counter ER_Timeout m' = error_counter ER_Timeout m + 1
    else m' = m \<and> w' = w2"
proof -
  have thr: "m_stall_threshold m = stall_threshold_of cfg"
    using csm_reach_settings [OF reach cfg] by (simp add: settings_ok_def)
  have wf: "stats_wf (m_stats m)" using csm_reach_wf [OF reach] by (simp add: machine_wf_def)
  from csm_step_trans [OF step] show ?thesis
  proof (cases rule: csm_trans.cases)
    case (poll_timed_out g v now)
    with poll clock thr show ?thesis by auto
  next
    case (stalled g v now v2)
    with poll clock thr have c: "m_have_last_frame m \<and> stall_threshold_of cfg * ns_per_ms \<le> now - m_last_frame_at m"
      and r: "begin_release_cycle E ER_Timeout m v2 = Some (m', w')" and n: "now = fst (clk_steady_now E w1)"
      by auto
    from r wf have "m_events m' = m_events m @ [mk_event EV_StallDetected] \<and>
        m_state m' = CS_AwaitingProducer \<and> m_recovering m' \<and>
        st_stalls (m_stats m') = st_stalls (m_stats m) + 1 \<and>
        error_counter ER_Timeout m' = error_counter ER_Timeout m + 1"
      by (auto elim!: begin_release_cycleE simp: error_counter_def nth_bump_error)
    with c n clock show ?thesis by simp
  qed (use st poll in auto)
qed

lemma stall_decision_witness:
  "\<exists>wait m' w'. csm_step fake_env 100 (fst streaming_demo) (silence (snd streaming_demo)) = Some (wait, m', w') \<and>
     m_state m' = CS_AwaitingProducer \<and> m_recovering m'"
proof -
  obtain wait m' w' where s:
    "csm_step fake_env 100 (fst streaming_demo) (silence (snd streaming_demo)) = Some (wait, m', w')"
    using csm_step_returns [OF fake_responsive csm_reach_wf [OF demo_reach(2)]] by blast
  let ?d = "silence (snd streaming_demo)"
  have q: "dev_dequeue_frame fake_env 100 frame_descriptor_default ?d =
      Some (DQ_Timeout, frame_descriptor_default, ?d)"
    using demo_quiet by (simp add: fake_env_def fake_dequeue_frame_def silence_def fake_advance_def)
  have c: "clk_steady_now fake_env ?d = (fc_steady (fk_clock (snd streaming_demo)) + 1000 * 1000000, ?d)"
    by (simp add: fake_env_def silence_def fake_advance_def ns_per_ms_def)
  have "config_nonneg daemon_config_default" by (simp add: config_nonneg_def daemon_config_default_def)
  note stall_decision [OF demo_reach(2) this conjunct1 [OF demo_facts(2)] q c s]
  then show ?thesis using demo_quiet s unfolding ns_per_ms_def by (metis (no_types, lifting))
qed

text \<open>
  C5: a frame is handed back to the driver before anything is released, and counted with its
  bytes. When the format is uncompressed and the frame does not have the size of an image,
  the stream and the device are released, in this order, the stall is counted and announced,
  and the geometry error is counted; any other frame leaves the machine streaming and silent.
\<close>

theorem frame_outcome:
  assumes reach: "csm_reach E cfg m" and st: "m_state m = CS_Streaming"
    and frame: "dev_dequeue_frame E pt frame_descriptor_default w = Some (DQ_Frame, f, w1)"
    and step: "csm_step E pt m w = Some (wait, m', w')"
  shows "\<exists>w2 t w3. dev_requeue_frame E (fd_buffer_index f) w1 = Some w2 \<and> clk_wall_now E w2 = (t, w3) \<and>
    st_frames_received (m_stats m') = st_frames_received (m_stats m) + 1 \<and>
    st_bytes_received (m_stats m') = st_bytes_received (m_stats m) + fd_bytes_used f \<and>
    (if \<not> sf_compressed (m_current_format m) \<and> fd_bytes_used f \<noteq> ucast (sf_size_image (m_current_format m))
     then (\<exists>w4 w5 u. dev_stop_streaming E w3 = Some w4 \<and> dev_close E w4 = Some w5 \<and> clk_steady_now E w5 = (u, w')) \<and>
          m_events m' = m_events m @ [mk_event EV_StallDetected] \<and>
          m_state m' = CS_AwaitingProducer \<and> m_recovering m' \<and>
          st_stalls (m_stats m') = st_stalls (m_stats m) + 1 \<and>
          error_counter ER_Geometry m' \<in>
            {error_counter ER_Geometry m + 1, error_counter ER_Geometry m + 2}
     else w' = w3 \<and> m_events m' = m_events m \<and> m_state m' = CS_Streaming \<and>
          m_have_last_frame m' \<and> m_last_frame_at m' = fd_captured_at f)"
proof -
  have wf: "machine_wf m" by (rule csm_reach_wf [OF reach])
  have geo: "error_counter ER_Geometry n = error_counter ER_Geometry m \<and> stats_wf (m_stats n)"
    if "handle_frame E f m w1 = Some (n, v)" for n v
    using that wf by (auto elim!: handle_frameE simp: error_counter_def frame_stats_wf machine_wf_def)
  have geo2: "error_counter ER_Geometry n' \<in> {error_counter ER_Geometry n, error_counter ER_Geometry n + 1} \<and>
      stats_wf (m_stats n')" if "check_arrival_rate a n = Some n'" "stats_wf (m_stats n)" for a n n'
    using that by (auto elim!: check_arrival_rateE simp: error_counter_def nth_bump_error split: if_splits)
  from csm_step_trans [OF step] show ?thesis
  proof (cases rule: csm_trans.cases)
    case (frame_ok g v m1)
    with frame st show ?thesis
      by (auto elim!: handle_frameE check_arrival_rateE)
  next
    case (frame_mismatch g v m1 v2 m2)
    with frame have g: "g = f" "v = w1" by auto
    note h = geo [OF frame_mismatch(4) [unfolded g]]
    note r = geo2 [OF frame_mismatch(5)] h
    have "error_counter ER_Geometry m' = error_counter ER_Geometry m2 + 1"
      using frame_mismatch(8) r by (auto elim!: begin_release_cycleE simp: error_counter_def nth_bump_error)
    with r frame_mismatch g show ?thesis
      by (auto elim!: handle_frameE check_arrival_rateE begin_release_cycleE)
  qed (use st frame in auto)
qed

lemma frame_outcome_witness:
  "\<exists>wait m' w'. csm_step fake_env 100 (fst streaming_demo) (bad_frame (snd streaming_demo)) = Some (wait, m', w') \<and>
     m_state m' = CS_AwaitingProducer"
proof -
  let ?d = "bad_frame (snd streaming_demo)"
  obtain wait m' w' where s: "csm_step fake_env 100 (fst streaming_demo) ?d = Some (wait, m', w')"
    using csm_step_returns [OF fake_responsive csm_reach_wf [OF demo_reach(2)]] by blast
  obtain f w1 where f: "dev_dequeue_frame fake_env 100 frame_descriptor_default ?d = Some (DQ_Frame, f, w1)"
    and b: "fd_bytes_used f = 100"
    using demo_quiet
    by (auto simp: fake_env_def fake_dequeue_frame_def bad_frame_def deliver_def tick_def fake_advance_def
        fake_queue_frame_def Let_def)
  from frame_outcome [OF demo_reach(2) _ f s] demo_facts(2) b s show ?thesis by auto
qed

text \<open>
  C12: when the device of a recovering machine opens, knows a format and starts, the machine
  streams again and announces, in this order, that the stall cleared, the change of format
  if the format changed (with both formats), and the stream with its format.
\<close>

theorem recovery_announced:
  assumes reach: "csm_reach E cfg m" and st: "m_recovering m"
    and due: "clk_steady_now E w = (now, w1)" "m_next_attempt_at m \<le> now"
    and opened: "dev_open E w1 = Some (OR_Opened, w2)"
    and known: "dev_query_format E stream_format_default w2 = Some (FR_Known, fmt, w3)"
    and started: "dev_start_streaming E (dc_buffer_count (m_config m)) w3 = Some (SS_Started, w4)"
    and step: "csm_step E pt m w = Some (wait, m', w')"
  shows "m_events m' = m_events m @ [mk_event EV_StallCleared] @
      (if fmt = m_current_format m then []
       else [(mk_event EV_FormatChanged)\<lparr>ev_format := fmt, ev_previous_format := m_current_format m\<rparr>]) @
      [(mk_event EV_StreamingStarted)\<lparr>ev_format := fmt\<rparr>]
    \<and> m_state m' = CS_Streaming \<and> \<not> m_recovering m' \<and> m_current_format m' = fmt \<and> wait = 0"
proof -
  have aw: "m_state m = CS_AwaitingProducer" using csm_reach_wf [OF reach] st by (simp add: machine_wf_def)
  have conf: "m_state m1 = CS_Streaming \<and> m_current_format m1 = fmt \<and> b = 0"
    if "enter_configuring E (m\<lparr>m_current_format := fmt\<rparr>) w3 = Some (b, m1, v)" for b m1 v
    using that started by (auto elim!: enter_configuringE)
  from csm_step_trans [OF step] show ?thesis
  proof (cases rule: csm_trans.cases)
    case (resumed now v1 v2 fm v3 m1)
    with opened known due have "fm = fmt" "v3 = w3" by auto
    with resumed conf show ?thesis by auto
  next
    case (probe_configure_failed now v1 v2 fm v3 v4)
    with opened known due conf show ?thesis by auto
  qed (use st aw due opened known in auto)
qed

lemma recovery_announced_witness:
  "\<exists>wait m' w'. csm_step fake_env 100 (fst stalled_demo) (snd stalled_demo) = Some (wait, m', w') \<and>
     m_state m' = CS_Streaming \<and> \<not> m_recovering m'"
proof -
  let ?d = "snd stalled_demo"
  obtain wait m' w' where s: "csm_step fake_env 100 (fst stalled_demo) ?d = Some (wait, m', w')"
    using csm_step_returns [OF fake_responsive csm_reach_wf [OF demo_reach(3)]] by blast
  from recovery_announced [OF demo_reach(3) _ _ _ _ _ _ s] demo_facts(3) demo_ready s show ?thesis
    by (simp add: fake_defs Let_def)
qed

subsection \<open>What the machine does not notice\<close>

text \<open>The machine in service from any moment on.\<close>

inductive service ::
  "'w env \<Rightarrow> ('w \<Rightarrow> 'w \<Rightarrow> bool) \<Rightarrow> csm \<times> 'w \<Rightarrow> csm \<times> 'w \<Rightarrow> bool" for E and other where
  sv_step: "csm_step E pt m w = Some (wait, m', w') \<Longrightarrow> service E other (m, w) (m', w')"
| sv_other: "other w w' \<Longrightarrow> service E other (m, w) (m, w')"

definition blind_spot :: "('w \<Rightarrow> bool) \<Rightarrow> event list \<Rightarrow> csm \<times> 'w \<Rightarrow> bool" where
  "blind_spot blind evs s \<longleftrightarrow>
     m_state (fst s) = CS_AwaitingProducer \<and> \<not> m_recovering (fst s) \<and> m_events (fst s) = evs \<and> blind (snd s)"

lemma blind_step:
  assumes query: "\<And>w f r g w'. blind w \<Longrightarrow> dev_query_format E f w = Some (r, g, w') \<Longrightarrow> r \<noteq> FR_Known \<and> blind w'"
    and clock: "\<And>w. blind w \<Longrightarrow> blind (snd (clk_steady_now E w))"
    and step: "csm_step E pt m w = Some (wait, m', w')" and "blind_spot blind evs (m, w)"
  shows "blind_spot blind evs (m', w')"
proof -
  have st: "m_state m = CS_AwaitingProducer" "\<not> m_recovering m" "m_events m = evs" "blind w"
    using assms(4) by (simp_all add: blind_spot_def)
  have saw: "blind w1" if "clk_steady_now E w = (now, w1)" for now w1
    using clock [OF st(4)] that by simp
  from csm_step_trans [OF step] show ?thesis
  proof (cases rule: csm_trans.cases)
    case (waiting now)
    with st saw show ?thesis by (auto simp: blind_spot_def)
  next
    case (no_format now w1 r fmt b)
    with st saw query show ?thesis by (auto simp: blind_spot_def)
  qed (use st saw query in \<open>auto dest: saw query\<close>)
qed

text \<open>
  C28: the first wait for a producer never lets go of the descriptor it holds. Whatever keeps
  the queries on that descriptor from finding a format (a driver that answers a held
  descriptor with what it was when it was opened, a device that is gone), the machine goes
  on asking it, announces nothing, and neither opens nor loses the device, for good.
\<close>

theorem held_descriptor_stays_blind:
  assumes query: "\<And>w f r g w'. blind w \<Longrightarrow> dev_query_format E f w = Some (r, g, w') \<Longrightarrow> r \<noteq> FR_Known \<and> blind w'"
    and clock: "\<And>w. blind w \<Longrightarrow> blind (snd (clk_steady_now E w))"
    and other: "\<And>w w'. blind w \<Longrightarrow> other w w' \<Longrightarrow> blind w'"
    and start: "m_state m = CS_AwaitingProducer" "\<not> m_recovering m" "blind w"
    and run: "(service E other)\<^sup>*\<^sup>* (m, w) (m', w')"
  shows "m_state m' = CS_AwaitingProducer \<and> \<not> m_recovering m' \<and> m_events m' = m_events m \<and> blind w'"
proof -
  from run have "blind_spot blind (m_events m) (m', w')"
  proof (induction rule: rtranclp_induct2)
    case refl
    from start show ?case by (simp add: blind_spot_def)
  next
    case (step m1 w1 m2 w2)
    from step(2) step.IH show ?case
      by (cases rule: service.cases) (auto simp: blind_spot_def [of _ _ "(m1, _)"] other
          intro: blind_step [of blind, OF query clock])
  qed
  then show ?thesis by (simp add: blind_spot_def)
qed

text \<open>
  On the scripted device: opened before its producer, which then starts to write and does so
  for five seconds.
\<close>

definition early :: "fake_device \<Rightarrow> fake_device" where
  "early d = d\<lparr>fk_open_result := OR_Opened\<rparr>"

lemma early_reached:
  "reaches [early] (\<lambda>m d. m_state m = CS_AwaitingProducer \<and> \<not> m_recovering m \<and>
     fk_observed_format_result d \<noteq> FR_Known)"
  by code_simp

lemma held_descriptor_stays_blind_witness:
  "\<exists>wait m d. csm_step fake_env 200 (fst (demo [early])) (fake_advance 5000 (plug (snd (demo [early])))) = Some (wait, m, d) \<and>
     m_state m = CS_AwaitingProducer \<and> fk_format_result d = FR_Known \<and> fk_open_result d = OR_Opened"
proof -
  let ?m = "fst (demo [early])" and ?d = "snd (demo [early])"
  let ?other = "\<lambda>d d'. d' = fake_advance 5000 d"
  let ?blind = "\<lambda>d. fk_observed_format_result d \<noteq> FR_Known \<and> fk_format_result d = FR_Known \<and> fk_open_result d = OR_Opened"
  note early = reachesD [OF early_reached]
  obtain wait m d where s: "csm_step fake_env 200 ?m (fake_advance 5000 (plug ?d)) = Some (wait, m, d)"
    using csm_step_returns [OF fake_responsive csm_reach_wf [OF device_run_reach [OF demo_run [OF conjunct1 [OF early]]]]]
    by blast
  have 1: "service fake_env ?other (?m, plug ?d) (?m, fake_advance 5000 (plug ?d))" by (rule sv_other) (rule refl)
  have 2: "service fake_env ?other (?m, fake_advance 5000 (plug ?d)) (m, d)" by (rule sv_step) (rule s)
  have "(service fake_env ?other)\<^sup>*\<^sup>* (?m, plug ?d) (m, d)"
    by (rule rtranclp_trans, rule r_into_rtranclp, rule 1, rule r_into_rtranclp, rule 2)
  then have "m_state m = CS_AwaitingProducer \<and> \<not> m_recovering m \<and> m_events m = m_events ?m \<and> ?blind d"
    by (rule held_descriptor_stays_blind [rotated -1])
      (use conjunct2 [OF early] in \<open>simp_all add: fake_env_def fake_query_format_def fake_advance_def plug_def\<close>)
  with s show ?thesis by blast
qed

text \<open>What stays true of a stream whose dequeues fail.\<close>

definition failing_stream :: "('w \<Rightarrow> bool) \<Rightarrow> event list \<Rightarrow> csm \<times> 'w \<Rightarrow> bool" where
  "failing_stream bad evs s \<longleftrightarrow>
     m_state (fst s) = CS_Streaming \<and> m_events (fst s) = evs \<and> bad (snd s)"

lemma failing_step:
  assumes fails: "\<And>w t f r g w'. bad w \<Longrightarrow> dev_dequeue_frame E t f w = Some (r, g, w') \<Longrightarrow> r = DQ_Error \<and> bad w'"
    and step: "csm_step E pt m w = Some (wait, m', w')" and "failing_stream bad evs (m, w)"
  shows "failing_stream bad evs (m', w') \<and> wait = 0"
proof -
  have st: "m_state m = CS_Streaming" "m_events m = evs" "bad w"
    using assms(3) by (simp_all add: failing_stream_def)
  from csm_step_trans [OF step] show ?thesis
    by (cases rule: csm_trans.cases) (use st in \<open>auto simp: failing_stream_def dest: fails\<close>)
qed

text \<open>
  C37: a dequeue that keeps failing without saying that the device is gone, whatever else
  happens: the machine goes on streaming and announces nothing, for good; it neither
  releases nor reopens the device.
\<close>

theorem failing_dequeue_never_leaves:
  assumes fails: "\<And>w t f r g w'. bad w \<Longrightarrow> dev_dequeue_frame E t f w = Some (r, g, w') \<Longrightarrow> r = DQ_Error \<and> bad w'"
    and other: "\<And>w w'. bad w \<Longrightarrow> other w w' \<Longrightarrow> bad w'"
    and start: "m_state m = CS_Streaming" "bad w"
    and run: "(service E other)\<^sup>*\<^sup>* (m, w) (m', w')"
  shows "m_state m' = CS_Streaming \<and> m_events m' = m_events m \<and> bad w'"
proof -
  from run have "failing_stream bad (m_events m) (m', w')"
  proof (induction rule: rtranclp_induct2)
    case refl
    from start show ?case by (simp add: failing_stream_def)
  next
    case (step m1 w1 m2 w2)
    from step(2) show ?case
    proof (cases rule: service.cases)
      case (sv_step pt wait)
      from failing_step [of bad, OF fails sv_step step.IH] show ?thesis by simp
    next
      case sv_other
      with step.IH show ?thesis by (auto simp: failing_stream_def intro: other)
    qed
  qed
  then show ?thesis by (simp add: failing_stream_def)
qed

text \<open>On the scripted device, whose every dequeue fails from now on: an hour later, still streaming.\<close>

lemma failing_dequeue_never_leaves_witness:
  "\<exists>wait m d. csm_step fake_env 200 (fst streaming_demo)
       (fake_advance 3600000 ((snd streaming_demo)\<lparr>fk_dequeue_queue := [], fk_default_dequeue_result := DQ_Error\<rparr>)) =
       Some (wait, m, d) \<and>
     m_state m = CS_Streaming \<and> m_events m = m_events (fst streaming_demo)"
proof -
  let ?m = "fst streaming_demo"
  let ?d = "(snd streaming_demo)\<lparr>fk_dequeue_queue := [], fk_default_dequeue_result := DQ_Error\<rparr>"
  let ?other = "\<lambda>d d'. d' = fake_advance 3600000 d"
  let ?bad = "\<lambda>d. fk_dequeue_queue d = [] \<and> fk_default_dequeue_result d = DQ_Error"
  obtain wait m d where s: "csm_step fake_env 200 ?m (fake_advance 3600000 ?d) = Some (wait, m, d)"
    using csm_step_returns [OF fake_responsive csm_reach_wf [OF demo_reach(2)]] by blast
  have "(service fake_env ?other)\<^sup>*\<^sup>* (?m, ?d) (m, d)"
    by (rule rtranclp_trans, rule r_into_rtranclp, rule sv_other, rule refl)
      (rule r_into_rtranclp, rule sv_step, rule s)
  then have "m_state m = CS_Streaming \<and> m_events m = m_events ?m \<and> ?bad d"
    by (rule failing_dequeue_never_leaves [rotated -1])
      (use demo_facts(2) in \<open>auto simp: fake_env_def fake_dequeue_frame_def fake_advance_def\<close>)
  with s show ?thesis by blast
qed

end
