(* ===== verification/Text.thy ===== *)
theory Text
  imports Prelude
begin

text \<open>
  The operations on \<open>std::string\<close> and \<open>std::string_view\<close> the source uses (searching,
  cutting, printing integers, splitting into lines), with the laws the components share. A
  \<open>char\<close> is a byte; \<open>byte\<close> is its unsigned value.
\<close>

abbreviation byte :: "char \<Rightarrow> nat" where
  "byte c \<equiv> of_char c"

definition newline :: char where
  "newline = CHR 0x0A"

definition carriage_return :: char where
  "carriage_return = CHR 0x0D"

definition quote :: char where
  "quote = CHR 0x22"

definition backslash :: char where
  "backslash = CHR 0x5C"

lemmas char_defs = newline_def carriage_return_def quote_def backslash_def

subsection \<open>Searching and cutting\<close>

text \<open>\<open>find\<close> of a character from the start, from a position, and from the end.\<close>

fun find_char :: "char \<Rightarrow> string \<Rightarrow> nat option" where
  "find_char c [] = None"
| "find_char c (x # xs) = (if x = c then Some 0 else map_option Suc (find_char c xs))"

definition find_from :: "char \<Rightarrow> string \<Rightarrow> nat \<Rightarrow> nat option" where
  "find_from c s pos = map_option (\<lambda>i. pos + i) (find_char c (drop pos s))"

definition rfind_char :: "char \<Rightarrow> string \<Rightarrow> nat option" where
  "rfind_char c s = map_option (\<lambda>i. length s - 1 - i) (find_char c (rev s))"

definition substr :: "string \<Rightarrow> nat \<Rightarrow> nat \<Rightarrow> string" where
  "substr s pos n = take n (drop pos s)"

definition starts_with :: "string \<Rightarrow> string \<Rightarrow> bool" where
  "starts_with p s \<longleftrightarrow> take (length p) s = p"

definition ends_with :: "string \<Rightarrow> string \<Rightarrow> bool" where
  "ends_with p s \<longleftrightarrow> starts_with (rev p) (rev s)"

lemma find_char_None [simp]: "find_char c s = None \<longleftrightarrow> c \<notin> set s"
  by (induction s) auto

lemma find_char_Some:
  "find_char c s = Some i \<longleftrightarrow> i < length s \<and> s ! i = c \<and> c \<notin> set (take i s)"
proof (induction s arbitrary: i)
  case Nil
  then show ?case by simp
next
  case (Cons x xs)
  then show ?case by (cases i) auto
qed

lemma find_char_append:
  "c \<notin> set xs \<Longrightarrow> find_char c (xs @ c # ys) = Some (length xs)"
  by (induction xs) auto

lemma find_char_split:
  assumes "find_char c s = Some i"
  shows "s = take i s @ c # drop (Suc i) s" and "c \<notin> set (take i s)"
  using assms by (auto simp: find_char_Some id_take_nth_drop)

lemma rfind_char_append:
  "c \<notin> set ys \<Longrightarrow> rfind_char c (xs @ c # ys) = Some (length xs)"
  by (simp add: rfind_char_def find_char_append)

lemma rfind_char_None [simp]: "rfind_char c s = None \<longleftrightarrow> c \<notin> set s"
  by (simp add: rfind_char_def)

lemma rfind_char_split:
  assumes "rfind_char c s = Some i"
  shows "s = take i s @ c # drop (Suc i) s" and "c \<notin> set (drop (Suc i) s)" and "i < length s"
proof -
  from assms obtain j where j: "find_char c (rev s) = Some j" "i = length s - 1 - j"
    by (auto simp: rfind_char_def)
  have jl: "j < length s" using j(1) by (simp add: find_char_Some)
  have n: "rev s ! j = c" "c \<notin> set (take j (rev s))" using j(1) by (simp_all add: find_char_Some)
  show "i < length s" using j jl by simp
  have "s ! i = c" using n(1) jl j(2) by (simp add: rev_nth)
  then show "s = take i s @ c # drop (Suc i) s" using id_take_nth_drop [OF \<open>i < length s\<close>] by simp
  have "Suc i = length s - j" using j jl by simp
  then show "c \<notin> set (drop (Suc i) s)" using n(2) by (simp add: take_rev)
qed

lemma starts_with_append [simp]: "starts_with p (p @ s)"
  by (simp add: starts_with_def)

subsection \<open>Lines\<close>

text \<open>The complete lines of a text, without their terminators, and what follows the last.\<close>

fun split_lines :: "string \<Rightarrow> string list \<times> string" where
  "split_lines [] = ([], [])"
| "split_lines (c # s) =
     (let (ls, t) = split_lines s
      in if c = newline then ([] # ls, t)
         else case ls of [] \<Rightarrow> ([], c # t) | l # ls \<Rightarrow> ((c # l) # ls, t))"

lemma split_lines_no_newline: "newline \<notin> set s \<Longrightarrow> split_lines s = ([], s)"
  by (induction s) (auto simp: Let_def)

lemma split_lines_line:
  "newline \<notin> set l \<Longrightarrow> split_lines (l @ newline # s) = (l # fst (split_lines s), snd (split_lines s))"
  by (induction l) (auto simp: Let_def split: prod.splits)

lemma split_lines_tail: "newline \<notin> set (snd (split_lines s))"
  by (induction s) (auto simp: Let_def split: prod.splits list.splits)

lemma split_lines_lines: "l \<in> set (fst (split_lines s)) \<Longrightarrow> newline \<notin> set l"
  by (induction s arbitrary: l) (fastforce simp: Let_def split: prod.splits list.splits if_splits)+

lemma split_lines_concat: "concat (map (\<lambda>l. l @ [newline]) (fst (split_lines s))) @ snd (split_lines s) = s"
  by (induction s) (auto simp: Let_def split: prod.splits list.splits)

lemma split_lines_of_lines:
  "\<forall>l \<in> set ls. newline \<notin> set l \<Longrightarrow>
     split_lines (concat (map (\<lambda>l. l @ [newline]) ls) @ s) = (ls @ fst (split_lines s), snd (split_lines s))"
  by (induction ls) (auto simp: split_lines_line)

text \<open>Splitting a text that arrives in two parts: only the unfinished line meets the second.\<close>

lemma split_lines_append:
  "split_lines (s @ t) =
     (fst (split_lines s) @ fst (split_lines (snd (split_lines s) @ t)),
      snd (split_lines (snd (split_lines s) @ t)))"
proof -
  let ?ls = "fst (split_lines s)" and ?u = "snd (split_lines s)"
  have "s @ t = concat (map (\<lambda>l. l @ [newline]) ?ls) @ (?u @ t)"
    using split_lines_concat [of s] by (metis append_assoc)
  then have "split_lines (s @ t) = split_lines (concat (map (\<lambda>l. l @ [newline]) ?ls) @ (?u @ t))"
    by (rule arg_cong)
  also have "\<dots> = (?ls @ fst (split_lines (?u @ t)), snd (split_lines (?u @ t)))"
    using split_lines_lines by (intro split_lines_of_lines) blast
  finally show ?thesis .
qed

subsection \<open>Printing and reading integers\<close>

definition digit_char :: "nat \<Rightarrow> char" where
  "digit_char d = char_of (48 + d)"

definition is_digit :: "char \<Rightarrow> bool" where
  "is_digit c \<longleftrightarrow> 48 \<le> byte c \<and> byte c \<le> 57"

definition digit_value :: "char \<Rightarrow> nat" where
  "digit_value c = byte c - 48"

function show_nat :: "nat \<Rightarrow> string" where
  "show_nat n = (if n < 10 then [digit_char n] else show_nat (n div 10) @ [digit_char (n mod 10)])"
  by pat_completeness auto
termination
  by (relation "measure id") auto

declare show_nat.simps [simp del]

definition show_int :: "int \<Rightarrow> string" where
  "show_int i = (if i < 0 then CHR ''-'' # show_nat (nat (- i)) else show_nat (nat i))"

definition digits_value :: "string \<Rightarrow> nat" where
  "digits_value s = foldl (\<lambda>v c. v * 10 + digit_value c) 0 s"

lemma byte_digit_char [simp]: "d < 10 \<Longrightarrow> byte (digit_char d) = 48 + d"
  by (simp add: digit_char_def)

lemma is_digit_char [simp]: "d < 10 \<Longrightarrow> is_digit (digit_char d)"
  by (simp add: is_digit_def)

lemma digit_value_char [simp]: "d < 10 \<Longrightarrow> digit_value (digit_char d) = d"
  by (simp add: digit_value_def)

lemma show_nat_nonempty [simp]: "show_nat n \<noteq> []"
  by (subst show_nat.simps) simp

lemma show_nat_digits: "c \<in> set (show_nat n) \<Longrightarrow> is_digit c"
proof (induction n rule: show_nat.induct)
  case (1 n)
  then show ?case by (subst (asm) show_nat.simps) (auto split: if_splits)
qed

lemma digits_value_snoc: "digits_value (s @ [c]) = digits_value s * 10 + digit_value c"
  by (simp add: digits_value_def)

lemma digits_value_show [simp]: "digits_value (show_nat n) = n"
proof (induction n rule: show_nat.induct)
  case (1 n)
  show ?case
  proof (cases "n < 10")
    case True
    then show ?thesis by (simp add: show_nat.simps digits_value_def)
  next
    case False
    with 1 show ?thesis by (simp add: show_nat.simps [of n] digits_value_snoc)
  qed
qed

lemma show_nat_inj [simp]: "show_nat a = show_nat b \<longleftrightarrow> a = b"
  by (metis digits_value_show)

text \<open>A digit is none of the characters with a meaning of their own.\<close>

lemma not_digit [simp]:
  "\<not> is_digit newline" "\<not> is_digit carriage_return" "\<not> is_digit quote" "\<not> is_digit backslash"
  "\<not> is_digit CHR ''-''" "\<not> is_digit CHR ''+''" "\<not> is_digit CHR '' ''" "\<not> is_digit CHR ''=''"
  "\<not> is_digit CHR '':''" "\<not> is_digit CHR ''.''" "\<not> is_digit CHR ''x''"
  by (simp_all add: is_digit_def char_defs)

lemma show_nat_no: "\<not> is_digit c \<Longrightarrow> c \<notin> set (show_nat n)"
  using show_nat_digits by blast

end
