(* ===== verification/Float_Text.thy ===== *)
theory Float_Text
  imports Doubles Text
begin

text \<open>
  Doubles as text, the way the C++ library does it in the C locale: \<open>std::stod\<close> on input
  (\<open>strtod\<close>, with an exception where nothing converts or the result is out of range) and
  \<open>ostream << double\<close> with its default precision of six significant digits on output.
  Here a double may be infinite, not a number or a negative zero, because the progress
  text may contain one, and the exponent range is that of binary64.
\<close>

datatype f64 = F_finite bool rat | F_inf bool | F_nan bool

text \<open>\<open>F_finite s m\<close> has sign \<open>s\<close> (true for negative) and magnitude \<open>m\<close>.\<close>

definition f64_of_double :: "double \<Rightarrow> f64" where
  "f64_of_double x = F_finite (x < 0) \<bar>x\<bar>"

subsection \<open>Reading\<close>

definition is_space :: "char \<Rightarrow> bool" where
  "is_space c \<longleftrightarrow> byte c = 32 \<or> (9 \<le> byte c \<and> byte c \<le> 13)"

definition lower :: "char \<Rightarrow> char" where
  "lower c = (if 65 \<le> byte c \<and> byte c \<le> 90 then char_of (byte c + 32) else c)"

definition is_hex_digit :: "char \<Rightarrow> bool" where
  "is_hex_digit c \<longleftrightarrow> is_digit c \<or> (97 \<le> byte (lower c) \<and> byte (lower c) \<le> 102)"

definition hex_value :: "char \<Rightarrow> nat" where
  "hex_value c = (if is_digit c then digit_value c else byte (lower c) - 87)"

text \<open>An optional sign: whether it is negative, and what follows.\<close>

fun parse_sign :: "string \<Rightarrow> bool \<times> string" where
  "parse_sign (c # s) = (if c = CHR ''-'' then (True, s) else if c = CHR ''+'' then (False, s) else (False, c # s))"
| "parse_sign [] = (False, [])"

text \<open>
  The exponent part: a letter, an optional sign and at least one digit, or else nothing is
  taken.
\<close>

definition parse_exponent :: "char \<Rightarrow> string \<Rightarrow> int \<times> string" where
  "parse_exponent letter s =
     (case s of
        [] \<Rightarrow> (0, s)
      | c # r \<Rightarrow>
          if lower c \<noteq> letter then (0, s)
          else let (neg, r) = parse_sign r;
                   ds = takeWhile is_digit r
               in if ds = [] then (0, s)
                  else ((if neg then - int (digits_value ds) else int (digits_value ds)),
                        dropWhile is_digit r))"

text \<open>
  A run of digits with an optional point, at least one digit in all: the digits before
  and after the point, and the rest.
\<close>

definition parse_digits :: "(char \<Rightarrow> bool) \<Rightarrow> string \<Rightarrow> (string \<times> string \<times> string) option" where
  "parse_digits digit s =
     (let ip = takeWhile digit s;
          r = dropWhile digit s;
          (fp, r') = (case r of c # t \<Rightarrow>
                        if c = CHR ''.'' then (takeWhile digit t, dropWhile digit t) else ([], r)
                      | [] \<Rightarrow> ([], r))
      in if ip = [] \<and> fp = [] then None else Some (ip, fp, r'))"

definition decimal_exact :: "string \<Rightarrow> (rat \<times> string) option" where
  "decimal_exact s =
     (case parse_digits is_digit s of
        None \<Rightarrow> None
      | Some (ip, fp, r) \<Rightarrow>
          let (e, r) = parse_exponent CHR ''e'' r
          in Some (of_nat (digits_value (ip @ fp)) * pow_rat 10 (e - int (length fp)), r))"

definition hex_exact :: "string \<Rightarrow> (rat \<times> string) option" where
  "hex_exact s =
     (case parse_digits is_hex_digit s of
        None \<Rightarrow> None
      | Some (ip, fp, r) \<Rightarrow>
          let (e, r) = parse_exponent CHR ''p'' r
          in Some (of_nat (foldl (\<lambda>v c. v * 16 + hex_value c) 0 (ip @ fp)) *
                     pow_rat 2 (e - 4 * int (length fp)), r))"

text \<open>
  Rounding a magnitude to binary64. \<^term>\<open>None\<close> is the range error: too large, or so
  small that precision was lost below the normal numbers.
\<close>

definition round_f64 :: "rat \<Rightarrow> rat option" where
  "round_f64 x =
     (if x = 0 then Some 0
      else let u = pow_rat 2 (max (ilog 2 x) (- 1022) - 52);
               y = of_int (rne (x / u)) * u
           in if pow_rat 2 1024 \<le> y then None
              else if rnd x < pow_rat 2 (- 1022) \<and> y \<noteq> x then None
              else Some y)"

definition starts_with_ci :: "string \<Rightarrow> string \<Rightarrow> bool" where
  "starts_with_ci p s \<longleftrightarrow> starts_with p (List.map lower s)"

text \<open>After \<open>nan\<close>, a parenthesised sequence of letters, digits and underscores belongs to it.\<close>

definition is_nan_char :: "char \<Rightarrow> bool" where
  "is_nan_char c \<longleftrightarrow> is_digit c \<or> (97 \<le> byte (lower c) \<and> byte (lower c) \<le> 122) \<or> byte c = 95"

definition skip_nan_payload :: "string \<Rightarrow> string" where
  "skip_nan_payload s =
     (case s of
        [] \<Rightarrow> s
      | c # r \<Rightarrow>
          if c \<noteq> CHR ''('' then s
          else case dropWhile is_nan_char r of
                 [] \<Rightarrow> s
               | d # r' \<Rightarrow> if d = CHR '')'' then r' else s)"

text \<open>\<open>strtod\<close> after the white space and the sign: the value, or none for a range error, and the rest.\<close>

definition strtod_body :: "bool \<Rightarrow> string \<Rightarrow> (f64 option \<times> string) option" where
  "strtod_body neg s =
     (if starts_with_ci ''infinity'' s then Some (Some (F_inf neg), drop 8 s)
      else if starts_with_ci ''inf'' s then Some (Some (F_inf neg), drop 3 s)
      else if starts_with_ci ''nan'' s then Some (Some (F_nan neg), skip_nan_payload (drop 3 s))
      else case (if starts_with_ci ''0x'' s then hex_exact (drop 2 s) else None) of
             Some (x, r) \<Rightarrow> Some (map_option (F_finite neg) (round_f64 x), r)
           | None \<Rightarrow>
               (case decimal_exact s of
                  None \<Rightarrow> None
                | Some (x, r) \<Rightarrow> Some (map_option (F_finite neg) (round_f64 x), r)))"

text \<open>\<open>std::stod\<close>: the value and the number of characters used; none where it throws.\<close>

definition stod :: "string \<Rightarrow> (f64 \<times> nat) option" where
  "stod s =
     (let (neg, r) = parse_sign (dropWhile is_space s)
      in case strtod_body neg r of
           None \<Rightarrow> None
         | Some (None, r) \<Rightarrow> None
         | Some (Some v, r) \<Rightarrow> Some (v, length s - length r))"

subsection \<open>Printing\<close>

text \<open>\<open>padded p k\<close>: the last \<open>p\<close> decimal digits of \<open>k\<close>, with leading zeros.\<close>

fun padded :: "nat \<Rightarrow> nat \<Rightarrow> string" where
  "padded 0 k = []"
| "padded (Suc p) k = padded p (k div 10) @ [digit_char (k mod 10)]"

definition strip_zeros :: "string \<Rightarrow> string" where
  "strip_zeros s = rev (dropWhile (\<lambda>c. c = CHR ''0'') (rev s))"

definition with_fraction :: "nat \<Rightarrow> string \<Rightarrow> string" where
  "with_fraction i fp = show_nat i @ (if fp = [] then [] else CHR ''.'' # fp)"

text \<open>
  A positive magnitude as six significant digits \<open>n\<close> and a decimal exponent \<open>e\<close>: the
  nearest such number, ties to even, as the library rounds the exact binary value.
\<close>

definition six_digits :: "rat \<Rightarrow> nat \<times> int" where
  "six_digits x =
     (let e = ilog 10 x;
          n = nat (rne (x * pow_rat 10 (5 - e)))
      in if n = 1000000 then (100000, e + 1) else (n, e))"

definition show_exponent :: "int \<Rightarrow> string" where
  "show_exponent e =
     ''e'' @ (if e < 0 then ''-'' else ''+'') @
     (if \<bar>e\<bar> < 10 then CHR ''0'' # show_nat (nat \<bar>e\<bar>) else show_nat (nat \<bar>e\<bar>))"

definition show_magnitude :: "rat \<Rightarrow> string" where
  "show_magnitude x =
     (if x = 0 then ''0''
      else let (n, e) = six_digits x
           in if e < - 4 \<or> 6 \<le> e
              then with_fraction (n div 10 ^ 5) (strip_zeros (padded 5 (n mod 10 ^ 5))) @ show_exponent e
              else let p = nat (5 - e)
                   in with_fraction (n div 10 ^ p) (strip_zeros (padded p (n mod 10 ^ p))))"

definition show_f64 :: "f64 \<Rightarrow> string" where
  "show_f64 v =
     (case v of
        F_finite neg m \<Rightarrow> (if neg then ''-'' else []) @ show_magnitude m
      | F_inf neg \<Rightarrow> (if neg then ''-'' else []) @ ''inf''
      | F_nan neg \<Rightarrow> (if neg then ''-'' else []) @ ''nan'')"

subsection \<open>What the printed text says\<close>

lemma digits_value_append: "digits_value (a @ b) = digits_value a * 10 ^ length b + digits_value b"
proof (induction b rule: rev_induct)
  case Nil
  then show ?case by (simp add: digits_value_def)
next
  case (snoc c b)
  have "digits_value (a @ b @ [c]) = digits_value (a @ b) * 10 + digit_value c"
    using digits_value_snoc [of "a @ b" c] by simp
  with snoc show ?case by (simp add: digits_value_snoc algebra_simps)
qed

lemma padded_length [simp]: "length (padded p k) = p"
  by (induction p arbitrary: k) simp_all

lemma padded_digits: "c \<in> set (padded p k) \<Longrightarrow> is_digit c"
  by (induction p arbitrary: k) auto

lemma padded_value: "digits_value (padded p k) = k mod 10 ^ p"
proof (induction p arbitrary: k)
  case 0
  then show ?case by (simp add: digits_value_def)
next
  case (Suc p)
  have "k mod (10 * 10 ^ p) = 10 * (k div 10 mod 10 ^ p) + k mod 10" by (rule mod_mult2_eq)
  moreover have "digits_value (padded (Suc p) k) = k div 10 mod 10 ^ p * 10 + k mod 10"
    by (simp add: digits_value_snoc Suc.IH)
  ultimately show ?case by (simp only: power_Suc mult.commute [of "k div 10 mod 10 ^ p" 10])
qed

lemma strip_zeros_split: "\<exists>z. s = strip_zeros s @ replicate z CHR ''0''"
proof (induction s rule: rev_induct)
  case Nil
  then show ?case by (simp add: strip_zeros_def)
next
  case (snoc c s)
  show ?case
  proof (cases "c = CHR ''0''")
    case True
    then have "strip_zeros (s @ [c]) = strip_zeros s" by (simp add: strip_zeros_def)
    moreover from snoc obtain z where "s = strip_zeros s @ replicate z CHR ''0''" by blast
    then have "s @ [c] = strip_zeros s @ replicate (Suc z) CHR ''0''"
      using True by (metis append_assoc replicate_append_same replicate_Suc)
    ultimately show ?thesis by metis
  next
    case False
    then have "s @ [c] = strip_zeros (s @ [c]) @ replicate 0 CHR ''0''" by (simp add: strip_zeros_def)
    then show ?thesis by blast
  qed
qed

lemma strip_zeros_digits: "\<forall>c \<in> set s. is_digit c \<Longrightarrow> \<forall>c \<in> set (strip_zeros s). is_digit c"
  unfolding strip_zeros_def by (auto dest: set_dropWhileD)

lemma digits_value_zeros [simp]: "digits_value (replicate z CHR ''0'') = 0"
  by (induction z) (simp_all add: digits_value_def digit_value_def flip: replicate_append_same)

text \<open>The value of a decimal numeral: dropping zeros at the end does not change it.\<close>

definition fraction_value :: "string \<Rightarrow> string \<Rightarrow> rat" where
  "fraction_value ip fp = of_nat (digits_value (ip @ fp)) / 10 ^ length fp"

lemma fraction_value_strip: "fraction_value ip (strip_zeros fp) = fraction_value ip fp"
proof -
  obtain z where z: "fp = strip_zeros fp @ replicate z CHR ''0''" using strip_zeros_split by blast
  have "digits_value (ip @ fp) = digits_value (ip @ strip_zeros fp) * 10 ^ z"
    by (subst z) (simp add: digits_value_append [of "ip @ strip_zeros fp", simplified])
  moreover have "length fp = length (strip_zeros fp) + z" by (subst z) simp
  ultimately show ?thesis by (simp add: fraction_value_def power_add)
qed

lemma fraction_value_padded:
  "fraction_value (show_nat (n div 10 ^ p)) (padded p (n mod 10 ^ p)) = of_nat n / 10 ^ p"
  by (simp add: fraction_value_def digits_value_append padded_value div_mult_mod_eq)

text \<open>Reading back what \<open>with_fraction\<close> wrote, up to a text that cannot continue it.\<close>

lemma takeWhile_show_nat:
  assumes "t = [] \<or> \<not> is_digit (hd t)"
  shows "takeWhile is_digit (show_nat i @ t) = show_nat i" "dropWhile is_digit (show_nat i @ t) = t"
  using assms by (cases t; simp add: takeWhile_append2 dropWhile_append2 show_nat_digits)+

lemma show_nat_span [simp]:
  "takeWhile is_digit (show_nat i) = show_nat i" "dropWhile is_digit (show_nat i) = []"
  by (auto simp: takeWhile_eq_all_conv dropWhile_eq_Nil_conv show_nat_digits)

lemma parse_digits_with_fraction:
  assumes fp: "\<forall>c \<in> set fp. is_digit c" and t: "t = [] \<or> (\<not> is_digit (hd t) \<and> hd t \<noteq> CHR ''.'')"
  shows "parse_digits is_digit (with_fraction i fp @ t) = Some (show_nat i, fp, t)"
proof (cases "fp = []")
  case True
  have "parse_digits is_digit (show_nat i @ t) = Some (show_nat i, [], t)"
    using t takeWhile_show_nat [of t i] by (cases t) (simp_all add: parse_digits_def Let_def)
  with True show ?thesis by (simp add: with_fraction_def)
next
  case False
  let ?t = "CHR ''.'' # fp @ t"
  have "takeWhile is_digit (fp @ t) = fp" "dropWhile is_digit (fp @ t) = t"
    using fp t by (cases t; simp add: takeWhile_append2 dropWhile_append2)+
  with takeWhile_show_nat [of ?t i] False show ?thesis
    by (simp add: parse_digits_def with_fraction_def Let_def)
qed

lemma parse_exponent_show: "parse_exponent CHR ''e'' (show_exponent e) = (e, [])"
proof -
  have ds: "takeWhile is_digit (show_nat k) = show_nat k" "dropWhile is_digit (show_nat k) = []" for k
    using takeWhile_show_nat [of "[]" k] by simp_all
  have z: "is_digit CHR ''0''" "digit_value CHR ''0'' = 0" by (simp_all add: is_digit_def digit_value_def)
  have v: "digits_value (CHR ''0'' # show_nat k) = k" for k
    using digits_value_append [of "[CHR ''0'']" "show_nat k"] z by (simp add: digits_value_def [of "[_]"])
  have l: "lower CHR ''e'' = CHR ''e''" by (simp add: lower_def)
  show ?thesis
    by (auto simp: parse_exponent_def show_exponent_def Let_def ds z v l)
qed

lemma powi_diff_nat: "(10::rat) powi (e - int k) = 10 powi e / 10 ^ k"
  by (simp add: power_int_diff)

lemma decimal_exact_fixed:
  assumes "p = nat (5 - e)" and "e \<le> 5"
  shows "decimal_exact (with_fraction (n div 10 ^ p) (strip_zeros (padded p (n mod 10 ^ p)))) =
    Some (of_nat n * 10 powi (e - 5), [])"
proof -
  let ?fp = "strip_zeros (padded p (n mod 10 ^ p))"
  have fp: "\<forall>c \<in> set ?fp. is_digit c" by (intro strip_zeros_digits) (auto dest: padded_digits)
  have "fraction_value (show_nat (n div 10 ^ p)) ?fp = of_nat n * 10 powi (e - 5)"
    using assms powi_diff_nat [of 0 p] by (simp add: fraction_value_strip fraction_value_padded field_simps power_int_minus)
  with parse_digits_with_fraction [OF fp, of "[]" "n div 10 ^ p"] show ?thesis
    by (simp add: decimal_exact_def parse_exponent_def fraction_value_def pow_rat_powi powi_diff_nat [of 0, simplified])
qed

lemma decimal_exact_scientific:
  "decimal_exact (with_fraction (n div 10 ^ 5) (strip_zeros (padded 5 (n mod 10 ^ 5))) @ show_exponent e) =
    Some (of_nat n * 10 powi (e - 5), [])"
proof -
  let ?fp = "strip_zeros (padded 5 (n mod 10 ^ 5))"
  have fp: "\<forall>c \<in> set ?fp. is_digit c" by (intro strip_zeros_digits) (auto dest: padded_digits)
  have h: "show_exponent e \<noteq> []" "\<not> is_digit (hd (show_exponent e))" "hd (show_exponent e) \<noteq> CHR ''.''"
    by (simp_all add: show_exponent_def is_digit_def)
  have "fraction_value (show_nat (n div 10 ^ 5)) ?fp = of_nat n / 10 ^ 5"
    by (simp only: fraction_value_strip fraction_value_padded)
  then have "of_nat (digits_value (show_nat (n div 10 ^ 5) @ ?fp)) / 10 ^ length ?fp = (of_nat n / 10 ^ 5 :: rat)"
    by (simp only: fraction_value_def)
  moreover have "of_nat (digits_value (show_nat (n div 10 ^ 5) @ ?fp)) * 10 powi (e - int (length ?fp)) =
      10 powi e * (of_nat (digits_value (show_nat (n div 10 ^ 5) @ ?fp)) / 10 ^ length ?fp :: rat)"
    unfolding powi_diff_nat by (simp only: times_divide_eq_right times_divide_eq_left mult.commute)
  moreover have "10 powi e * (of_nat n / 10 ^ 5) = of_nat n * (10 powi (e - 5) :: rat)"
    using powi_diff_nat [of e 5] by simp
  ultimately have "of_nat (digits_value (show_nat (n div 10 ^ 5) @ ?fp)) * 10 powi (e - int (length ?fp)) =
      of_nat n * (10 powi (e - 5) :: rat)"
    by (simp only:)
  with parse_digits_with_fraction [OF fp, of "show_exponent e" "n div 10 ^ 5"] h show ?thesis
    by (simp add: decimal_exact_def parse_exponent_show pow_rat_powi)
qed

definition decimal_value :: "nat \<times> int \<Rightarrow> rat" where
  "decimal_value ne = of_nat (fst ne) * 10 powi (snd ne - 5)"

text \<open>The printed digits of a positive number denote the number rounded to six digits.\<close>

lemma show_magnitude_value:
  assumes "0 < x"
  shows "decimal_exact (show_magnitude x) = Some (decimal_value (six_digits x), [])"
proof -
  obtain n e where ne: "six_digits x = (n, e)" by fastforce
  show ?thesis
  proof (cases "e < - 4 \<or> 6 \<le> e")
    case True
    with assms ne show ?thesis
      by (simp add: show_magnitude_def decimal_value_def decimal_exact_scientific [simplified])
  next
    case False
    with assms ne show ?thesis
      by (simp add: show_magnitude_def decimal_value_def Let_def decimal_exact_fixed)
  qed
qed

text \<open>Six digits are within half a unit of the sixth digit, a relative error of 5e-6 at most.\<close>

lemma six_digits_close:
  assumes x: "0 < x"
  shows "\<bar>decimal_value (six_digits x) - x\<bar> \<le> x / 200000"
proof -
  define e where "e = ilog 10 x"
  define y where "y = x * 10 powi (5 - e)"
  have b: "10 powi e \<le> x" "x < 10 powi (e + 1)" using ilog_bounds [of 10 x] x by (simp_all add: e_def)
  have p: "(0::rat) < 10 powi k" for k by (simp add: zero_less_power_int)
  have undo: "y * 10 powi (e - 5) = x"
  proof -
    have "(10::rat) powi (5 - e) * 10 powi (e - 5) = 1" by (simp flip: power_int_add)
    then show ?thesis by (simp add: y_def mult.assoc)
  qed
  have "10 powi e * 10 powi (5 - e) \<le> y" unfolding y_def using b p by (intro mult_right_mono) (simp_all add: less_imp_le)
  then have y: "10 ^ 5 \<le> y" by (simp flip: power_int_add)
  define n where "n = nat (rne y)"
  have r: "\<bar>of_int (rne y) - y\<bar> \<le> 1 / 2" by (rule rne_err)
  have "0 \<le> rne y"
  proof -
    have "of_int 0 \<le> y" using y by simp
    then show ?thesis using rne_between [of 0 y "\<lceil>y\<rceil>"] by simp
  qed
  then have n: "(of_nat n :: rat) = of_int (rne y)" by (simp add: n_def)
  have v: "decimal_value (six_digits x) = of_nat n * 10 powi (e - 5)"
  proof (cases "n = 1000000")
    case True
    have "(10::rat) powi (e - 4) = 10 powi (e - 5) * 10" using power_int_add [of "10::rat" "e - 5" 1] by simp
    with True show ?thesis
      by (simp add: six_digits_def decimal_value_def Let_def pow_rat_powi n_def y_def e_def)
  next
    case False
    then show ?thesis
      by (simp add: six_digits_def decimal_value_def Let_def pow_rat_powi n_def y_def e_def)
  qed
  have "decimal_value (six_digits x) - x = (of_int (rne y) - y) * 10 powi (e - 5)"
    unfolding v n using undo by (simp add: left_diff_distrib)
  then have "\<bar>decimal_value (six_digits x) - x\<bar> = \<bar>of_int (rne y) - y\<bar> * 10 powi (e - 5)"
    by (simp add: abs_mult)
  also have "\<dots> \<le> 1 / 2 * 10 powi (e - 5)" using r p by (intro mult_right_mono) (simp_all add: less_imp_le)
  also have "\<dots> = 10 powi e / 200000" using powi_diff_nat [of e 5] by simp
  also have "\<dots> \<le> x / 200000" using b by simp
  finally show ?thesis .
qed

end
