(* ===== verification/Progress_Parser.thy ===== *)
theory Progress_Parser
  imports Float_Text
begin

text \<open>
  \<^verbatim>\<open>producer_stats.hpp\<close>, \<^verbatim>\<open>progress_parser.hpp\<close> and
  \<^verbatim>\<open>progress_parser.cpp\<close>: ffmpeg's key=value progress text into the producer's
  statistics. The parser's specification is line by line: the complete lines of the bytes
  received, each applied in order, with the unfinished line kept. The index loop of
  \<open>feed()\<close> is shown to implement it for every way the bytes are cut into chunks.
\<close>

record producer_stats =
  ps_frames_total :: u64
  ps_fps :: f64
  ps_dropped_frames_total :: u64
  ps_duplicated_frames_total :: u64
  ps_speed_ratio :: f64
  ps_connected :: bool
  ps_last_update_unixtime :: int

definition producer_stats_new :: producer_stats where
  "producer_stats_new =
     \<lparr>ps_frames_total = 0, ps_fps = F_finite False 0, ps_dropped_frames_total = 0,
      ps_duplicated_frames_total = 0, ps_speed_ratio = F_finite False 0, ps_connected = False,
      ps_last_update_unixtime = 0\<rparr>"

record progress_parser =
  pp_stats :: producer_stats
  pp_buffer :: string

definition progress_parser_new :: "producer_stats \<Rightarrow> progress_parser" where
  "progress_parser_new stats = \<lparr>pp_stats = stats, pp_buffer = []\<rparr>"

definition kMaxBufferedLine :: nat where
  "kMaxBufferedLine = 65536"

subsection \<open>Values\<close>

fun parse_u64_loop :: "u64 \<Rightarrow> string \<Rightarrow> u64 option" where
  "parse_u64_loop value [] = Some value"
| "parse_u64_loop value (c # s) =
     (if \<not> is_digit c then None else parse_u64_loop (value * 10 + of_nat (digit_value c)) s)"

definition parse_u64 :: "string \<Rightarrow> u64 option" where
  "parse_u64 s = (if s = [] then None else parse_u64_loop 0 s)"

definition parse_double :: "string \<Rightarrow> f64 option" where
  "parse_double s =
     (if s = [] then None
      else case stod s of
             None \<Rightarrow> None
           | Some (v, pos) \<Rightarrow> if pos \<noteq> length s then None else Some v)"

subsection \<open>Lines\<close>

definition strip_suffix :: "char \<Rightarrow> string \<Rightarrow> string" where
  "strip_suffix c s = (if s \<noteq> [] \<and> last s = c then butlast s else s)"

text \<open>
  One line. \<open>wall\<close> is the wall clock: it is read, and its state \<open>w\<close> changes, only on a
  line that ends a block.
\<close>

definition apply_pair ::
  "('w \<Rightarrow> ns \<times> 'w) \<Rightarrow> string \<Rightarrow> string \<Rightarrow> producer_stats \<times> 'w \<Rightarrow> producer_stats \<times> 'w" where
  "apply_pair wall key val s =
     (case s of (st, w) \<Rightarrow>
        if key = ''frame''
        then (case parse_u64 val of None \<Rightarrow> (st, w) | Some v \<Rightarrow> (st\<lparr>ps_frames_total := v\<rparr>, w))
        else if key = ''fps''
        then (case (if val \<noteq> ''N/A'' then parse_double val else None) of
                None \<Rightarrow> (st, w) | Some v \<Rightarrow> (st\<lparr>ps_fps := v\<rparr>, w))
        else if key = ''drop_frames''
        then (case parse_u64 val of
                None \<Rightarrow> (st, w) | Some v \<Rightarrow> (st\<lparr>ps_dropped_frames_total := v\<rparr>, w))
        else if key = ''dup_frames''
        then (case parse_u64 val of
                None \<Rightarrow> (st, w) | Some v \<Rightarrow> (st\<lparr>ps_duplicated_frames_total := v\<rparr>, w))
        else if key = ''speed''
        then (let numeric = strip_suffix CHR ''x'' val
              in case (if numeric \<noteq> ''N/A'' then parse_double numeric else None) of
                   None \<Rightarrow> (st, w) | Some v \<Rightarrow> (st\<lparr>ps_speed_ratio := v\<rparr>, w))
        else if key = ''progress''
        then (let (now, w) = wall w in (st\<lparr>ps_last_update_unixtime := s_of_ns now\<rparr>, w))
        else (st, w))"

definition parse_line ::
  "('w \<Rightarrow> ns \<times> 'w) \<Rightarrow> string \<Rightarrow> producer_stats \<times> 'w \<Rightarrow> producer_stats \<times> 'w" where
  "parse_line wall line s =
     (let line = strip_suffix carriage_return line
      in case find_char CHR ''='' line of
           None \<Rightarrow> s
         | Some eq \<Rightarrow> apply_pair wall (take eq line) (drop (eq + 1) line) s)"

subsection \<open>The feed loop\<close>

text \<open>
  The loop over the buffer: from the index \<open>consumed\<close> the next newline is searched and the
  line before it parsed. It returns the last index and the new statistics.
\<close>

function feed_loop ::
  "('w \<Rightarrow> ns \<times> 'w) \<Rightarrow> string \<Rightarrow> nat \<Rightarrow> producer_stats \<times> 'w \<Rightarrow> nat \<times> producer_stats \<times> 'w" where
  "feed_loop wall buffer consumed s =
     (case find_from newline buffer consumed of
        None \<Rightarrow> (consumed, s)
      | Some nl \<Rightarrow>
          feed_loop wall buffer (nl + 1) (parse_line wall (substr buffer consumed (nl - consumed)) s))"
  by pat_completeness auto
termination
  by (relation "measure (\<lambda>(wall, buffer, consumed, s). length buffer - consumed)")
    (auto simp: find_from_def find_char_Some)

declare feed_loop.simps [simp del]

definition feed ::
  "('w \<Rightarrow> ns \<times> 'w) \<Rightarrow> string \<Rightarrow> progress_parser \<times> 'w \<Rightarrow> progress_parser \<times> 'w" where
  "feed wall chunk s =
     (case s of (p, w) \<Rightarrow>
        let p = p\<lparr>pp_buffer := pp_buffer p @ chunk\<rparr>
        in if kMaxBufferedLine < length (pp_buffer p) then (p\<lparr>pp_buffer := []\<rparr>, w)
           else let (consumed, st, w) = feed_loop wall (pp_buffer p) 0 (pp_stats p, w)
                in (p\<lparr>pp_stats := st, pp_buffer := drop consumed (pp_buffer p)\<rparr>, w))"

subsection \<open>The loop implements the line by line specification\<close>

definition parse_lines ::
  "('w \<Rightarrow> ns \<times> 'w) \<Rightarrow> string list \<Rightarrow> producer_stats \<times> 'w \<Rightarrow> producer_stats \<times> 'w" where
  "parse_lines wall ls s = fold (parse_line wall) ls s"

lemma parse_lines_append: "parse_lines wall (a @ b) s = parse_lines wall b (parse_lines wall a s)"
  by (simp add: parse_lines_def)

lemma feed_loop_lines:
  assumes "consumed \<le> length buffer"
  shows "feed_loop wall buffer consumed s =
    (length buffer - length (snd (split_lines (drop consumed buffer))),
     parse_lines wall (fst (split_lines (drop consumed buffer))) s)"
  using assms
proof (induction wall buffer consumed s rule: feed_loop.induct)
  case (1 wall buffer consumed s)
  let ?d = "drop consumed buffer"
  show ?case
  proof (cases "find_char newline ?d")
    case None
    then have "split_lines ?d = ([], ?d)" by (simp add: split_lines_no_newline)
    moreover have "find_from newline buffer consumed = None" using None by (simp add: find_from_def)
    ultimately show ?thesis
      using "1.prems" by (simp add: feed_loop.simps [of wall buffer consumed s] parse_lines_def)
  next
    case (Some i)
    note split = find_char_split [OF Some]
    have i: "i < length ?d" using Some by (simp add: find_char_Some)
    have rest: "drop (Suc i) ?d = drop (consumed + i + 1) buffer" by (simp add: add.commute)
    have lines: "split_lines ?d =
        (take i ?d # fst (split_lines (drop (consumed + i + 1) buffer)),
         snd (split_lines (drop (consumed + i + 1) buffer)))"
      using split_lines_line [OF split(2)] split(1) rest by metis
    have nl: "find_from newline buffer consumed = Some (consumed + i)" by (simp add: find_from_def Some)
    have "consumed + i + 1 \<le> length buffer" using i by simp
    from "1.IH" [OF nl this] nl lines show ?thesis
      by (simp add: feed_loop.simps [of wall buffer consumed s] substr_def parse_lines_def)
  qed
qed

lemma feed_within:
  assumes "length (pp_buffer p @ chunk) \<le> kMaxBufferedLine"
  shows "feed wall chunk (p, w) =
    (let (ls, rest) = split_lines (pp_buffer p @ chunk);
         (st, w) = parse_lines wall ls (pp_stats p, w)
     in (p\<lparr>pp_stats := st, pp_buffer := rest\<rparr>, w))"
proof -
  let ?b = "pp_buffer p @ chunk"
  have "length (snd (split_lines ?b)) \<le> length ?b"
    using arg_cong [OF split_lines_concat [of ?b], of length] by simp
  moreover have "drop (length ?b - length (snd (split_lines ?b))) ?b = snd (split_lines ?b)"
    by (subst (3) split_lines_concat [of ?b, symmetric]) (metis append_eq_conv_conj length_append diff_add_inverse2 split_lines_concat)
  ultimately show ?thesis
    using assms by (simp add: feed_def feed_loop_lines Let_def split: prod.splits)
qed

lemma feed_overflow:
  "kMaxBufferedLine < length (pp_buffer p @ chunk) \<Longrightarrow>
     feed wall chunk (p, w) = (p\<lparr>pp_buffer := []\<rparr>, w)"
  by (simp add: feed_def)

subsection \<open>Any way of cutting the bytes gives the same result\<close>

definition feed_all ::
  "('w \<Rightarrow> ns \<times> 'w) \<Rightarrow> string list \<Rightarrow> progress_parser \<times> 'w \<Rightarrow> progress_parser \<times> 'w" where
  "feed_all wall chunks s = fold (feed wall) chunks s"

text \<open>The specification: what the bytes received so far mean, however they were cut.\<close>

definition feed_spec ::
  "('w \<Rightarrow> ns \<times> 'w) \<Rightarrow> string \<Rightarrow> progress_parser \<times> 'w \<Rightarrow> progress_parser \<times> 'w" where
  "feed_spec wall text s =
     (case s of (p, w) \<Rightarrow>
        let (ls, rest) = split_lines (pp_buffer p @ text);
            (st, w) = parse_lines wall ls (pp_stats p, w)
        in (p\<lparr>pp_stats := st, pp_buffer := rest\<rparr>, w))"

text \<open>No chunk runs into the bound on the buffer.\<close>

fun fits :: "string \<Rightarrow> string list \<Rightarrow> bool" where
  "fits buffer [] = True"
| "fits buffer (c # cs) =
     (length (buffer @ c) \<le> kMaxBufferedLine \<and> fits (snd (split_lines (buffer @ c))) cs)"

lemma feed_spec_append: "feed_spec wall (a @ b) s = feed_spec wall b (feed_spec wall a s)"
proof (cases s)
  case (Pair p w)
  let ?a = "split_lines (pp_buffer p @ a)"
  obtain st w1 where 1: "parse_lines wall (fst ?a) (pp_stats p, w) = (st, w1)" by fastforce
  obtain st2 w2 where 2: "parse_lines wall (fst (split_lines (snd ?a @ b))) (st, w1) = (st2, w2)" by fastforce
  show ?thesis
    using split_lines_append [of "pp_buffer p @ a" b] 1 2 Pair
    by (simp add: feed_spec_def parse_lines_append Let_def case_prod_beta)
qed

lemma feed_spec_nothing: "newline \<notin> set (pp_buffer (fst s)) \<Longrightarrow> feed_spec wall [] s = s"
  by (cases s) (simp add: feed_spec_def split_lines_no_newline parse_lines_def)

lemma feed_spec_within:
  "length (pp_buffer p @ chunk) \<le> kMaxBufferedLine \<Longrightarrow> feed wall chunk (p, w) = feed_spec wall chunk (p, w)"
  by (simp add: feed_within feed_spec_def)

lemma feed_spec_buffer: "pp_buffer (fst (feed_spec wall t s)) = snd (split_lines (pp_buffer (fst s) @ t))"
  by (cases s) (simp add: feed_spec_def Let_def case_prod_beta)

lemma feed_all_fits:
  "fits (pp_buffer (fst s)) cs \<Longrightarrow> newline \<notin> set (pp_buffer (fst s)) \<Longrightarrow>
     feed_all wall cs s = feed_spec wall (concat cs) s"
proof (induction cs arbitrary: s)
  case Nil
  then show ?case by (simp add: feed_all_def feed_spec_nothing)
next
  case (Cons c cs)
  let ?s = "feed_spec wall c s"
  have "feed wall c s = ?s" using Cons.prems(1) by (cases s) (simp add: feed_spec_within)
  moreover have "fits (pp_buffer (fst ?s)) cs" using Cons.prems(1) by (simp add: feed_spec_buffer)
  moreover have "newline \<notin> set (pp_buffer (fst ?s))" by (simp add: feed_spec_buffer split_lines_tail)
  ultimately show ?case using Cons.IH [of ?s] by (simp add: feed_all_def feed_spec_append)
qed

text \<open>Enough room: short lines and chunks of a bounded size.\<close>

definition short_lines :: "nat \<Rightarrow> string \<Rightarrow> bool" where
  "short_lines n t \<longleftrightarrow>
     (\<forall>l \<in> set (fst (split_lines t)). length l \<le> n) \<and> length (snd (split_lines t)) \<le> n"

lemma short_lines_prefix:
  assumes "newline \<notin> set b" and "short_lines n (b @ t)"
  shows "length b \<le> n"
proof (cases "find_char newline t")
  case None
  with assms show ?thesis by (simp add: short_lines_def split_lines_no_newline)
next
  case (Some i)
  note t = find_char_split [OF Some]
  have "newline \<notin> set (b @ take i t)" using assms(1) t(2) by simp
  then have "split_lines ((b @ take i t) @ newline # drop (Suc i) t) =
      ((b @ take i t) # fst (split_lines (drop (Suc i) t)), snd (split_lines (drop (Suc i) t)))"
    by (rule split_lines_line)
  moreover have "(b @ take i t) @ newline # drop (Suc i) t = b @ t" using t(1) by simp
  ultimately have "split_lines (b @ t) =
      ((b @ take i t) # fst (split_lines (drop (Suc i) t)), snd (split_lines (drop (Suc i) t)))"
    by simp
  with assms(2) show ?thesis by (simp add: short_lines_def)
qed

lemma short_lines_rest: "short_lines n (s @ t) \<Longrightarrow> short_lines n (snd (split_lines s) @ t)"
  using split_lines_append [of s t] by (simp add: short_lines_def)

lemma short_lines_fits:
  assumes "short_lines n (b @ concat cs)" and "newline \<notin> set b"
    and "\<forall>c \<in> set cs. length c \<le> k" and "n + k \<le> kMaxBufferedLine"
  shows "fits b cs"
  using assms
proof (induction cs arbitrary: b)
  case Nil
  then show ?case by simp
next
  case (Cons c cs)
  have "length b \<le> n" using short_lines_prefix [OF Cons.prems(2,1)] .
  moreover have "short_lines n (snd (split_lines (b @ c)) @ concat cs)"
    using short_lines_rest [of n "b @ c" "concat cs"] Cons.prems(1) by simp
  then have "fits (snd (split_lines (b @ c))) cs"
    using Cons.prems by (intro Cons.IH) (simp_all add: split_lines_tail)
  ultimately show ?case using Cons.prems(3,4) by simp
qed

text \<open>Whatever is fed, the buffer stays bounded and holds no complete line.\<close>

lemma feed_buffer:
  "length (pp_buffer (fst (feed wall chunk s))) \<le> kMaxBufferedLine \<and>
   newline \<notin> set (pp_buffer (fst (feed wall chunk s)))"
proof (cases s)
  case (Pair p w)
  let ?b = "pp_buffer p @ chunk"
  show ?thesis
  proof (cases "length ?b \<le> kMaxBufferedLine")
    case True
    have "length (snd (split_lines ?b)) \<le> length ?b"
      using arg_cong [OF split_lines_concat [of ?b], of length] by simp
    with True Pair show ?thesis
      by (simp add: feed_spec_within feed_spec_buffer split_lines_tail)
  next
    case False
    with Pair show ?thesis by (simp add: feed_overflow)
  qed
qed

subsection \<open>Values\<close>

lemma parse_u64_loop_Some:
  "parse_u64_loop v s = Some r \<longleftrightarrow>
     (\<forall>c \<in> set s. is_digit c) \<and> r = v * 10 ^ length s + of_nat (digits_value s)"
proof (induction s arbitrary: v)
  case Nil
  then show ?case by (auto simp: digits_value_def)
next
  case (Cons c s)
  have "digits_value (c # s) = digit_value c * 10 ^ length s + digits_value s"
    using digits_value_append [of "[c]" s] by (simp add: digits_value_def [of "[c]"])
  with Cons show ?case by (auto simp: algebra_simps)
qed

lemma parse_u64_Some:
  "parse_u64 s = Some r \<longleftrightarrow>
     s \<noteq> [] \<and> (\<forall>c \<in> set s. is_digit c) \<and> r = of_nat (digits_value s)"
  by (simp add: parse_u64_def parse_u64_loop_Some)

lemma parse_u64_show [simp]: "parse_u64 (show_nat n) = Some (of_nat n)"
  by (simp add: parse_u64_Some show_nat_digits)

text \<open>A line that is a key, an equals sign and a value.\<close>

lemma strip_suffix_snoc: "x \<noteq> c \<Longrightarrow> strip_suffix c (s @ [x]) = s @ [x]"
  by (simp add: strip_suffix_def)

lemma parse_line_pair:
  assumes "CHR ''='' \<notin> set key" and "val = [] \<or> last val \<noteq> carriage_return"
  shows "parse_line wall (key @ CHR ''='' # val) s = apply_pair wall key val s"
proof -
  have "strip_suffix carriage_return (key @ CHR ''='' # val) = key @ CHR ''='' # val"
    using assms(2) by (auto simp: strip_suffix_def carriage_return_def)
  with find_char_append [OF assms(1), of val] show ?thesis by (simp add: parse_line_def)
qed

lemma parse_line_crlf:
  "find_char CHR ''='' (l @ [carriage_return]) \<noteq> None \<Longrightarrow> l \<noteq> [] \<Longrightarrow> last l \<noteq> carriage_return \<Longrightarrow>
     parse_line wall (l @ [carriage_return]) s = parse_line wall l s"
  by (simp add: parse_line_def strip_suffix_def)

end
