(* ===== verification/Metrics_Text.thy ===== *)
theory Metrics_Text
  imports Stats Progress_Parser
begin

text \<open>
  \<^verbatim>\<open>metrics_primitives.cpp\<close>, \<^verbatim>\<open>metrics.cpp\<close> and
  \<^verbatim>\<open>exporter_metrics.cpp\<close>: the statistics as Prometheus text. A writer returns
  the text it appends to the stream. The specification is what a scraper reads back: the
  sequence of (sample, value) pairs of the lines that are not comments.
\<close>

subsection \<open>Primitives\<close>

definition show_u64 :: "u64 \<Rightarrow> string" where
  "show_u64 w = show_nat (unat w)"

definition show_u32 :: "u32 \<Rightarrow> string" where
  "show_u32 w = show_nat (unat w)"

definition format_metric_double :: "f64 \<Rightarrow> string" where
  "format_metric_double v = show_f64 v"

record metric_label =
  ml_name :: string
  ml_value :: string

definition write_metric_header :: "string \<Rightarrow> string \<Rightarrow> string \<Rightarrow> string" where
  "write_metric_header name help type =
     ''# HELP '' @ name @ '' '' @ help @ [newline] @
     ''# TYPE '' @ name @ '' '' @ type @ [newline]"

fun label_loop :: "nat \<Rightarrow> metric_label list \<Rightarrow> string" where
  "label_loop i [] = []"
| "label_loop i (l # ls) =
     (if 0 < i then '','' else []) @ ml_name l @ ''='' @ [quote] @ ml_value l @ [quote] @
     label_loop (i + 1) ls"

definition write_metric_sample :: "string \<Rightarrow> string \<Rightarrow> metric_label list \<Rightarrow> string" where
  "write_metric_sample name val labels =
     name @ (if labels \<noteq> [] then ''{'' @ label_loop 0 labels @ ''}'' else []) @
     '' '' @ val @ [newline]"

definition write_counter :: "string \<Rightarrow> string \<Rightarrow> u64 \<Rightarrow> string" where
  "write_counter name help val =
     write_metric_header name help ''counter'' @ write_metric_sample name (show_u64 val) []"

definition write_gauge :: "string \<Rightarrow> string \<Rightarrow> string \<Rightarrow> string" where
  "write_gauge name help val =
     write_metric_header name help ''gauge'' @ write_metric_sample name val []"

subsection \<open>The capture daemon\<close>

record build_info =
  bi_version :: string
  bi_git_sha :: string

text \<open>The loop over the bounds: \<open>i\<close> is its index, \<open>cumulative\<close> the running count.\<close>

fun bucket_loop :: "string \<Rightarrow> double list \<Rightarrow> u64 list \<Rightarrow> nat \<Rightarrow> u64 \<Rightarrow> string \<times> u64" where
  "bucket_loop name [] counts i cumulative = ([], cumulative)"
| "bucket_loop name (b # bs) counts i cumulative =
     (let cumulative = cumulative + counts ! i;
          (rest, final) = bucket_loop name bs counts (i + 1) cumulative
      in (name @ ''_bucket{le='' @ [quote] @ format_metric_double (f64_of_double b) @ [quote] @ ''} '' @
          show_u64 cumulative @ [newline] @ rest, final))"

definition write_histogram :: "string \<Rightarrow> string \<Rightarrow> histogram \<Rightarrow> string" where
  "write_histogram name help hist =
     (let (counts, sum, count) = histogram_snapshot hist;
          (buckets, cumulative) = bucket_loop name (h_bounds hist) counts 0 0;
          cumulative = cumulative + last counts
      in ''# HELP '' @ name @ '' '' @ help @ [newline] @
         ''# TYPE '' @ name @ '' histogram'' @ [newline] @
         buckets @
         name @ ''_bucket{le='' @ [quote] @ ''+Inf'' @ [quote] @ ''} '' @ show_u64 cumulative @ [newline] @
         name @ ''_sum '' @ show_f64 (f64_of_double sum) @ [newline] @
         name @ ''_count '' @ show_u64 count @ [newline])"

text \<open>\<open>static_cast<ErrorReason>(i)\<close> for the indices of the loop.\<close>

definition error_reason_of_code :: "nat \<Rightarrow> error_reason" where
  "error_reason_of_code i =
     (if i < 7
      then [ER_Open, ER_Format, ER_Buffer, ER_Timeout, ER_Dequeue, ER_DeviceLost, ER_Geometry] ! i
      else ER_Count)"

lemma error_reason_of_code [simp]: "error_reason_of_code (error_reason_code r) = r"
  by (cases r) (simp_all add: error_reason_of_code_def)

text \<open>The loop over the error reasons from index \<open>i\<close>, \<open>n\<close> of them left.\<close>

fun error_loop :: "capture_stats \<Rightarrow> nat \<Rightarrow> nat \<Rightarrow> string option" where
  "error_loop st 0 i = Some []"
| "error_loop st (Suc n) i = do {
     let reason = error_reason_of_code i;
     c \<leftarrow> error_count reason st;
     rest \<leftarrow> error_loop st n (i + 1);
     Some (write_metric_sample ''hamstercam_capture_errors_total'' (show_u64 c)
             [\<lparr>ml_name = ''reason'', ml_value = error_reason_to_string reason\<rparr>] @ rest)
   }"

definition stream_info_text :: "capture_stats \<Rightarrow> string" where
  "stream_info_text st =
     (case stream_info st of
        None \<Rightarrow> []
      | Some format \<Rightarrow>
          write_metric_header ''hamstercam_stream_info'' ''Observed stream format.'' ''gauge'' @
          write_metric_sample ''hamstercam_stream_info'' ''1''
            [\<lparr>ml_name = ''width'', ml_value = show_u32 (sf_width format)\<rparr>,
             \<lparr>ml_name = ''height'', ml_value = show_u32 (sf_height format)\<rparr>,
             \<lparr>ml_name = ''pixel_format'', ml_value = pixel_format_string format\<rparr>])"

definition render_metrics :: "capture_stats \<Rightarrow> build_info \<Rightarrow> double \<Rightarrow> u64 \<Rightarrow> string option" where
  "render_metrics st build uptime_seconds resident_bytes = do {
     errors \<leftarrow> error_loop st kErrorReasonCount 0;
     Some
       (write_counter ''hamstercam_frames_received_total'' ''Frames dequeued.'' (st_frames_received st) @
        write_counter ''hamstercam_bytes_received_total'' ''Payload bytes across received frames.''
          (st_bytes_received st) @
        write_histogram ''hamstercam_frame_interval_seconds'' ''Observed inter-frame gap.''
          (st_frame_interval_seconds st) @
        write_gauge ''hamstercam_capture_state'' ''Capture state machine state.''
          (show_int (st_capture_state st)) @
        write_metric_header ''hamstercam_capture_errors_total'' ''Capture errors by reason.'' ''counter'' @
        errors @
        write_counter ''hamstercam_reconnects_total'' ''Successful reconnections.'' (st_reconnects st) @
        write_counter ''hamstercam_stalls_total'' ''Stall events entered.'' (st_stalls st) @
        write_gauge ''hamstercam_last_frame_unixtime_seconds'' ''Wall-clock time of the last frame.''
          (show_int (st_last_frame_unixtime st)) @
        stream_info_text st @
        write_metric_header ''hamstercam_build_info'' ''Build version and git SHA.'' ''gauge'' @
        write_metric_sample ''hamstercam_build_info'' ''1''
          [\<lparr>ml_name = ''version'', ml_value = bi_version build\<rparr>,
           \<lparr>ml_name = ''git_sha'', ml_value = bi_git_sha build\<rparr>] @
        write_gauge ''hamstercam_process_resident_bytes'' ''Resident memory, for the flatness check.''
          (show_u64 resident_bytes) @
        write_gauge ''hamstercam_uptime_seconds'' ''Seconds since process start.''
          (format_metric_double (f64_of_double uptime_seconds)))
   }"

subsection \<open>The exporter\<close>

definition render_exporter_metrics :: "producer_stats \<Rightarrow> string" where
  "render_exporter_metrics st =
     write_counter ''hamstercam_producer_frames_total'' ''Frames ffmpeg has processed.''
       (ps_frames_total st) @
     write_gauge ''hamstercam_producer_fps'' (''ffmpeg'' @ [CHR 0x27] @ ''s reported instantaneous fps.'')
       (format_metric_double (ps_fps st)) @
     write_counter ''hamstercam_producer_dropped_frames_total'' (''ffmpeg'' @ [CHR 0x27] @ ''s drop_frames.'')
       (ps_dropped_frames_total st) @
     write_counter ''hamstercam_producer_duplicated_frames_total''
       (''ffmpeg'' @ [CHR 0x27] @ ''s dup_frames.'') (ps_duplicated_frames_total st) @
     write_gauge ''hamstercam_producer_speed_ratio''
       (''ffmpeg'' @ [CHR 0x27] @ ''s speed (1.0 = realtime).'')
       (format_metric_double (ps_speed_ratio st)) @
     write_gauge ''hamstercam_producer_connected'' ''1 while ffmpeg is attached, else 0.''
       (if ps_connected st then ''1'' else ''0'') @
     write_gauge ''hamstercam_producer_last_update_unixtime_seconds''
       ''Wall-clock time of the last progress block.'' (show_int (ps_last_update_unixtime st))"

subsection \<open>What a scraper reads\<close>

text \<open>
  A line that is not a comment is a sample: its value follows the last space. This is the
  reader the rendered text is specified against.
\<close>

definition scrape_line :: "string \<Rightarrow> (string \<times> string) option" where
  "scrape_line l =
     (if starts_with ''#'' l then None
      else map_option (\<lambda>i. (take i l, drop (i + 1) l)) (rfind_char CHR '' '' l))"

definition scrape :: "string \<Rightarrow> (string \<times> string) list" where
  "scrape t = List.map_filter scrape_line (fst (split_lines t))"

definition sample_key :: "string \<Rightarrow> metric_label list \<Rightarrow> string" where
  "sample_key name labels = name @ (if labels \<noteq> [] then ''{'' @ label_loop 0 labels @ ''}'' else [])"

definition plain :: "string \<Rightarrow> bool" where
  "plain s \<longleftrightarrow> newline \<notin> set s \<and> CHR '' '' \<notin> set s"

lemma scrape_sample_line:
  assumes "newline \<notin> set key" and "key \<noteq> [] \<and> hd key \<noteq> CHR ''#''" and "plain val"
  shows "scrape (key @ CHR '' '' # val @ newline # rest) = (key, val) # scrape rest"
proof -
  let ?l = "key @ CHR '' '' # val"
  have "newline \<notin> set ?l" using assms by (simp add: plain_def newline_def)
  then have "split_lines (?l @ newline # rest) = (?l # fst (split_lines rest), snd (split_lines rest))"
    by (rule split_lines_line)
  moreover have "scrape_line ?l = Some (key, val)"
    using assms by (cases key) (simp_all add: scrape_line_def starts_with_def rfind_char_append plain_def
      rfind_char_append [of "CHR '' ''" val "_ # _", simplified])
  ultimately show ?thesis by (simp add: scrape_def List.map_filter_def)
qed

lemma scrape_comment_line:
  assumes "newline \<notin> set l"
  shows "scrape (CHR ''#'' # l @ newline # rest) = scrape rest"
proof -
  have "newline \<notin> set (CHR ''#'' # l)" using assms by (simp add: newline_def)
  then have "split_lines ((CHR ''#'' # l) @ newline # rest) =
      ((CHR ''#'' # l) # fst (split_lines rest), snd (split_lines rest))"
    by (rule split_lines_line)
  moreover have "scrape_line (CHR ''#'' # l) = None" by (simp add: scrape_line_def starts_with_def)
  ultimately show ?thesis by (simp add: scrape_def List.map_filter_def)
qed

lemma scrape_empty [simp]: "scrape [] = []"
  by (simp add: scrape_def List.map_filter_def)

definition named :: "string \<Rightarrow> bool" where
  "named name \<longleftrightarrow> newline \<notin> set name \<and> name \<noteq> [] \<and> hd name \<noteq> CHR ''#''"

lemma scrape_header:
  assumes "named name" and "newline \<notin> set help" and "newline \<notin> set type"
  shows "scrape (write_metric_header name help type @ rest) = scrape rest"
proof -
  have "scrape (write_metric_header name help type @ rest) =
    scrape (CHR ''#'' # ('' HELP '' @ name @ '' '' @ help) @ newline #
      CHR ''#'' # ('' TYPE '' @ name @ '' '' @ type) @ newline # rest)"
    by (simp add: write_metric_header_def)
  also have "\<dots> = scrape rest"
    using assms by (subst scrape_comment_line, simp add: named_def newline_def)+ simp
  finally show ?thesis .
qed

lemma scrape_sample:
  assumes "named name" and "newline \<notin> set (label_loop 0 labels)" and "plain val"
  shows "scrape (write_metric_sample name val labels @ rest) = (sample_key name labels, val) # scrape rest"
proof -
  have "write_metric_sample name val labels @ rest = sample_key name labels @ CHR '' '' # val @ newline # rest"
    by (simp add: write_metric_sample_def sample_key_def)
  moreover have "newline \<notin> set (sample_key name labels)" "sample_key name labels \<noteq> []"
      "hd (sample_key name labels) \<noteq> CHR ''#''"
    using assms(1,2) by (auto simp: sample_key_def named_def newline_def)
  ultimately show ?thesis using assms(3) by (simp add: scrape_sample_line)
qed

lemma scrape_counter:
  assumes "named name" and "newline \<notin> set help" and "plain (show_u64 v)"
  shows "scrape (write_counter name help v @ rest) = (name, show_u64 v) # scrape rest"
  using assms
  by (simp add: write_counter_def scrape_header scrape_sample newline_def) (simp add: sample_key_def)

lemma scrape_gauge:
  assumes "named name" and "newline \<notin> set help" and "plain v"
  shows "scrape (write_gauge name help v @ rest) = (name, v) # scrape rest"
  using assms
  by (simp add: write_gauge_def scrape_header scrape_sample newline_def) (simp add: sample_key_def)

text \<open>Printed numbers contain no white space.\<close>

lemma plain_append [simp]: "plain (a @ b) \<longleftrightarrow> plain a \<and> plain b"
  by (auto simp: plain_def)

lemma plain_Cons [simp]: "plain (c # s) \<longleftrightarrow> c \<noteq> newline \<and> c \<noteq> CHR '' '' \<and> plain s"
  by (auto simp: plain_def)

lemma plain_Nil [simp]: "plain []"
  by (simp add: plain_def)

lemma plain_digits: "\<forall>c \<in> set s. is_digit c \<Longrightarrow> plain s"
  by (auto simp: plain_def dest: bspec)

lemma plain_show_nat [simp]: "plain (show_nat n)"
  by (simp add: plain_digits show_nat_digits)

lemma plain_show_u64 [simp]: "plain (show_u64 v)"
  by (simp add: show_u64_def)

lemma plain_show_int [simp]: "plain (show_int v)"
  by (simp add: show_int_def newline_def)

lemma plain_fraction: "\<forall>c \<in> set fp. is_digit c \<Longrightarrow> plain (with_fraction i fp)"
  by (simp add: with_fraction_def plain_digits newline_def)

lemma plain_magnitude [simp]: "plain (show_magnitude x)"
proof -
  have "plain (with_fraction i (strip_zeros (padded p k)))" for i p k
    by (intro plain_fraction strip_zeros_digits) (auto dest: padded_digits)
  moreover have "plain (show_exponent e)" for e
    by (simp add: show_exponent_def newline_def)
  ultimately show ?thesis
    by (simp add: show_magnitude_def Let_def newline_def split: prod.splits)
qed

lemma plain_show_f64 [simp]: "plain (show_f64 v)"
  by (cases v) (simp_all add: show_f64_def newline_def)

subsection \<open>The histogram a scraper reads\<close>

definition bucket_key :: "string \<Rightarrow> string \<Rightarrow> string" where
  "bucket_key name le = name @ ''_bucket{le='' @ [quote] @ le @ [quote] @ ''}''"

definition bound_text :: "double \<Rightarrow> string" where
  "bound_text b = format_metric_double (f64_of_double b)"

text \<open>The samples of the finite buckets, each with the sum of the counts up to its own.\<close>

definition bucket_samples :: "string \<Rightarrow> double list \<Rightarrow> u64 list \<Rightarrow> (string \<times> string) list" where
  "bucket_samples name bounds counts =
     map (\<lambda>i. (bucket_key name (bound_text (bounds ! i)), show_u64 (sum_list (take (i + 1) counts))))
       [0..<length bounds]"

definition histogram_samples :: "string \<Rightarrow> histogram \<Rightarrow> (string \<times> string) list" where
  "histogram_samples name h =
     bucket_samples name (h_bounds h) (h_counts h) @
     [(bucket_key name ''+Inf'', show_u64 (sum_list (h_counts h))),
      (name @ ''_sum'', show_f64 (f64_of_double (h_sum h))),
      (name @ ''_count'', show_u64 (h_total h))]"

lemma bucket_key_named: "named name \<Longrightarrow> plain le \<Longrightarrow>
    newline \<notin> set (bucket_key name le) \<and> bucket_key name le \<noteq> [] \<and> hd (bucket_key name le) \<noteq> CHR ''#''"
  by (auto simp: named_def bucket_key_def plain_def char_defs)

lemma sum_take_Suc: "i < length xs \<Longrightarrow> sum_list (take (Suc i) xs) = sum_list (take i xs) + xs ! i"
  for xs :: "u64 list"
  by (simp add: take_Suc_conv_app_nth)

lemma bucket_loop_scrape:
  assumes "named name" and "i + length bs \<le> length counts" and "c = sum_list (take i counts)"
    and "bucket_loop name bs counts i c = (t, final)"
  shows "final = sum_list (take (i + length bs) counts) \<and>
    scrape (t @ rest) =
      map (\<lambda>j. (bucket_key name (bound_text (bs ! j)), show_u64 (sum_list (take (i + j + 1) counts))))
        [0..<length bs] @ scrape rest"
  using assms
proof (induction bs arbitrary: i c t)
  case Nil
  then show ?case by simp
next
  case (Cons b bs)
  let ?c = "c + counts ! i"
  obtain t' f' where t': "bucket_loop name bs counts (i + 1) ?c = (t', f')" by fastforce
  with Cons.prems(4) have f: "final = f'"
    and t: "t = name @ ''_bucket{le='' @ [quote] @ format_metric_double (f64_of_double b) @ [quote] @ ''} '' @
          show_u64 ?c @ [newline] @ t'"
    by (simp_all add: Let_def)
  have c: "?c = sum_list (take (i + 1) counts)" using Cons.prems(2,3) by (simp add: sum_take_Suc)
  have t2: "bucket_loop name bs counts (i + 1) ?c = (t', final)" using t' f by simp
  have IH: "final = sum_list (take (i + 1 + length bs) counts) \<and>
    scrape (t' @ rest) =
      map (\<lambda>j. (bucket_key name (bound_text (bs ! j)), show_u64 (sum_list (take (i + 1 + j + 1) counts))))
        [0..<length bs] @ scrape rest"
    by (rule Cons.IH [OF Cons.prems(1) _ c t2]) (use Cons.prems(2) in simp)
  have "t @ rest = bucket_key name (bound_text b) @ CHR '' '' # show_u64 ?c @ newline # t' @ rest"
    by (simp add: t bucket_key_def bound_text_def)
  moreover have "plain (bound_text b)" by (simp add: bound_text_def format_metric_double_def)
  ultimately have "scrape (t @ rest) =
      (bucket_key name (bound_text b), show_u64 ?c) # scrape (t' @ rest)"
    using bucket_key_named [OF Cons.prems(1)] by (simp add: scrape_sample_line)
  with IH Cons.prems(2) f c show ?case
    by (simp add: map_upt_Suc del: upt_Suc)
qed

lemma scrape_histogram:
  assumes n: "named name" and h: "newline \<notin> set help"
    and wf: "length (h_counts hist) = length (h_bounds hist) + 1"
  shows "scrape (write_histogram name help hist @ rest) = histogram_samples name hist @ scrape rest"
proof -
  obtain t final where b: "bucket_loop name (h_bounds hist) (h_counts hist) 0 0 = (t, final)" by fastforce
  define ks where "ks = name @ ''_sum''"
  define kc where "kc = name @ ''_count''"
  define tail where "tail = bucket_key name ''+Inf'' @ CHR '' '' # show_u64 (final + last (h_counts hist)) @ newline #
      ks @ CHR '' '' # show_f64 (f64_of_double (h_sum hist)) @ newline #
      kc @ CHR '' '' # show_u64 (h_total hist) @ newline # rest"
  note loop = bucket_loop_scrape [OF n _ _ b, of tail, simplified, simplified wf, simplified]
  have split: "h_counts hist = take (length (h_bounds hist)) (h_counts hist) @ [last (h_counts hist)]"
  proof -
    have "h_counts hist \<noteq> []" using wf by auto
    then have "h_counts hist = butlast (h_counts hist) @ [last (h_counts hist)]" by simp
    then show ?thesis using wf by (simp add: butlast_conv_take)
  qed
  have total: "final + last (h_counts hist) = sum_list (h_counts hist)"
    using loop by (subst (2) split) simp
  have "write_histogram name help hist @ rest = write_metric_header name help ''histogram'' @ t @ tail"
    by (simp add: write_histogram_def histogram_snapshot_def b write_metric_header_def bucket_key_def tail_def ks_def kc_def)
  moreover have "scrape tail =
      [(bucket_key name ''+Inf'', show_u64 (sum_list (h_counts hist))),
       (ks, show_f64 (f64_of_double (h_sum hist))),
       (kc, show_u64 (h_total hist))] @ scrape rest"
  proof -
    have "newline \<notin> set ks" "ks \<noteq> [] \<and> hd ks \<noteq> CHR ''#''"
      "newline \<notin> set kc" "kc \<noteq> [] \<and> hd kc \<noteq> CHR ''#''"
      using n by (simp_all add: named_def newline_def ks_def kc_def)
    moreover have "plain ''+Inf''" by (simp add: newline_def)
    ultimately show ?thesis
      using bucket_key_named [OF n, of "''+Inf''"] total
      by (simp add: scrape_sample_line tail_def)
  qed
  moreover have "scrape (write_metric_header name help ''histogram'' @ t @ tail) = scrape (t @ tail)"
    using n h by (rule scrape_header) (simp add: newline_def)
  ultimately have "scrape (write_histogram name help hist @ rest) =
      bucket_samples name (h_bounds hist) (h_counts hist) @
      (bucket_key name ''+Inf'', show_u64 (sum_list (h_counts hist))) #
      (ks, show_f64 (f64_of_double (h_sum hist))) # (kc, show_u64 (h_total hist)) # scrape rest"
    using loop by (simp add: bucket_samples_def)
  then show ?thesis by (simp add: histogram_samples_def ks_def kc_def)
qed

subsection \<open>All metrics of the daemon\<close>

definition error_samples :: "capture_stats \<Rightarrow> (string \<times> string) list" where
  "error_samples st =
     map (\<lambda>r. (''hamstercam_capture_errors_total{reason='' @ [quote] @ error_reason_to_string r @ [quote] @ ''}'',
               show_u64 (st_errors st ! error_reason_code r)))
       [ER_Open, ER_Format, ER_Buffer, ER_Timeout, ER_Dequeue, ER_DeviceLost, ER_Geometry]"

definition label :: "string \<Rightarrow> string \<Rightarrow> string" where
  "label name val = name @ ''='' @ [quote] @ val @ [quote]"

definition stream_info_samples :: "capture_stats \<Rightarrow> (string \<times> string) list" where
  "stream_info_samples st =
     (case stream_info st of
        None \<Rightarrow> []
      | Some f \<Rightarrow>
          [(''hamstercam_stream_info{'' @ label ''width'' (show_u32 (sf_width f)) @ '','' @
              label ''height'' (show_u32 (sf_height f)) @ '','' @
              label ''pixel_format'' (pixel_format_string f) @ ''}'', ''1'')])"

definition metric_samples :: "capture_stats \<Rightarrow> build_info \<Rightarrow> double \<Rightarrow> u64 \<Rightarrow> (string \<times> string) list" where
  "metric_samples st build uptime resident =
     [(''hamstercam_frames_received_total'', show_u64 (st_frames_received st)),
      (''hamstercam_bytes_received_total'', show_u64 (st_bytes_received st))] @
     histogram_samples ''hamstercam_frame_interval_seconds'' (st_frame_interval_seconds st) @
     [(''hamstercam_capture_state'', show_int (st_capture_state st))] @
     error_samples st @
     [(''hamstercam_reconnects_total'', show_u64 (st_reconnects st)),
      (''hamstercam_stalls_total'', show_u64 (st_stalls st)),
      (''hamstercam_last_frame_unixtime_seconds'', show_int (st_last_frame_unixtime st))] @
     stream_info_samples st @
     [(''hamstercam_build_info{'' @ label ''version'' (bi_version build) @ '','' @
         label ''git_sha'' (bi_git_sha build) @ ''}'', ''1''),
      (''hamstercam_process_resident_bytes'', show_u64 resident),
      (''hamstercam_uptime_seconds'', show_f64 (f64_of_double uptime))]"

text \<open>The labels that come from outside: the exporter does not escape them.\<close>

definition one_line_labels :: "capture_stats \<Rightarrow> build_info \<Rightarrow> bool" where
  "one_line_labels st build \<longleftrightarrow>
     newline \<notin> set (bi_version build) \<and> newline \<notin> set (bi_git_sha build) \<and>
     newline \<notin> set (pixel_format_string (st_stream_info st))"

lemma error_count_wf:
  "length (st_errors st) = 7 \<Longrightarrow> r \<noteq> ER_Count \<Longrightarrow> error_count r st = Some (st_errors st ! error_reason_code r)"
  using error_reason_code_less [of r] by (simp add: error_count_def Let_def kErrorReasonCount_def)

lemma error_loop_scrape:
  assumes "length (st_errors st) = 7" and "error_loop st 7 0 = Some t"
  shows "scrape (t @ rest) = error_samples st @ scrape rest"
proof -
  define smp where "smp r = write_metric_sample ''hamstercam_capture_errors_total''
      (show_u64 (st_errors st ! error_reason_code r)) [\<lparr>ml_name = ''reason'', ml_value = error_reason_to_string r\<rparr>]" for r
  have t: "t = smp ER_Open @ smp ER_Format @ smp ER_Buffer @ smp ER_Timeout @ smp ER_Dequeue @
      smp ER_DeviceLost @ smp ER_Geometry"
    using assms
    by (simp add: eval_nat_numeral error_reason_of_code_def error_count_wf smp_def)
  have "scrape (smp r @ rest) =
      (''hamstercam_capture_errors_total{reason='' @ [quote] @ error_reason_to_string r @ [quote] @ ''}'',
       show_u64 (st_errors st ! error_reason_code r)) # scrape rest" for r rest
    unfolding smp_def
    by (subst scrape_sample; cases r) (simp_all add: named_def char_defs sample_key_def)
  then show ?thesis by (simp add: t error_samples_def)
qed

text \<open>The whole page, read back, is the list of the samples in their order.\<close>

lemma show_u32_no_newline [simp]: "newline \<notin> set (show_u32 w)"
  by (simp add: show_u32_def show_nat_no)

lemma scrape_stream_info:
  assumes "newline \<notin> set (pixel_format_string (st_stream_info st))"
  shows "scrape (stream_info_text st @ rest) = stream_info_samples st @ scrape rest"
proof (cases "stream_info st")
  case None
  then show ?thesis by (simp add: stream_info_text_def stream_info_samples_def)
next
  case (Some f)
  then have f: "newline \<notin> set (pixel_format_string f)"
    using assms by (auto simp: stream_info_def split: if_splits)
  let ?ls = "[\<lparr>ml_name = ''width'', ml_value = show_u32 (sf_width f)\<rparr>,
     \<lparr>ml_name = ''height'', ml_value = show_u32 (sf_height f)\<rparr>,
     \<lparr>ml_name = ''pixel_format'', ml_value = pixel_format_string f\<rparr>]"
  have n: "named ''hamstercam_stream_info''" by (simp add: named_def newline_def)
  have "newline \<notin> set (label_loop 0 ?ls)"
    using f show_u32_no_newline by (simp add: char_defs)
  moreover have "newline \<notin> set ''Observed stream format.''" "newline \<notin> set ''gauge''" "plain ''1''"
    by (simp_all add: newline_def)
  ultimately have "scrape (stream_info_text st @ rest) =
      (sample_key ''hamstercam_stream_info'' ?ls, ''1'') # scrape rest"
    using n Some by (simp add: stream_info_text_def scrape_header scrape_sample)
  with Some show ?thesis by (simp add: stream_info_samples_def sample_key_def label_def)
qed

lemma scrape_build_info:
  assumes "newline \<notin> set v" and "newline \<notin> set g"
  shows "scrape (write_metric_sample ''hamstercam_build_info'' ''1''
      [\<lparr>ml_name = ''version'', ml_value = v\<rparr>, \<lparr>ml_name = ''git_sha'', ml_value = g\<rparr>] @ rest) =
    (''hamstercam_build_info{'' @ label ''version'' v @ '','' @ label ''git_sha'' g @ ''}'', ''1'') # scrape rest"
  using assms
  by (subst scrape_sample) (simp_all add: named_def char_defs sample_key_def label_def)

lemma scrape_render:
  assumes t: "render_metrics st build uptime resident = Some t"
    and wf: "stats_wf st" and labels: "one_line_labels st build"
  shows "scrape t = metric_samples st build uptime resident"
proof -
  have len: "length (st_errors st) = 7"
    "length (h_counts (st_frame_interval_seconds st)) = length (h_bounds (st_frame_interval_seconds st)) + 1"
    using wf by (simp_all add: stats_wf_def histogram_wf_def kErrorReasonCount_def)
  obtain e where e: "error_loop st 7 0 = Some e"
    using t by (auto simp: render_metrics_def bind_iff kErrorReasonCount_def)
  note l = labels [unfolded one_line_labels_def]
  show ?thesis
    using t
    by (auto simp: render_metrics_def kErrorReasonCount_def e metric_samples_def
        scrape_counter scrape_gauge scrape_histogram [OF _ _ len(2)] error_loop_scrape [OF len(1) e]
        scrape_header scrape_stream_info l [unfolded newline_def] scrape_build_info format_metric_double_def
        scrape_gauge [where rest = "[]", simplified]
        named_def newline_def)
qed

text \<open>A page is always produced: the error counters are read inside their array.\<close>

lemma error_loop_defined:
  "length (st_errors st) = 7 \<Longrightarrow> n + i = 7 \<Longrightarrow> \<exists>t. error_loop st n i = Some t"
proof (induction n arbitrary: i)
  case 0
  then show ?case by simp
next
  case (Suc n)
  have "error_reason_of_code i \<noteq> ER_Count"
  proof -
    have "i \<in> {0, 1, 2, 3, 4, 5, 6}" using Suc.prems(2) by auto
    then show ?thesis by (auto simp: error_reason_of_code_def)
  qed
  moreover obtain t where "error_loop st n (i + 1) = Some t" using Suc.IH [of "i + 1"] Suc.prems by auto
  ultimately show ?case using Suc.prems by (simp add: error_count_wf Let_def)
qed

lemma render_defined: "stats_wf st \<Longrightarrow> \<exists>t. render_metrics st build uptime resident = Some t"
  using error_loop_defined [of st 7 0]
  by (auto simp: render_metrics_def stats_wf_def kErrorReasonCount_def)

subsection \<open>All metrics of the exporter\<close>

definition exporter_samples :: "producer_stats \<Rightarrow> (string \<times> string) list" where
  "exporter_samples st =
     [(''hamstercam_producer_frames_total'', show_u64 (ps_frames_total st)),
      (''hamstercam_producer_fps'', show_f64 (ps_fps st)),
      (''hamstercam_producer_dropped_frames_total'', show_u64 (ps_dropped_frames_total st)),
      (''hamstercam_producer_duplicated_frames_total'', show_u64 (ps_duplicated_frames_total st)),
      (''hamstercam_producer_speed_ratio'', show_f64 (ps_speed_ratio st)),
      (''hamstercam_producer_connected'', if ps_connected st then ''1'' else ''0''),
      (''hamstercam_producer_last_update_unixtime_seconds'', show_int (ps_last_update_unixtime st))]"

lemma scrape_exporter: "scrape (render_exporter_metrics st) = exporter_samples st"
  by (auto simp: render_exporter_metrics_def exporter_samples_def scrape_counter scrape_gauge
      scrape_gauge [where rest = "[]", simplified] format_metric_double_def named_def newline_def)

end
