(* ===== verification/Timing_Correct.thy ===== *)
theory Timing_Correct
  imports Capture_Demo Metrics_Text
begin

text \<open>
  The properties of the capture state machine that are about time: waits, backoffs,
  thresholds, intervals and rates.
\<close>

subsection \<open>Waits\<close>

text \<open>
  The wait that a machine in service recommends is never negative, and never above the
  largest backoff of its configuration unless the machine is inside a wait it was told of
  before; the configuration, the stall threshold and the limits of both backoffs are those
  of the constructor for good.
\<close>

theorem wait_bounds:
  assumes "csm_reach E cfg m" and "config_nonneg cfg" and "csm_step E pt m w = Some (wait, m', w')"
  shows "0 \<le> wait \<and> (wait \<le> max_backoff cfg \<or> steady_now E w < m_next_attempt_at m) \<and> settings_ok cfg m'"
  using csm_trans_settings [OF csm_step_trans [OF assms(3)] csm_reach_settings [OF assms(1,2)] assms(2)]
  by (simp add: steady_now_def)

lemma wait_bounds_witness:
  "\<exists>wait m' w'. csm_step fake_env 100 (fst stalled_demo) (snd stalled_demo) = Some (wait, m', w') \<and>
     0 \<le> wait \<and> wait \<le> 30000"
proof -
  obtain wait m' w' where s: "csm_step fake_env 100 (fst stalled_demo) (snd stalled_demo) = Some (wait, m', w')"
    using csm_step_returns [OF fake_responsive csm_reach_wf [OF demo_reach(3)]] by blast
  have "config_nonneg daemon_config_default" by (simp add: config_nonneg_def daemon_config_default_def)
  from wait_bounds [OF demo_reach(3) this s] demo_facts(3) s show ?thesis
    by (simp add: steady_now_def fake_env_def max_backoff_def daemon_config_default_def)
qed



subsection \<open>Thresholds in floating point\<close>

text \<open>
  C38: the stall threshold that the constructor computes in doubles is within one
  millisecond of the exact quotient, for every setting of the two 32-bit numbers, and stays
  far inside 64 bits.
\<close>

theorem stall_threshold_accurate:
  "\<bar>stall_threshold_of cfg - exact_stall_ms cfg\<bar> \<le> 1 \<and>
   0 \<le> stall_threshold_of cfg \<and> stall_threshold_of cfg \<le> 4294967295001"
  using stall_threshold_close [of cfg] stall_threshold_bounds [of cfg] by simp

text \<open>
  C39: the doubles never put a frame interval into the wrong bucket: the bucket of an
  interval of \<open>t\<close> nanoseconds is the one that the bounds written in whole nanoseconds give.
\<close>

theorem interval_bucket_exact:
  "bucket_index (seconds_of_ns t) frame_interval_buckets 0 =
     length (takeWhile (\<lambda>k. k < t)
       [5000000, 10000000, 20000000, 33000000, 50000000, 66700000, 100000000, 150000000,
        250000000, 500000000, 1000000000, 2000000000, 5000000000])"
  using interval_bucket [of t] by (simp only: bucket_bounds_ns_def)

text \<open>
  The histogram counts: after any observations the total is their number, the counts
  add up to it, and the cumulative count of a bucket is the number of values that are not
  above its bound, modulo 64 bits.
\<close>

theorem histogram_counts_observations:
  assumes "i < length frame_interval_buckets"
  shows "h_total (observe_all vs (histogram_new frame_interval_buckets)) = of_nat (length vs) \<and>
    sum_list (h_counts (observe_all vs (histogram_new frame_interval_buckets))) = of_nat (length vs) \<and>
    sum_list (take (i + 1) (h_counts (observe_all vs (histogram_new frame_interval_buckets)))) =
      of_nat (length (filter (\<lambda>v. v \<le> frame_interval_buckets ! i) vs))"
proof -
  let ?h = "histogram_new frame_interval_buckets"
  have h: "h_bounds ?h = frame_interval_buckets" "h_total ?h = 0"
    "length (h_counts ?h) = length frame_interval_buckets + 1"
    "sum_list (take n (h_counts ?h)) = 0" for n
    unfolding histogram_new_def by (simp_all only: histogram.simps length_replicate take_replicate sum_list_replicate) simp
  have total: "h_total (observe_all vs ?h) = of_nat (length vs)"
    using observe_all_total [of vs ?h] by (simp add: h)
  have "sum_list (h_counts (observe_all vs ?h)) = of_nat (length vs)"
    using observe_all_wf [OF histogram_new_wf] total by (simp add: histogram_wf_def)
  with total observe_all_prefix [of ?h i vs] frame_interval_buckets_sorted assms
  show ?thesis by (simp add: h)
qed

lemma histogram_counts_observations_witness:
  "sum_list (take 3 (h_counts (observe_all [seconds_of_ns 20000000, seconds_of_ns 66000000] (histogram_new frame_interval_buckets)))) =
     of_nat (length (filter (\<lambda>v. v \<le> frame_interval_buckets ! 2) [seconds_of_ns 20000000, seconds_of_ns 66000000]))"
  using histogram_counts_observations [of 2] by (simp add: frame_interval_buckets_def)



end
