(* ===== verification/V4L2_Device.thy ===== *)
theory V4L2_Device
  imports Capture_Device
begin

unbundle bit_operations_syntax

text \<open>
  \<^verbatim>\<open>v4l2_capture_device.hpp\<close> and \<^verbatim>\<open>v4l2_capture_device.cpp\<close>:
  the device behind the state machine. The kernel is a parameter, a record with one
  function per system call on a kernel state of any type; the theorems hold for every
  kernel. An \<open>ioctl\<close> returns the \<open>errno\<close> it failed with, if it failed, and its
  argument structure as it left it. Only the members of the kernel's structures that the
  source reads or writes are kept; the \<open>type\<close> and \<open>memory\<close> members are constants
  and left out.
\<close>

subsection \<open>The kernel\<close>

datatype errno = EINTR | EINVAL | EAGAIN | ENODEV | EIO | E_other int

record pix_format =
  pix_width :: u32
  pix_height :: u32
  pix_pixelformat :: u32
  pix_sizeimage :: u32
  pix_bytesperline :: u32

record fmtdesc =
  desc_index :: u32
  desc_pixelformat :: u32
  desc_flags :: u32

record v4l2_buffer =
  buf_index :: u32
  buf_bytesused :: u32
  buf_length :: u32
  buf_offset :: u32

definition pix_format_zero :: pix_format where
  "pix_format_zero =
     \<lparr>pix_width = 0, pix_height = 0, pix_pixelformat = 0, pix_sizeimage = 0, pix_bytesperline = 0\<rparr>"

definition fmtdesc_zero :: fmtdesc where
  "fmtdesc_zero = \<lparr>desc_index = 0, desc_pixelformat = 0, desc_flags = 0\<rparr>"

definition v4l2_buffer_zero :: v4l2_buffer where
  "v4l2_buffer_zero = \<lparr>buf_index = 0, buf_bytesused = 0, buf_length = 0, buf_offset = 0\<rparr>"

type_synonym ('a, 'k) ioctl = "'a \<Rightarrow> 'k \<Rightarrow> errno option \<times> 'a \<times> 'k"

record 'k kernel =
  sys_open :: "string \<Rightarrow> 'k \<Rightarrow> int \<times> 'k"
  sys_close :: "int \<Rightarrow> 'k \<Rightarrow> 'k"
  VIDIOC_G_FMT :: "int \<Rightarrow> (pix_format, 'k) ioctl"
  VIDIOC_ENUM_FMT :: "int \<Rightarrow> (fmtdesc, 'k) ioctl"
  VIDIOC_REQBUFS :: "int \<Rightarrow> (u32, 'k) ioctl"
  VIDIOC_QUERYBUF :: "int \<Rightarrow> (v4l2_buffer, 'k) ioctl"
  VIDIOC_QBUF :: "int \<Rightarrow> (v4l2_buffer, 'k) ioctl"
  VIDIOC_DQBUF :: "int \<Rightarrow> (v4l2_buffer, 'k) ioctl"
  VIDIOC_STREAMON :: "int \<Rightarrow> (unit, 'k) ioctl"
  VIDIOC_STREAMOFF :: "int \<Rightarrow> (unit, 'k) ioctl"
  sys_mmap :: "int \<Rightarrow> u32 \<Rightarrow> u32 \<Rightarrow> 'k \<Rightarrow> u64 option \<times> 'k"
  sys_munmap :: "u64 \<Rightarrow> u32 \<Rightarrow> 'k \<Rightarrow> 'k"
  sys_poll :: "int \<Rightarrow> int \<Rightarrow> 'k \<Rightarrow> int \<times> 16 word \<times> errno \<times> 'k"
  steady_clock_now :: "'k \<Rightarrow> ns \<times> 'k"
  system_clock_now :: "'k \<Rightarrow> ns \<times> 'k"

definition V4L2_FMT_FLAG_COMPRESSED :: u32 where
  "V4L2_FMT_FLAG_COMPRESSED = 1"

definition POLLERR :: "16 word" where "POLLERR = 0x008"
definition POLLHUP :: "16 word" where "POLLHUP = 0x010"
definition POLLNVAL :: "16 word" where "POLLNVAL = 0x020"

text \<open>The retry loop around an interrupted call may go on for as long as the interruptions do.\<close>

partial_function (option) xioctl ::
  "('a, 'k) ioctl \<Rightarrow> 'a \<Rightarrow> 'k \<Rightarrow> (errno option \<times> 'a \<times> 'k) option" where
  "xioctl req a k =
     (case req a k of
        (e, a', k') \<Rightarrow> if e = Some EINTR then xioctl req a' k' else Some (e, a', k'))"

subsection \<open>The device object\<close>

record mapped_buffer =
  mb_address :: u64
  mb_length :: u32

record 'k v4l2 =
  v_device_path :: string
  v_fd :: int
  v_buffers :: "mapped_buffer list"
  v_streaming :: bool
  v_kernel :: 'k

definition v4l2_new :: "string \<Rightarrow> 'k \<Rightarrow> 'k v4l2" where
  "v4l2_new path k =
     \<lparr>v_device_path = path, v_fd = -1, v_buffers = [], v_streaming = False, v_kernel = k\<rparr>"

definition unmap_one :: "'k kernel \<Rightarrow> mapped_buffer \<Rightarrow> 'k \<Rightarrow> 'k" where
  "unmap_one K b k = (if mb_address b \<noteq> 0 then sys_munmap K (mb_address b) (mb_length b) k else k)"

definition unmap_buffers :: "'k kernel \<Rightarrow> 'k v4l2 \<Rightarrow> 'k v4l2" where
  "unmap_buffers K d =
     d\<lparr>v_kernel := fold (unmap_one K) (v_buffers d) (v_kernel d), v_buffers := []\<rparr>"

definition v4l2_open :: "'k kernel \<Rightarrow> 'k v4l2 \<Rightarrow> (open_result \<times> 'k v4l2) option" where
  "v4l2_open K d =
     (let (fd, k) = sys_open K (v_device_path d) (v_kernel d);
          d = d\<lparr>v_fd := fd, v_kernel := k\<rparr>
      in if v_fd d < 0 then Some (OR_Absent, d) else Some (OR_Opened, d))"

definition v4l2_close :: "'k kernel \<Rightarrow> 'k v4l2 \<Rightarrow> 'k v4l2 option" where
  "v4l2_close K d =
     (let d = unmap_buffers K d
      in if 0 \<le> v_fd d
         then Some (d\<lparr>v_kernel := sys_close K (v_fd d) (v_kernel d), v_fd := -1\<rparr>)
         else Some d)"

text \<open>The enumeration loop: it ends when the driver fails the call or lists the format.\<close>

partial_function (option) enum_formats ::
  "'k kernel \<Rightarrow> int \<Rightarrow> u32 \<Rightarrow> fmtdesc \<Rightarrow> 'k \<Rightarrow> (bool \<times> 'k) option" where
  "enum_formats K fd fourcc desc k = do {
     (e, desc, k) \<leftarrow> xioctl (VIDIOC_ENUM_FMT K fd) desc k;
     if e \<noteq> None then Some (True, k)
     else if desc_pixelformat desc = fourcc
     then Some (desc_flags desc AND V4L2_FMT_FLAG_COMPRESSED \<noteq> 0, k)
     else enum_formats K fd fourcc (desc\<lparr>desc_index := desc_index desc + 1\<rparr>) k
   }"

definition query_compressed :: "'k kernel \<Rightarrow> u32 \<Rightarrow> 'k v4l2 \<Rightarrow> (bool \<times> 'k v4l2) option" where
  "query_compressed K fourcc d = do {
     (b, k) \<leftarrow> enum_formats K (v_fd d) fourcc fmtdesc_zero (v_kernel d);
     Some (b, d\<lparr>v_kernel := k\<rparr>)
   }"

definition v4l2_query_format ::
  "'k kernel \<Rightarrow> stream_format \<Rightarrow> 'k v4l2 \<Rightarrow> (format_result \<times> stream_format \<times> 'k v4l2) option" where
  "v4l2_query_format K out d = do {
     (e, pix, k) \<leftarrow> xioctl (VIDIOC_G_FMT K (v_fd d)) pix_format_zero (v_kernel d);
     let d = d\<lparr>v_kernel := k\<rparr>;
     if e = Some EINVAL then Some (FR_NoProducer, out, d)
     else if e \<noteq> None then Some (FR_Error, out, d)
     else do {
       let out = out\<lparr>sf_width := pix_width pix, sf_height := pix_height pix,
                     sf_pixel_format_fourcc := pix_pixelformat pix,
                     sf_size_image := pix_sizeimage pix,
                     sf_bytesperline := pix_bytesperline pix\<rparr>;
       (c, d) \<leftarrow> query_compressed K (sf_pixel_format_fourcc out) d;
       Some (FR_Known, out\<lparr>sf_compressed := c\<rparr>, d)
     }
   }"

text \<open>
  The loop that queries, maps and queues one buffer after the other: \<open>n\<close> buffers from
  index \<open>i\<close>. It returns whether all went well; on a failure everything mapped so far is
  unmapped first.
\<close>

fun map_buffers :: "'k kernel \<Rightarrow> nat \<Rightarrow> u32 \<Rightarrow> 'k v4l2 \<Rightarrow> (bool \<times> 'k v4l2) option" where
  "map_buffers K 0 i d = Some (True, d)"
| "map_buffers K (Suc n) i d = do {
     (e, buf, k) \<leftarrow> xioctl (VIDIOC_QUERYBUF K (v_fd d)) (v4l2_buffer_zero\<lparr>buf_index := i\<rparr>) (v_kernel d);
     let d = d\<lparr>v_kernel := k\<rparr>;
     if e \<noteq> None then Some (False, unmap_buffers K d)
     else do {
       let (addr, k) = sys_mmap K (v_fd d) (buf_length buf) (buf_offset buf) (v_kernel d);
       let d = d\<lparr>v_kernel := k\<rparr>;
       case addr of
         None \<Rightarrow> Some (False, unmap_buffers K d)
       | Some a \<Rightarrow> do {
           let d = d\<lparr>v_buffers := v_buffers d @ [\<lparr>mb_address = a, mb_length = buf_length buf\<rparr>]\<rparr>;
           (e, buf, k) \<leftarrow> xioctl (VIDIOC_QBUF K (v_fd d)) buf (v_kernel d);
           let d = d\<lparr>v_kernel := k\<rparr>;
           if e \<noteq> None then Some (False, unmap_buffers K d)
           else map_buffers K n (i + 1) d
         }
     }
   }"

definition v4l2_start_streaming ::
  "'k kernel \<Rightarrow> u32 \<Rightarrow> 'k v4l2 \<Rightarrow> (stream_start_result \<times> 'k v4l2) option" where
  "v4l2_start_streaming K buffer_count d = do {
     (e, count, k) \<leftarrow> xioctl (VIDIOC_REQBUFS K (v_fd d)) buffer_count (v_kernel d);
     let d = d\<lparr>v_kernel := k\<rparr>;
     if e \<noteq> None then Some (SS_BufferError, d)
     else do {
       let d = d\<lparr>v_buffers := []\<rparr>;
       (good, d) \<leftarrow> map_buffers K (unat count) 0 d;
       if \<not> good then Some (SS_BufferError, d)
       else do {
         (e, u, k) \<leftarrow> xioctl (VIDIOC_STREAMON K (v_fd d)) () (v_kernel d);
         let d = d\<lparr>v_kernel := k\<rparr>;
         if e \<noteq> None then Some (SS_BufferError, unmap_buffers K d)
         else Some (SS_Started, d\<lparr>v_streaming := True\<rparr>)
       }
     }
   }"

definition v4l2_stop_streaming :: "'k kernel \<Rightarrow> 'k v4l2 \<Rightarrow> 'k v4l2 option" where
  "v4l2_stop_streaming K d = do {
     d \<leftarrow> (if v_streaming d
           then do {
             (e, u, k) \<leftarrow> xioctl (VIDIOC_STREAMOFF K (v_fd d)) () (v_kernel d);
             Some (d\<lparr>v_kernel := k, v_streaming := False\<rparr>)
           }
           else Some d);
     Some (unmap_buffers K d)
   }"

text \<open>\<open>static_cast<int>\<close> of the timeout keeps its low 32 bits, read as signed.\<close>

definition v4l2_dequeue_frame ::
  "'k kernel \<Rightarrow> ms \<Rightarrow> frame_descriptor \<Rightarrow> 'k v4l2 \<Rightarrow>
     (dequeue_result \<times> frame_descriptor \<times> 'k v4l2) option" where
  "v4l2_dequeue_frame K timeout out d = do {
     let (rc, revents, err, k) = sys_poll K (v_fd d) (signed_take_bit 31 timeout) (v_kernel d);
     let d = d\<lparr>v_kernel := k\<rparr>;
     if rc = 0 then Some (DQ_Timeout, out, d)
     else if rc < 0 then Some (if err = EINTR then DQ_Timeout else DQ_Error, out, d)
     else if revents AND (POLLERR OR POLLHUP OR POLLNVAL) \<noteq> 0 then Some (DQ_DeviceLost, out, d)
     else do {
       (e, buf, k) \<leftarrow> xioctl (VIDIOC_DQBUF K (v_fd d)) v4l2_buffer_zero (v_kernel d);
       let d = d\<lparr>v_kernel := k\<rparr>;
       if e = Some EAGAIN then Some (DQ_Timeout, out, d)
       else if e = Some ENODEV \<or> e = Some EIO then Some (DQ_DeviceLost, out, d)
       else if e \<noteq> None then Some (DQ_Error, out, d)
       else do {
         let (now, k) = steady_clock_now K (v_kernel d);
         Some (DQ_Frame,
               out\<lparr>fd_buffer_index := buf_index buf, fd_bytes_used := ucast (buf_bytesused buf),
                   fd_captured_at := now\<rparr>,
               d\<lparr>v_kernel := k\<rparr>)
       }
     }
   }"

definition v4l2_requeue_frame :: "'k kernel \<Rightarrow> u32 \<Rightarrow> 'k v4l2 \<Rightarrow> 'k v4l2 option" where
  "v4l2_requeue_frame K buffer_index d = do {
     (e, buf, k) \<leftarrow>
       xioctl (VIDIOC_QBUF K (v_fd d)) (v4l2_buffer_zero\<lparr>buf_index := buffer_index\<rparr>) (v_kernel d);
     Some (d\<lparr>v_kernel := k\<rparr>)
   }"

definition v4l2_destroy :: "'k kernel \<Rightarrow> 'k v4l2 \<Rightarrow> 'k v4l2 option" where
  "v4l2_destroy K d = do {
     d \<leftarrow> v4l2_stop_streaming K d;
     v4l2_close K d
   }"

text \<open>The clock of the daemon, \<open>SteadyClock\<close>, reads the clocks of the system.\<close>

definition clock_of :: "('k \<Rightarrow> ns \<times> 'k) \<Rightarrow> 'k v4l2 \<Rightarrow> ns \<times> 'k v4l2" where
  "clock_of now d = (let (t, k) = now (v_kernel d) in (t, d\<lparr>v_kernel := k\<rparr>))"

definition v4l2_env :: "'k kernel \<Rightarrow> 'k v4l2 env" where
  "v4l2_env K =
     \<lparr>dev_open = v4l2_open K, dev_close = v4l2_close K,
      dev_query_format = v4l2_query_format K, dev_start_streaming = v4l2_start_streaming K,
      dev_stop_streaming = v4l2_stop_streaming K, dev_dequeue_frame = v4l2_dequeue_frame K,
      dev_requeue_frame = v4l2_requeue_frame K,
      clk_steady_now = clock_of (steady_clock_now K),
      clk_wall_now = clock_of (system_clock_now K)\<rparr>"

subsection \<open>The device honours the interface\<close>

lemma unmap_buffers_fields [simp]:
  "v_fd (unmap_buffers K d) = v_fd d" "v_streaming (unmap_buffers K d) = v_streaming d"
  "v_buffers (unmap_buffers K d) = []" "v_device_path (unmap_buffers K d) = v_device_path d"
  by (simp_all add: unmap_buffers_def)

lemma map_buffers_fields:
  "map_buffers K n i d = Some (good, d') \<Longrightarrow>
     v_fd d' = v_fd d \<and> v_streaming d' = v_streaming d \<and> (\<not> good \<longrightarrow> v_buffers d' = [])"
  by (induction K n i d rule: map_buffers.induct)
    (fastforce simp: bind_iff Let_def split: if_splits option.splits prod.splits)+

lemma v4l2_open_laws:
  "v4l2_open K d = Some (r, d') \<Longrightarrow>
     (r = OR_Opened \<longleftrightarrow> 0 \<le> v_fd d') \<and> v_streaming d' = v_streaming d \<and> v_buffers d' = v_buffers d"
  by (auto simp: v4l2_open_def Let_def split: if_splits prod.splits)

lemma v4l2_close_laws:
  "v4l2_close K d = Some d' \<Longrightarrow> v_fd d' < 0 \<and> v_streaming d' = v_streaming d \<and> v_buffers d' = []"
  by (auto simp: v4l2_close_def Let_def split: if_splits)

lemma v4l2_query_laws:
  "v4l2_query_format K f d = Some (r, g, d') \<Longrightarrow>
     v_fd d' = v_fd d \<and> v_streaming d' = v_streaming d \<and> v_buffers d' = v_buffers d"
  by (auto simp: v4l2_query_format_def query_compressed_def bind_iff Let_def split: if_splits)

lemma v4l2_start_laws:
  assumes "v4l2_start_streaming K n d = Some (r, d')"
  shows "v_fd d' = v_fd d \<and> (r = SS_Started \<longrightarrow> v_streaming d') \<and>
    (r = SS_BufferError \<longrightarrow>
       v_streaming d' = v_streaming d \<and> (v_buffers d' = [] \<or> v_buffers d' = v_buffers d))"
proof -
  from assms obtain e count k where
    q: "xioctl (VIDIOC_REQBUFS K (v_fd d)) n (v_kernel d) = Some (e, count, k)"
    by (auto simp: v4l2_start_streaming_def Let_def bind_iff)
  show ?thesis
  proof (cases e)
    case (Some x)
    with assms q show ?thesis by (auto simp: v4l2_start_streaming_def Let_def)
  next
    case None
    with assms q obtain good d1 where
      m: "map_buffers K (unat count) 0 (d\<lparr>v_kernel := k, v_buffers := []\<rparr>) = Some (good, d1)"
      by (auto simp: v4l2_start_streaming_def Let_def bind_iff)
    note f = map_buffers_fields [OF m, simplified]
    show ?thesis
    proof (cases good)
      case False
      with assms q None m f show ?thesis by (auto simp: v4l2_start_streaming_def Let_def)
    next
      case True
      with assms q None m obtain e2 u k2 where
        x: "xioctl (VIDIOC_STREAMON K (v_fd d1)) () (v_kernel d1) = Some (e2, u, k2)"
        by (auto simp: v4l2_start_streaming_def Let_def bind_iff)
      with assms q None m f True show ?thesis
        by (cases e2) (auto simp: v4l2_start_streaming_def Let_def)
    qed
  qed
qed

lemma v4l2_stop_laws:
  "v4l2_stop_streaming K d = Some d' \<Longrightarrow> v_fd d' = v_fd d \<and> \<not> v_streaming d' \<and> v_buffers d' = []"
  by (auto simp: v4l2_stop_streaming_def bind_iff split: if_splits)

lemma v4l2_dequeue_laws:
  assumes "v4l2_dequeue_frame K t f d = Some (r, g, d')"
  shows "v_fd d' = v_fd d \<and> v_streaming d' = v_streaming d \<and> v_buffers d' = v_buffers d"
proof -
  obtain rc revents err k where
    p: "sys_poll K (v_fd d) (signed_take_bit 31 t) (v_kernel d) = (rc, revents, err, k)"
    by (cases "sys_poll K (v_fd d) (signed_take_bit 31 t) (v_kernel d)") auto
  show ?thesis
  proof (cases "rc \<le> 0 \<or> revents AND (POLLERR OR POLLHUP OR POLLNVAL) \<noteq> 0")
    case True
    with assms p show ?thesis by (auto simp: v4l2_dequeue_frame_def Let_def split: if_splits)
  next
    case False
    with assms p obtain e buf k2 where
      x: "xioctl (VIDIOC_DQBUF K (v_fd d)) v4l2_buffer_zero k = Some (e, buf, k2)"
      by (auto simp: v4l2_dequeue_frame_def Let_def bind_iff)
    obtain now k3 where "steady_clock_now K k2 = (now, k3)" by fastforce
    with assms p False x show ?thesis by (auto simp: v4l2_dequeue_frame_def Let_def split: if_splits)
  qed
qed

lemma v4l2_requeue_laws:
  "v4l2_requeue_frame K i d = Some d' \<Longrightarrow>
     v_fd d' = v_fd d \<and> v_streaming d' = v_streaming d \<and> v_buffers d' = v_buffers d"
  by (auto simp: v4l2_requeue_frame_def bind_iff)

lemma clock_of_laws:
  "clock_of now d = (t, d') \<Longrightarrow>
     v_fd d' = v_fd d \<and> v_streaming d' = v_streaming d \<and> v_buffers d' = v_buffers d"
  by (auto simp: clock_of_def Let_def split: prod.splits)

definition v4l2_is_open :: "'k v4l2 \<Rightarrow> bool" where
  "v4l2_is_open d \<longleftrightarrow> 0 \<le> v_fd d"

interpretation v4l2: capture_device "v4l2_env K" v4l2_is_open v_streaming for K :: "'k kernel"
proof (unfold_locales, goal_cases)
  case (1 w w')
  then show ?case by (auto simp: v4l2_env_def v4l2_is_open_def dest!: v4l2_open_laws)
next
  case (2 w w')
  then show ?case by (auto simp: v4l2_env_def v4l2_is_open_def dest!: v4l2_open_laws)
next
  case (3 w w')
  then show ?case by (auto simp: v4l2_env_def v4l2_is_open_def dest!: v4l2_close_laws)
next
  case (4 fmt w r fmt2 w')
  then show ?case by (auto simp: v4l2_env_def v4l2_is_open_def dest!: v4l2_query_laws)
next
  case (5 n w w')
  then show ?case by (auto simp: v4l2_env_def v4l2_is_open_def dest!: v4l2_start_laws)
next
  case (6 n w w')
  then show ?case using v4l2_start_laws [of K n w SS_BufferError w'] by (simp add: v4l2_env_def v4l2_is_open_def)
next
  case (7 w w')
  then show ?case by (auto simp: v4l2_env_def v4l2_is_open_def dest!: v4l2_stop_laws)
next
  case (8 t fr w q fr2 w')
  then show ?case by (auto simp: v4l2_env_def v4l2_is_open_def dest!: v4l2_dequeue_laws)
next
  case (9 i w w')
  then show ?case by (auto simp: v4l2_env_def v4l2_is_open_def dest!: v4l2_requeue_laws)
next
  case (10 w t w')
  then show ?case by (auto simp: v4l2_env_def v4l2_is_open_def dest!: clock_of_laws)
next
  case (11 w t w')
  then show ?case by (auto simp: v4l2_env_def v4l2_is_open_def dest!: clock_of_laws)
qed

text \<open>
  The same laws with a second reading of ``streaming'': the device streams or still holds
  mapped buffers. Both interpretations rest on the lemmas above.
\<close>

definition v4l2_engaged :: "'k v4l2 \<Rightarrow> bool" where
  "v4l2_engaged d \<longleftrightarrow> v_streaming d \<or> v_buffers d \<noteq> []"

interpretation v4l2_res: capture_device "v4l2_env K" v4l2_is_open v4l2_engaged for K :: "'k kernel"
proof (unfold_locales, goal_cases)
  case (1 w w')
  then show ?case by (auto simp: v4l2_env_def v4l2_is_open_def v4l2_engaged_def dest!: v4l2_open_laws)
next
  case (2 w w')
  then show ?case by (auto simp: v4l2_env_def v4l2_is_open_def v4l2_engaged_def dest!: v4l2_open_laws)
next
  case (3 w w')
  then show ?case by (auto simp: v4l2_env_def v4l2_is_open_def v4l2_engaged_def dest!: v4l2_close_laws)
next
  case (4 fmt w r fmt2 w')
  then show ?case by (auto simp: v4l2_env_def v4l2_is_open_def v4l2_engaged_def dest!: v4l2_query_laws)
next
  case (5 n w w')
  then show ?case by (auto simp: v4l2_env_def v4l2_is_open_def v4l2_engaged_def dest!: v4l2_start_laws)
next
  case (6 n w w')
  then show ?case using v4l2_start_laws [of K n w SS_BufferError w']
    by (auto simp: v4l2_env_def v4l2_is_open_def v4l2_engaged_def)
next
  case (7 w w')
  then show ?case by (auto simp: v4l2_env_def v4l2_is_open_def v4l2_engaged_def dest!: v4l2_stop_laws)
next
  case (8 t fr w q fr2 w')
  then show ?case by (auto simp: v4l2_env_def v4l2_is_open_def v4l2_engaged_def dest!: v4l2_dequeue_laws)
next
  case (9 i w w')
  then show ?case by (auto simp: v4l2_env_def v4l2_is_open_def v4l2_engaged_def dest!: v4l2_requeue_laws)
next
  case (10 w t w')
  then show ?case by (auto simp: v4l2_env_def v4l2_is_open_def v4l2_engaged_def dest!: clock_of_laws)
next
  case (11 w t w')
  then show ?case by (auto simp: v4l2_env_def v4l2_is_open_def v4l2_engaged_def dest!: clock_of_laws)
qed

subsection \<open>When the loops of the driver end\<close>

text \<open>
  \<open>interrupted n\<close>: the call is interrupted at most \<open>n\<close> times in a row, whatever its
  argument and the state of the kernel.
\<close>

fun interrupted :: "nat \<Rightarrow> ('a, 'k) ioctl \<Rightarrow> 'a \<Rightarrow> 'k \<Rightarrow> bool" where
  "interrupted 0 req a k = (fst (req a k) = Some EINTR)"
| "interrupted (Suc n) req a k =
     (case req a k of (e, a', k') \<Rightarrow> e = Some EINTR \<and> interrupted n req a' k')"

lemma xioctl_returns: "\<not> interrupted n req a k \<Longrightarrow> \<exists>r. xioctl req a k = Some r"
proof (induction n arbitrary: a k)
  case 0
  then show ?case by (subst xioctl.simps) (auto split: prod.splits)
next
  case (Suc n)
  then show ?case by (subst xioctl.simps) (auto split: prod.splits)
qed

text \<open>A call that keeps a property of the kernel keeps it through any number of retries.\<close>

lemma xioctl_inv:
  assumes "xioctl req a k = Some (e, a', k')" and "P k"
    and keeps: "\<And>a k e a' k'. P k \<Longrightarrow> req a k = (e, a', k') \<Longrightarrow> P k'"
  shows "P k'"
proof -
  have "req = q \<longrightarrow> P k \<longrightarrow> P (snd (snd r))" if "xioctl q a k = Some r" for q a k r
  proof (rule xioctl.raw_induct [where P = "\<lambda>q a k r. req = q \<longrightarrow> P k \<longrightarrow> P (snd (snd r))", OF _ that])
    fix xioctl q a k y
    assume IH: "\<And>q a k y. xioctl q a k = Some y \<Longrightarrow> req = q \<longrightarrow> P k \<longrightarrow> P (snd (snd y))"
      and run: "(case q a k of (e, a', k') \<Rightarrow>
                  if e = Some EINTR then xioctl q a' k' else Some (e, a', k')) = Some y"
    obtain e a' k' where r: "q a k = (e, a', k')" by (cases "q a k") auto
    show "req = q \<longrightarrow> P k \<longrightarrow> P (snd (snd y))"
    proof (intro impI)
      assume "req = q" "P k"
      with r have "P k'" by (auto intro: keeps)
      with \<open>req = q\<close> IH [of q a' k' y] run [unfolded r prod.case] show "P (snd (snd y))"
        by (auto split: if_splits)
    qed
  qed
  with assms(1,2) show ?thesis by fastforce
qed

lemma enum_formats_inv:
  assumes "enum_formats K fd fourcc desc k = Some (b, k')" and "P k"
    and keeps: "\<And>desc k e desc' k'. P k \<Longrightarrow> xioctl (VIDIOC_ENUM_FMT K fd) desc k = Some (e, desc', k') \<Longrightarrow> P k'"
  shows "P k'"
proof -
  have "K' = K \<longrightarrow> fd' = fd \<longrightarrow> P k \<longrightarrow> P (snd r)" if "enum_formats K' fd' fourcc desc k = Some r" for K' fd' fourcc desc k r
  proof (rule enum_formats.raw_induct [where P = "\<lambda>K' fd' fourcc desc k r. K' = K \<longrightarrow> fd' = fd \<longrightarrow> P k \<longrightarrow> P (snd r)", OF _ that])
    fix enum_formats and K' :: "'a kernel" and fd' fourcc desc k y
    assume IH: "\<And>K' fd' fourcc desc k y. enum_formats K' fd' fourcc desc k = Some y \<Longrightarrow>
        K' = K \<longrightarrow> fd' = fd \<longrightarrow> P k \<longrightarrow> P (snd y)"
      and run: "xioctl (VIDIOC_ENUM_FMT K' fd') desc k \<bind> (\<lambda>(e, desc, k).
          if e \<noteq> None then Some (True, k)
          else if desc_pixelformat desc = fourcc
          then Some (desc_flags desc AND V4L2_FMT_FLAG_COMPRESSED \<noteq> 0, k)
          else enum_formats K' fd' fourcc (desc\<lparr>desc_index := desc_index desc + 1\<rparr>) k) = Some y"
    from run obtain e desc' k' where x: "xioctl (VIDIOC_ENUM_FMT K' fd') desc k = Some (e, desc', k')"
      by (auto simp: bind_iff)
    show "K' = K \<longrightarrow> fd' = fd \<longrightarrow> P k \<longrightarrow> P (snd y)"
    proof (intro impI)
      assume "K' = K" "fd' = fd" "P k"
      with x have "P k'" by (auto intro: keeps)
      with \<open>K' = K\<close> \<open>fd' = fd\<close> x run IH [of K' fd' fourcc "desc'\<lparr>desc_index := desc_index desc' + 1\<rparr>" k' y]
      show "P (snd y)" by (auto split: if_splits)
    qed
  qed
  from this [OF assms(1)] assms(2) show ?thesis by simp
qed

text \<open>The error a retried call returns is never the interruption itself.\<close>

lemma xioctl_not_interrupted:
  assumes "xioctl req a k = Some (e, a', k')"
  shows "e \<noteq> Some EINTR"
proof -
  have "fst r \<noteq> Some EINTR" if "xioctl q a k = Some r" for q :: "('a, 'k) ioctl" and a k r
    by (rule xioctl.raw_induct [where P = "\<lambda>q a k r. fst r \<noteq> Some EINTR", OF _ that])
      (auto split: prod.splits if_splits)
  from this [OF assms] show ?thesis by simp
qed

end
