(* ===== verification/V4L2_Resources.thy ===== *)
theory V4L2_Resources
  imports V4L2_Device "HOL-Library.Multiset"
begin

text \<open>
  What the device owns. A kernel is wrapped so that it keeps a ledger of the descriptors
  that are open and of the memory mappings that are live; the wrapped kernel is a kernel
  like any other, so the state machine and the device run on it unchanged. The theorems
  say that the ledger always agrees with what the device object remembers, hence that
  nothing leaks through any sequence of disruptions.
\<close>

subsection \<open>A kernel with a ledger\<close>

record 'k ledger =
  lg_kernel :: 'k
  lg_maps :: "(u64 \<times> u32) multiset"
  lg_fds :: "int multiset"

definition ledger_ioctl :: "('a, 'k) ioctl \<Rightarrow> ('a, 'k ledger) ioctl" where
  "ledger_ioctl req a l =
     (case req a (lg_kernel l) of (e, a', k) \<Rightarrow> (e, a', l\<lparr>lg_kernel := k\<rparr>))"

definition ledger_now :: "('k \<Rightarrow> ns \<times> 'k) \<Rightarrow> 'k ledger \<Rightarrow> ns \<times> 'k ledger" where
  "ledger_now now l = (case now (lg_kernel l) of (t, k) \<Rightarrow> (t, l\<lparr>lg_kernel := k\<rparr>))"

definition ledgered :: "'k kernel \<Rightarrow> 'k ledger kernel" where
  "ledgered K =
     \<lparr>sys_open = (\<lambda>path l. case sys_open K path (lg_kernel l) of (fd, k) \<Rightarrow>
        (fd, l\<lparr>lg_kernel := k, lg_fds := (if 0 \<le> fd then add_mset fd (lg_fds l) else lg_fds l)\<rparr>)),
      sys_close = (\<lambda>fd l.
        l\<lparr>lg_kernel := sys_close K fd (lg_kernel l), lg_fds := lg_fds l - {#fd#}\<rparr>),
      VIDIOC_G_FMT = (\<lambda>fd. ledger_ioctl (VIDIOC_G_FMT K fd)),
      VIDIOC_ENUM_FMT = (\<lambda>fd. ledger_ioctl (VIDIOC_ENUM_FMT K fd)),
      VIDIOC_REQBUFS = (\<lambda>fd. ledger_ioctl (VIDIOC_REQBUFS K fd)),
      VIDIOC_QUERYBUF = (\<lambda>fd. ledger_ioctl (VIDIOC_QUERYBUF K fd)),
      VIDIOC_QBUF = (\<lambda>fd. ledger_ioctl (VIDIOC_QBUF K fd)),
      VIDIOC_DQBUF = (\<lambda>fd. ledger_ioctl (VIDIOC_DQBUF K fd)),
      VIDIOC_STREAMON = (\<lambda>fd. ledger_ioctl (VIDIOC_STREAMON K fd)),
      VIDIOC_STREAMOFF = (\<lambda>fd. ledger_ioctl (VIDIOC_STREAMOFF K fd)),
      sys_mmap = (\<lambda>fd len off l. case sys_mmap K fd len off (lg_kernel l) of (a, k) \<Rightarrow>
        (a, l\<lparr>lg_kernel := k,
              lg_maps := (case a of None \<Rightarrow> lg_maps l | Some x \<Rightarrow> add_mset (x, len) (lg_maps l))\<rparr>)),
      sys_munmap = (\<lambda>a len l.
        l\<lparr>lg_kernel := sys_munmap K a len (lg_kernel l), lg_maps := lg_maps l - {#(a, len)#}\<rparr>),
      sys_poll = (\<lambda>fd t l. case sys_poll K fd t (lg_kernel l) of (rc, ev, e, k) \<Rightarrow>
        (rc, ev, e, l\<lparr>lg_kernel := k\<rparr>)),
      steady_clock_now = ledger_now (steady_clock_now K),
      system_clock_now = ledger_now (system_clock_now K)\<rparr>"

definition new_ledger :: "'k \<Rightarrow> 'k ledger" where
  "new_ledger k = \<lparr>lg_kernel = k, lg_maps = {#}, lg_fds = {#}\<rparr>"

text \<open>\<open>mmap\<close> without a requested address never maps the page at 0.\<close>

definition mmap_never_null :: "'k kernel \<Rightarrow> bool" where
  "mmap_never_null K \<longleftrightarrow> (\<forall>fd len off k. fst (sys_mmap K fd len off k) \<noteq> Some 0)"

subsection \<open>The books of the device\<close>

definition mapping_of :: "mapped_buffer \<Rightarrow> u64 \<times> u32" where
  "mapping_of b = (mb_address b, mb_length b)"

definition balanced :: "'k ledger v4l2 \<Rightarrow> bool" where
  "balanced d \<longleftrightarrow>
     lg_maps (v_kernel d) = image_mset mapping_of (mset (v_buffers d)) \<and>
     lg_fds (v_kernel d) = (if 0 \<le> v_fd d then {#v_fd d#} else {#}) \<and>
     (\<forall>b \<in> set (v_buffers d). mb_address b \<noteq> 0)"

definition same_books :: "(u64 \<times> u32) multiset \<Rightarrow> int multiset \<Rightarrow> 'k ledger \<Rightarrow> bool" where
  "same_books M F l \<longleftrightarrow> lg_maps l = M \<and> lg_fds l = F"

lemma ledger_ioctl_books:
  assumes "xioctl (ledger_ioctl req) a l = Some (e, a', l')"
  shows "lg_maps l' = lg_maps l \<and> lg_fds l' = lg_fds l"
proof -
  have "same_books (lg_maps l) (lg_fds l) l'"
    by (rule xioctl_inv [OF assms]) (auto simp: same_books_def ledger_ioctl_def split: prod.splits)
  then show ?thesis by (simp add: same_books_def)
qed

lemma ledgered_xioctl:
  "xioctl (VIDIOC_G_FMT (ledgered K) fd) a l = Some (e, a', l') \<Longrightarrow>
     lg_maps l' = lg_maps l \<and> lg_fds l' = lg_fds l"
  "xioctl (VIDIOC_ENUM_FMT (ledgered K) fd) a2 l = Some (e, a2', l') \<Longrightarrow>
     lg_maps l' = lg_maps l \<and> lg_fds l' = lg_fds l"
  "xioctl (VIDIOC_REQBUFS (ledgered K) fd) n l = Some (e, n', l') \<Longrightarrow>
     lg_maps l' = lg_maps l \<and> lg_fds l' = lg_fds l"
  "xioctl (VIDIOC_QUERYBUF (ledgered K) fd) b l = Some (e, b', l') \<Longrightarrow>
     lg_maps l' = lg_maps l \<and> lg_fds l' = lg_fds l"
  "xioctl (VIDIOC_QBUF (ledgered K) fd) b l = Some (e, b', l') \<Longrightarrow>
     lg_maps l' = lg_maps l \<and> lg_fds l' = lg_fds l"
  "xioctl (VIDIOC_DQBUF (ledgered K) fd) b l = Some (e, b', l') \<Longrightarrow>
     lg_maps l' = lg_maps l \<and> lg_fds l' = lg_fds l"
  "xioctl (VIDIOC_STREAMON (ledgered K) fd) u l = Some (e, u', l') \<Longrightarrow>
     lg_maps l' = lg_maps l \<and> lg_fds l' = lg_fds l"
  "xioctl (VIDIOC_STREAMOFF (ledgered K) fd) u l = Some (e, u', l') \<Longrightarrow>
     lg_maps l' = lg_maps l \<and> lg_fds l' = lg_fds l"
  by (auto simp: ledgered_def dest: ledger_ioctl_books)

lemma balanced_kernel:
  "balanced d \<Longrightarrow> lg_maps l = lg_maps (v_kernel d) \<Longrightarrow> lg_fds l = lg_fds (v_kernel d) \<Longrightarrow>
     balanced (d\<lparr>v_kernel := l\<rparr>)"
  by (simp add: balanced_def)

lemma unmap_all_books:
  assumes "\<forall>b \<in> set bs. mb_address b \<noteq> 0" and "lg_maps l = image_mset mapping_of (mset bs)"
  shows "lg_maps (fold (unmap_one (ledgered K)) bs l) = {#} \<and>
    lg_fds (fold (unmap_one (ledgered K)) bs l) = lg_fds l"
  using assms
proof (induction bs arbitrary: l)
  case Nil
  then show ?case by simp
next
  case (Cons b bs)
  let ?l = "unmap_one (ledgered K) b l"
  have "lg_maps ?l = image_mset mapping_of (mset bs)" "lg_fds ?l = lg_fds l"
    using Cons.prems by (simp_all add: unmap_one_def ledgered_def flip: mapping_of_def)
  with Cons show ?case by simp
qed

lemma unmap_buffers_books:
  "balanced d \<Longrightarrow> lg_maps (v_kernel (unmap_buffers (ledgered K) d)) = {#} \<and>
     lg_fds (v_kernel (unmap_buffers (ledgered K) d)) = lg_fds (v_kernel d)"
  using unmap_all_books [of "v_buffers d" "v_kernel d" K] by (simp add: unmap_buffers_def balanced_def)

lemma unmap_buffers_balanced: "balanced d \<Longrightarrow> balanced (unmap_buffers (ledgered K) d)"
  using unmap_buffers_books [of d K] by (simp add: balanced_def)

subsection \<open>Every call balances the books\<close>

text \<open>Mapping one more buffer enters it in both books.\<close>

lemma mmap_balanced:
  assumes "balanced d" and "mmap_never_null K"
    and "sys_mmap (ledgered K) fd len off (v_kernel d) = (Some a, l)"
  shows "balanced (d\<lparr>v_kernel := l, v_buffers := v_buffers d @ [\<lparr>mb_address = a, mb_length = len\<rparr>]\<rparr>)"
proof -
  from assms(3) obtain k where k: "sys_mmap K fd len off (lg_kernel (v_kernel d)) = (Some a, k)"
    and l: "l = (v_kernel d)\<lparr>lg_kernel := k, lg_maps := add_mset (a, len) (lg_maps (v_kernel d))\<rparr>"
    by (auto simp: ledgered_def split: prod.splits)
  have "a \<noteq> 0" using assms(2) k by (metis fst_conv mmap_never_null_def)
  with assms(1) l show ?thesis by (simp add: balanced_def mapping_of_def)
qed

lemma mmap_failed_books:
  "sys_mmap (ledgered K) fd len off l = (None, l') \<Longrightarrow> lg_maps l' = lg_maps l \<and> lg_fds l' = lg_fds l"
  by (auto simp: ledgered_def split: prod.splits)

lemma map_buffers_balanced:
  "map_buffers (ledgered K) n i d = Some (good, d') \<Longrightarrow> balanced d \<Longrightarrow> mmap_never_null K \<Longrightarrow> balanced d'"
proof (induction n arbitrary: i d)
  case 0
  then show ?case by simp
next
  case (Suc n)
  let ?L = "ledgered K"
  from Suc.prems(1) obtain e buf l where
    q: "xioctl (VIDIOC_QUERYBUF ?L (v_fd d)) (v4l2_buffer_zero\<lparr>buf_index := i\<rparr>) (v_kernel d) = Some (e, buf, l)"
    by (auto simp: bind_iff)
  obtain addr l2 where m: "sys_mmap ?L (v_fd d) (buf_length buf) (buf_offset buf) l = (addr, l2)"
    by fastforce
  have d1: "balanced (d\<lparr>v_kernel := l\<rparr>)"
    using Suc.prems(2) ledgered_xioctl(4) [OF q] by (simp add: balanced_kernel)
  show ?case
  proof (cases "e = None \<and> addr \<noteq> None")
    case False
    have "addr = None \<Longrightarrow> balanced (d\<lparr>v_kernel := l2\<rparr>)"
      using m mmap_failed_books balanced_kernel [OF d1, of l2] by fastforce
    then show ?thesis
      using Suc.prems(1) q m False unmap_buffers_balanced [OF d1]
        unmap_buffers_balanced [of "d\<lparr>v_kernel := l2\<rparr>" K]
      by (auto simp: Let_def split: if_splits)
  next
    case True
    then obtain a where a: "addr = Some a" and e: "e = None" by auto
    define d2 where "d2 = d\<lparr>v_kernel := l2, v_buffers := v_buffers d @ [\<lparr>mb_address = a, mb_length = buf_length buf\<rparr>]\<rparr>"
    have d2: "balanced d2"
      using mmap_balanced [OF d1 Suc.prems(3)] m a by (simp add: d2_def)
    from Suc.prems(1) q m a e obtain e2 buf2 l3 where
      x: "xioctl (VIDIOC_QBUF ?L (v_fd d)) buf l2 = Some (e2, buf2, l3)"
      by (auto simp: bind_iff Let_def)
    have d3: "balanced (d2\<lparr>v_kernel := l3\<rparr>)"
      using balanced_kernel [OF d2, of l3] ledgered_xioctl(5) [OF x] by (simp add: d2_def)
    have "if e2 \<noteq> None then d' = unmap_buffers ?L (d2\<lparr>v_kernel := l3\<rparr>)
      else map_buffers ?L n (i + 1) (d2\<lparr>v_kernel := l3\<rparr>) = Some (good, d')"
      using Suc.prems(1) q m a e x by (auto simp: d2_def Let_def split: if_splits)
    then show ?thesis
      using Suc.IH [OF _ d3 Suc.prems(3)] unmap_buffers_balanced [OF d3] by (auto split: if_splits)
  qed
qed

lemma start_balanced:
  assumes run: "v4l2_start_streaming (ledgered K) n d = Some (r, d')"
    and d: "balanced d" "v_buffers d = []" and K: "mmap_never_null K"
  shows "balanced d'"
proof -
  let ?L = "ledgered K"
  from run obtain e count l where
    q: "xioctl (VIDIOC_REQBUFS ?L (v_fd d)) n (v_kernel d) = Some (e, count, l)"
    by (auto simp: v4l2_start_streaming_def bind_iff Let_def)
  have d1: "balanced (d\<lparr>v_kernel := l\<rparr>)"
    using d(1) ledgered_xioctl(3) [OF q] by (simp add: balanced_kernel)
  have d2: "balanced (d\<lparr>v_kernel := l, v_buffers := []\<rparr>)"
    using d1 d(2) by (simp add: balanced_def)
  show ?thesis
  proof (cases e)
    case (Some x)
    with run q d1 show ?thesis by (simp add: v4l2_start_streaming_def Let_def)
  next
    case None
    with run q obtain good d3 where
      m: "map_buffers ?L (unat count) 0 (d\<lparr>v_kernel := l, v_buffers := []\<rparr>) = Some (good, d3)"
      by (auto simp: v4l2_start_streaming_def bind_iff Let_def)
    have d3: "balanced d3" by (rule map_buffers_balanced [OF m d2 K])
    show ?thesis
    proof (cases good)
      case False
      with run q None m d3 show ?thesis by (simp add: v4l2_start_streaming_def Let_def)
    next
      case True
      with run q None m obtain e2 u l2 where
        x: "xioctl (VIDIOC_STREAMON ?L (v_fd d3)) () (v_kernel d3) = Some (e2, u, l2)"
        by (auto simp: v4l2_start_streaming_def bind_iff Let_def)
      have d4: "balanced (d3\<lparr>v_kernel := l2\<rparr>)"
        using d3 ledgered_xioctl(7) [OF x] by (simp add: balanced_kernel)
      then have "balanced (d3\<lparr>v_kernel := l2, v_streaming := True\<rparr>)" by (simp add: balanced_def)
      with run q None m True x unmap_buffers_balanced [OF d4] show ?thesis
        by (cases e2) (auto simp: v4l2_start_streaming_def Let_def)
    qed
  qed
qed

lemma query_balanced:
  assumes "v4l2_query_format (ledgered K) f d = Some (r, g, d')" and "balanced d"
  shows "balanced d'"
proof -
  have enum: "lg_maps k' = lg_maps k \<and> lg_fds k' = lg_fds k"
    if "enum_formats (ledgered K) fd fourcc desc k = Some (b, k')" for fd fourcc desc k b k'
  proof -
    have "same_books (lg_maps k) (lg_fds k) k'"
      by (rule enum_formats_inv [OF that]) (auto simp: same_books_def dest: ledgered_xioctl)
    then show ?thesis by (simp add: same_books_def)
  qed
  from assms(1) obtain e pix l where
    q: "xioctl (VIDIOC_G_FMT (ledgered K) (v_fd d)) pix_format_zero (v_kernel d) = Some (e, pix, l)"
    by (auto simp: v4l2_query_format_def bind_iff)
  have d1: "balanced (d\<lparr>v_kernel := l\<rparr>)"
    using assms(2) ledgered_xioctl(1) [OF q] by (simp add: balanced_kernel)
  show ?thesis
  proof (cases e)
    case (Some x)
    with assms(1) q d1 show ?thesis by (auto simp: v4l2_query_format_def Let_def split: if_splits)
  next
    case None
    with assms(1) q obtain b l2 where
      n: "enum_formats (ledgered K) (v_fd d) (pix_pixelformat pix) fmtdesc_zero l = Some (b, l2)"
        and d': "d' = d\<lparr>v_kernel := l2\<rparr>"
      by (auto simp: v4l2_query_format_def query_compressed_def Let_def bind_iff)
    show ?thesis
      unfolding d' using enum [OF n] ledgered_xioctl(1) [OF q] assms(2) by (simp add: balanced_kernel)
  qed
qed

lemma stop_balanced:
  assumes "v4l2_stop_streaming (ledgered K) d = Some d'" and "balanced d"
  shows "balanced d'"
proof (cases "v_streaming d")
  case False
  with assms show ?thesis by (auto simp: v4l2_stop_streaming_def intro: unmap_buffers_balanced)
next
  case True
  with assms(1) obtain e u l where
    q: "xioctl (VIDIOC_STREAMOFF (ledgered K) (v_fd d)) () (v_kernel d) = Some (e, u, l)"
      and d': "d' = unmap_buffers (ledgered K) (d\<lparr>v_kernel := l, v_streaming := False\<rparr>)"
    by (auto simp: v4l2_stop_streaming_def bind_iff)
  have "balanced (d\<lparr>v_kernel := l, v_streaming := False\<rparr>)"
    using assms(2) ledgered_xioctl(8) [OF q] by (simp add: balanced_def)
  then show ?thesis unfolding d' by (rule unmap_buffers_balanced)
qed

lemma open_balanced:
  assumes "v4l2_open (ledgered K) d = Some (r, d')" and "balanced d" and "\<not> v4l2_is_open d"
  shows "balanced d'"
  using assms by (auto simp: v4l2_open_def Let_def ledgered_def balanced_def v4l2_is_open_def split: prod.splits if_splits)

lemma close_balanced:
  assumes "v4l2_close (ledgered K) d = Some d'" and "balanced d"
  shows "balanced d' \<and> lg_maps (v_kernel d') = {#} \<and> lg_fds (v_kernel d') = {#}"
proof -
  let ?u = "unmap_buffers (ledgered K) d"
  note u = unmap_buffers_books [OF assms(2), of K]
  have close: "lg_maps (sys_close (ledgered K) fd l) = lg_maps l"
    "lg_fds (sys_close (ledgered K) fd l) = lg_fds l - {#fd#}" for fd l
    by (simp_all add: ledgered_def)
  show ?thesis
  proof (cases "0 \<le> v_fd d")
    case True
    with assms have "d' = ?u\<lparr>v_kernel := sys_close (ledgered K) (v_fd d) (v_kernel ?u), v_fd := -1\<rparr>"
      by (simp add: v4l2_close_def Let_def)
    with u True assms(2) show ?thesis by (simp add: balanced_def close)
  next
    case False
    with assms have "d' = ?u" by (simp add: v4l2_close_def Let_def)
    with u False assms(2) show ?thesis by (simp add: balanced_def)
  qed
qed

lemma dequeue_balanced:
  assumes "v4l2_dequeue_frame (ledgered K) t f d = Some (r, g, d')" and "balanced d"
  shows "balanced d'"
proof -
  let ?L = "ledgered K"
  obtain rc ev err l where
    p: "sys_poll ?L (v_fd d) (signed_take_bit 31 t) (v_kernel d) = (rc, ev, err, l)"
    by (cases "sys_poll ?L (v_fd d) (signed_take_bit 31 t) (v_kernel d)") auto
  have l: "lg_maps l = lg_maps (v_kernel d)" "lg_fds l = lg_fds (v_kernel d)"
    using p by (auto simp: ledgered_def split: prod.splits)
  have now: "lg_maps l3 = lg_maps l2 \<and> lg_fds l3 = lg_fds l2"
    if "steady_clock_now ?L l2 = (now, l3)" for now l2 l3
    using that by (auto simp: ledgered_def ledger_now_def split: prod.splits)
  show ?thesis
  proof (cases "rc \<le> 0 \<or> ev AND (POLLERR OR POLLHUP OR POLLNVAL) \<noteq> 0")
    case True
    with assms(1) p have "d' = d\<lparr>v_kernel := l\<rparr>"
      by (auto simp: v4l2_dequeue_frame_def Let_def split: if_splits)
    with l assms(2) show ?thesis by (simp add: balanced_kernel)
  next
    case False
    with assms(1) p obtain e buf l2 where
      x: "xioctl (VIDIOC_DQBUF ?L (v_fd d)) v4l2_buffer_zero l = Some (e, buf, l2)"
      by (auto simp: v4l2_dequeue_frame_def Let_def bind_iff)
    obtain t3 l3 where c: "steady_clock_now ?L l2 = (t3, l3)" by fastforce
    have "d' = d\<lparr>v_kernel := l2\<rparr> \<or> d' = d\<lparr>v_kernel := l3\<rparr>"
      using assms(1) p False x c by (auto simp: v4l2_dequeue_frame_def Let_def split: if_splits)
    with l assms(2) ledgered_xioctl(6) [OF x] now [OF c] show ?thesis by (auto simp: balanced_kernel)
  qed
qed

lemma requeue_balanced:
  "v4l2_requeue_frame (ledgered K) i d = Some d' \<Longrightarrow> balanced d \<Longrightarrow> balanced d'"
  by (auto simp: v4l2_requeue_frame_def bind_iff balanced_kernel dest: ledgered_xioctl)

lemma clock_balanced:
  "clock_of (steady_clock_now (ledgered K)) d = (t, d') \<Longrightarrow> balanced d \<Longrightarrow> balanced d'"
  "clock_of (system_clock_now (ledgered K)) d = (t, d') \<Longrightarrow> balanced d \<Longrightarrow> balanced d'"
  by (auto simp: clock_of_def ledgered_def ledger_now_def balanced_def Let_def split: prod.splits)

text \<open>
  The invariant of the guarded environment: opening needs no open descriptor, starting a
  stream no mapped buffers. That the machine never runs into a guard is a theorem about
  \<^const>\<open>device_run\<close>, so the guards cost nothing.
\<close>

interpretation books: env_invariant
  "guarded v4l2_is_open v4l2_engaged (v4l2_env (ledgered K))"
  "\<lambda>d. mmap_never_null K \<longrightarrow> balanced d" for K :: "'k kernel"
  by unfold_locales
    (auto simp: v4l2_env_def v4l2_engaged_def split: if_splits
       dest: open_balanced close_balanced query_balanced start_balanced
         stop_balanced dequeue_balanced requeue_balanced clock_balanced)

text \<open>What the rest of the system may do to the world: anything except with our resources.\<close>

definition outside :: "'k ledger v4l2 \<Rightarrow> 'k ledger v4l2 \<Rightarrow> bool" where
  "outside d d' \<longleftrightarrow> (\<exists>k. d' = d\<lparr>v_kernel := (v_kernel d)\<lparr>lg_kernel := k\<rparr>\<rparr>)"

lemma outside_keeps:
  "outside d d' \<Longrightarrow> v4l2_is_open d' = v4l2_is_open d \<and> v4l2_engaged d' = v4l2_engaged d"
  "outside d d' \<Longrightarrow> v_streaming d' = v_streaming d"
  "outside d d' \<Longrightarrow> balanced d \<Longrightarrow> balanced d'"
  by (auto simp: outside_def v4l2_is_open_def v4l2_engaged_def balanced_def)

lemma ledger_run:
  assumes run: "device_run (v4l2_env (ledgered K)) outside cfg (v4l2_new path (new_ledger k)) m d"
    and K: "mmap_never_null K"
  shows "fd_discipline (v4l2_is_open d) (v4l2_engaged d) m" and "balanced d"
proof -
  have start: "\<not> v4l2_is_open (v4l2_new path (new_ledger k))" "\<not> v4l2_engaged (v4l2_new path (new_ledger k))"
    by (simp_all add: v4l2_new_def v4l2_is_open_def v4l2_engaged_def)
  show "fd_discipline (v4l2_is_open d) (v4l2_engaged d) m"
    by (rule v4l2_res.run_discipline [OF run start]) (rule outside_keeps)
  have "device_run (guarded v4l2_is_open v4l2_engaged (v4l2_env (ledgered K))) outside cfg
          (v4l2_new path (new_ledger k)) m d"
    by (rule v4l2_res.run_guarded [OF run start]) (rule outside_keeps)
  then have "mmap_never_null K \<longrightarrow> balanced d"
    by (rule books.run_I) (simp add: balanced_def v4l2_new_def new_ledger_def, blast dest: outside_keeps(3))
  with K show "balanced d" by simp
qed

lemma destroy_releases:
  assumes "v4l2_destroy (ledgered K) d = Some d'" and "balanced d"
  shows "lg_maps (v_kernel d') = {#} \<and> lg_fds (v_kernel d') = {#}"
  using assms by (auto simp: v4l2_destroy_def bind_iff dest!: stop_balanced dest: close_balanced)

end
