(* ===== verification/Json_Logger.thy ===== *)
theory Json_Logger
  imports Metrics_Text
begin

text \<open>
  \<^verbatim>\<open>json_logger.hpp\<close> and \<^verbatim>\<open>json_logger.cpp\<close>: one JSON object per
  line. A \<open>Line\<close> is the text built so far, or nothing when its level is below the
  configured minimum; ending it yields the text written to the stream. The time is the
  reading of the system clock in nanoseconds since 1970. The specification is a reader of
  flat JSON objects that recovers every field.
\<close>

subsection \<open>Levels\<close>

datatype log_level = LL_Debug | LL_Info | LL_Warn | LL_Error

fun log_level_code :: "log_level \<Rightarrow> nat" where
  "log_level_code LL_Debug = 0"
| "log_level_code LL_Info = 1"
| "log_level_code LL_Warn = 2"
| "log_level_code LL_Error = 3"

lemma log_level_code_inj: "log_level_code a = log_level_code b \<Longrightarrow> a = b"
  by (cases a; cases b) simp_all

text \<open>\<open>enum class LogLevel\<close> is compared by its values.\<close>

instantiation log_level :: linorder
begin

definition less_eq_log_level :: "log_level \<Rightarrow> log_level \<Rightarrow> bool" where
  "less_eq_log_level a b \<longleftrightarrow> log_level_code a \<le> log_level_code b"

definition less_log_level :: "log_level \<Rightarrow> log_level \<Rightarrow> bool" where
  "less_log_level a b \<longleftrightarrow> log_level_code a < log_level_code b"

instance
  by standard (auto simp: less_eq_log_level_def less_log_level_def dest: log_level_code_inj)

end

fun level_string :: "log_level \<Rightarrow> string" where
  "level_string LL_Debug = ''debug''"
| "level_string LL_Info = ''info''"
| "level_string LL_Warn = ''warn''"
| "level_string LL_Error = ''error''"

text \<open>Returns the level, or none where the source returns false.\<close>

definition parse_log_level :: "string \<Rightarrow> log_level option" where
  "parse_log_level text =
     (if text = ''debug'' then Some LL_Debug
      else if text = ''info'' then Some LL_Info
      else if text = ''warn'' then Some LL_Warn
      else if text = ''error'' then Some LL_Error
      else None)"

lemma parse_log_level_iff: "parse_log_level text = Some l \<longleftrightarrow> text = level_string l"
  by (cases l) (auto simp: parse_log_level_def)

subsection \<open>The time stamp\<close>

text \<open>
  The broken-down time of \<open>gmtime_r\<close>: the Gregorian calendar date of a day counted from
  1970-01-01, computed in eras of 400 years that begin on the first of March.
\<close>

definition civil_of_days :: "int \<Rightarrow> int \<times> int \<times> int" where
  "civil_of_days day =
     (let z = day + 719468;
          era = z div 146097;
          doe = z mod 146097;
          yoe = (doe - doe div 1460 + doe div 36524 - doe div 146096) div 365;
          doy = doe - (365 * yoe + yoe div 4 - yoe div 100);
          mp = (5 * doy + 2) div 153;
          d = doy - (153 * mp + 2) div 5 + 1;
          m = (if mp < 10 then mp + 3 else mp - 9);
          y = yoe + era * 400 + (if m \<le> 2 then 1 else 0)
      in (y, m, d))"

text \<open>\<open>%0\<close>\<^emph>\<open>w\<close>\<open>d\<close> of printf: zeros fill the field after the sign.\<close>

definition pad_int :: "nat \<Rightarrow> int \<Rightarrow> string" where
  "pad_int w i =
     (let s = show_nat (nat \<bar>i\<bar>);
          sign = (if i < 0 then ''-'' else [])
      in sign @ replicate (w - length s - length sign) CHR ''0'' @ s)"

definition rfc3339 :: "ns \<Rightarrow> string" where
  "rfc3339 now =
     (let t = s_of_ns now;
          ms = ms_of_ns now - 1000 * tdiv (ms_of_ns now) 1000;
          (y, m, d) = civil_of_days (t div 86400);
          sod = t mod 86400
      in pad_int 4 y @ ''-'' @ pad_int 2 m @ ''-'' @ pad_int 2 d @ ''T'' @
         pad_int 2 (sod div 3600) @ '':'' @ pad_int 2 (sod div 60 mod 60) @ '':'' @
         pad_int 2 (sod mod 60) @ ''.'' @ pad_int 3 ms @ ''Z'')"

subsection \<open>Lines\<close>

fun escape :: "string \<Rightarrow> string" where
  "escape [] = []"
| "escape (c # s) = (if c = quote \<or> c = backslash then [backslash, c] else [c]) @ escape s"

text \<open>A line under construction; none when it goes nowhere (\<open>out_ == nullptr\<close>).\<close>

type_synonym log_line = "string option"

definition log :: "log_level \<Rightarrow> ns \<Rightarrow> log_level \<Rightarrow> string \<Rightarrow> log_line" where
  "log min_level now level event =
     (if level < min_level then None
      else Some (''{'' @ [quote] @ ''ts'' @ [quote] @ '':'' @ [quote] @ rfc3339 now @
                 [quote] @ '','' @ [quote] @ ''level'' @ [quote] @ '':'' @ [quote] @ level_string level @
                 [quote] @ '','' @ [quote] @ ''event'' @ [quote] @ '':'' @ [quote] @ event @ [quote]))"

definition field_string :: "string \<Rightarrow> string \<Rightarrow> log_line \<Rightarrow> log_line" where
  "field_string key val line =
     (case line of
        None \<Rightarrow> None
      | Some buf \<Rightarrow> Some (buf @ '','' @ [quote] @ key @ [quote] @ '':'' @ [quote] @ escape val @ [quote]))"

definition field_u32 :: "string \<Rightarrow> u32 \<Rightarrow> log_line \<Rightarrow> log_line" where
  "field_u32 key val line =
     (case line of
        None \<Rightarrow> None
      | Some buf \<Rightarrow> Some (buf @ '','' @ [quote] @ key @ [quote] @ '':'' @ show_u32 val))"

text \<open>The destructor: what is written to the stream.\<close>

definition line_end :: "log_line \<Rightarrow> string" where
  "line_end line = (case line of None \<Rightarrow> [] | Some buf \<Rightarrow> buf @ ''}'' @ [newline])"

subsection \<open>The event sink\<close>

definition sink_emit :: "log_level \<Rightarrow> ns \<Rightarrow> event \<Rightarrow> string" where
  "sink_emit min_level now e =
     (case ev_type e of
        EV_DeviceOpened \<Rightarrow> line_end (log min_level now LL_Info ''device_opened'')
      | EV_AwaitingProducer \<Rightarrow> line_end (log min_level now LL_Info ''awaiting_producer'')
      | EV_StreamingStarted \<Rightarrow>
          line_end
            (field_string ''pixel_format'' (pixel_format_string (ev_format e))
              (field_u32 ''height'' (sf_height (ev_format e))
                (field_u32 ''width'' (sf_width (ev_format e))
                  (log min_level now LL_Info ''streaming_started''))))
      | EV_DeviceLost \<Rightarrow>
          line_end
            (field_string ''reason'' (error_reason_to_string (ev_reason e))
              (log min_level now LL_Warn ''device_lost''))
      | EV_Reconnecting \<Rightarrow> line_end (log min_level now LL_Info ''reconnecting'')
      | EV_StallDetected \<Rightarrow> line_end (log min_level now LL_Warn ''stall_detected'')
      | EV_StallCleared \<Rightarrow> line_end (log min_level now LL_Info ''stall_cleared'')
      | EV_FormatChanged \<Rightarrow>
          line_end
            (field_string ''previous_pixel_format'' (pixel_format_string (ev_previous_format e))
              (field_u32 ''previous_height'' (sf_height (ev_previous_format e))
                (field_u32 ''previous_width'' (sf_width (ev_previous_format e))
                  (field_string ''pixel_format'' (pixel_format_string (ev_format e))
                    (field_u32 ''height'' (sf_height (ev_format e))
                      (field_u32 ''width'' (sf_width (ev_format e))
                        (log min_level now LL_Info ''format_changed''))))))))"

subsection \<open>A reader of flat objects\<close>

datatype json_value = J_string string | J_number nat

text \<open>The rest of a string after its opening quote, up to the quote that closes it.\<close>

fun read_string :: "string \<Rightarrow> (string \<times> string) option" where
  "read_string [] = None"
| "read_string (c # s) =
     (if c = quote then Some ([], s)
      else if c = backslash
      then (case s of [] \<Rightarrow> None | d # s' \<Rightarrow> map_option (\<lambda>(t, r). (d # t, r)) (read_string s'))
      else map_option (\<lambda>(t, r). (c # t, r)) (read_string s))"

definition read_value :: "string \<Rightarrow> (json_value \<times> string) option" where
  "read_value s =
     (if starts_with [quote] s
      then map_option (\<lambda>(t, r). (J_string t, r)) (read_string (tl s))
      else let ds = takeWhile is_digit s
           in if ds = [] then None else Some (J_number (digits_value ds), dropWhile is_digit s))"

text \<open>The members of an object up to its closing brace, \<open>n\<close> at most.\<close>

fun read_members :: "nat \<Rightarrow> string \<Rightarrow> (string \<times> json_value) list option" where
  "read_members 0 s = None"
| "read_members (Suc n) s =
     (if \<not> starts_with [quote] s then None
      else do {
        (key, s) \<leftarrow> read_string (tl s);
        if \<not> starts_with '':'' s then None
        else do {
          (v, s) \<leftarrow> read_value (tl s);
          if s = ''}'' then Some [(key, v)]
          else if starts_with '','' s
          then map_option (\<lambda>ms. (key, v) # ms) (read_members n (tl s))
          else None
        }
      })"

definition read_object :: "string \<Rightarrow> (string \<times> json_value) list option" where
  "read_object s = (if starts_with ''{'' s then read_members (length s) (tl s) else None)"

definition read_log :: "string \<Rightarrow> (string \<times> json_value) list option list" where
  "read_log t = map read_object (fst (split_lines t))"

subsection \<open>What a line says\<close>

definition plain_key :: "string \<Rightarrow> bool" where
  "plain_key k \<longleftrightarrow> quote \<notin> set k \<and> backslash \<notin> set k"

fun member_text :: "string \<times> json_value \<Rightarrow> string" where
  "member_text (k, J_string v) = [quote] @ k @ [quote] @ '':'' @ [quote] @ escape v @ [quote]"
| "member_text (k, J_number n) = [quote] @ k @ [quote] @ '':'' @ show_nat n"

fun members_text :: "(string \<times> json_value) list \<Rightarrow> string" where
  "members_text [] = []"
| "members_text (m # ms) = member_text m @ (if ms = [] then [] else '','' @ members_text ms)"

lemma members_text_snoc:
  "ms \<noteq> [] \<Longrightarrow> members_text (ms @ [m]) = members_text ms @ '','' @ member_text m"
  by (induction ms) auto

lemma escape_plain: "plain_key s \<Longrightarrow> escape s = s"
  by (induction s) (auto simp: plain_key_def)

lemma read_string_escape [simp]: "read_string (escape s @ quote # r) = Some (s, r)"
  by (induction s) (auto simp: char_defs)

lemma read_string_plain: "plain_key k \<Longrightarrow> read_string (k @ quote # r) = Some (k, r)"
  using read_string_escape [of k r] by (simp add: escape_plain)

lemma read_value_text:
  assumes "r \<noteq> [] \<and> \<not> is_digit (hd r)"
  shows "read_value ([quote] @ escape v @ [quote] @ r) = Some (J_string v, r)"
    and "read_value (show_nat n @ r) = Some (J_number n, r)"
proof -
  show "read_value ([quote] @ escape v @ [quote] @ r) = Some (J_string v, r)"
    by (simp add: read_value_def starts_with_def)
  have "is_digit (hd (show_nat n))" by (rule show_nat_digits [of _ n]) simp
  then have "hd (show_nat n) \<noteq> quote" by (auto simp: is_digit_def quote_def)
  then have "\<not> starts_with [quote] (show_nat n @ r)"
    by (cases "show_nat n") (simp_all add: starts_with_def)
  with takeWhile_show_nat [of r n] assms show "read_value (show_nat n @ r) = Some (J_number n, r)"
    by (simp add: read_value_def)
qed

lemma read_member:
  assumes "plain_key (fst m)" and "r \<noteq> [] \<and> \<not> is_digit (hd r)"
  shows "\<exists>s. member_text m @ r = quote # s \<and>
    (\<exists>t. read_string s = Some (fst m, CHR '':'' # t) \<and> read_value t = Some (snd m, r))"
proof (cases m)
  case (Pair k v)
  show ?thesis
  proof (cases v)
    case (J_string x)
    with Pair assms read_value_text(1) [OF assms(2), of x] show ?thesis
      by (simp add: read_string_plain)
  next
    case (J_number n)
    with Pair assms read_value_text(2) [OF assms(2), of n] show ?thesis
      by (simp add: read_string_plain)
  qed
qed

lemma read_members_text:
  "ms \<noteq> [] \<Longrightarrow> \<forall>m \<in> set ms. plain_key (fst m) \<Longrightarrow> length ms \<le> n \<Longrightarrow>
     read_members n (members_text ms @ ''}'') = Some ms"
proof (induction ms arbitrary: n)
  case Nil
  then show ?case by simp
next
  case (Cons m ms)
  then obtain k where n: "n = Suc k" by (cases n) auto
  let ?r = "(if ms = [] then [] else '','' @ members_text ms) @ ''}''"
  have "?r \<noteq> [] \<and> \<not> is_digit (hd ?r)" by (simp add: is_digit_def)
  with Cons.prems obtain s t where "member_text m @ ?r = quote # s"
    and "read_string s = Some (fst m, CHR '':'' # t)" and "read_value t = Some (snd m, ?r)"
    using read_member [of m ?r] by auto
  then have "read_members n (members_text (m # ms) @ ''}'') =
      (if ms = [] then Some [m] else map_option (\<lambda>ms. m # ms) (read_members k (members_text ms @ ''}'')))"
    by (auto simp: n starts_with_def)
  with Cons.IH [of k] Cons.prems n show ?case by auto
qed

lemma member_text_length: "0 < length (member_text m)"
  by (cases m; cases "snd m") auto

lemma members_text_length: "length ms \<le> length (members_text ms)"
  using member_text_length by (induction ms) (auto simp: Suc_le_eq le_less_trans trans_less_add1 add_strict_mono)

definition object_text :: "(string \<times> json_value) list \<Rightarrow> string" where
  "object_text ms = ''{'' @ members_text ms @ ''}''"

lemma read_object_text:
  "ms \<noteq> [] \<Longrightarrow> \<forall>m \<in> set ms. plain_key (fst m) \<Longrightarrow> read_object (object_text ms) = Some ms"
  using members_text_length [of ms] read_members_text [of ms "length (object_text ms)"]
  by (simp add: read_object_def object_text_def starts_with_def del: read_members.simps)

text \<open>The writers, in terms of the members written so far.\<close>

definition log_members :: "ns \<Rightarrow> log_level \<Rightarrow> string \<Rightarrow> (string \<times> json_value) list" where
  "log_members now level event =
     [(''ts'', J_string (rfc3339 now)), (''level'', J_string (level_string level)), (''event'', J_string event)]"

definition open_line :: "(string \<times> json_value) list \<Rightarrow> log_line" where
  "open_line ms = Some (''{'' @ members_text ms)"

lemma field_string_line:
  "ms \<noteq> [] \<Longrightarrow> field_string k v (open_line ms) = open_line (ms @ [(k, J_string v)])"
  by (simp add: field_string_def open_line_def members_text_snoc)

lemma field_u32_line:
  "ms \<noteq> [] \<Longrightarrow> field_u32 k v (open_line ms) = open_line (ms @ [(k, J_number (unat v))])"
  by (simp add: field_u32_def open_line_def members_text_snoc show_u32_def)

lemma line_end_line: "line_end (open_line ms) = object_text ms @ [newline]"
  by (simp add: line_end_def open_line_def object_text_def)

lemma no_line [simp]:
  "field_string k v None = None" "field_u32 k w None = None" "line_end None = []"
  by (simp_all add: field_string_def field_u32_def line_end_def)

text \<open>The time stamp is made of digits and separators.\<close>

definition stamp_char :: "char \<Rightarrow> bool" where
  "stamp_char c \<longleftrightarrow> is_digit c \<or> c \<in> set ''-:.TZ''"

lemma pad_int_stamp: "\<forall>c \<in> set (pad_int w i). stamp_char c"
  by (auto simp: pad_int_def Let_def stamp_char_def is_digit_def show_nat_digits [unfolded is_digit_def])

lemma rfc3339_stamp: "\<forall>c \<in> set (rfc3339 now). stamp_char c"
  using pad_int_stamp
  by (auto simp: rfc3339_def Let_def stamp_char_def split: prod.splits)

lemma rfc3339_plain: "plain_key (rfc3339 now)" "newline \<notin> set (rfc3339 now)"
proof -
  have "\<not> stamp_char quote" "\<not> stamp_char backslash" "\<not> stamp_char newline"
    by (simp_all add: stamp_char_def is_digit_def char_defs)
  with rfc3339_stamp [of now] show "plain_key (rfc3339 now)" "newline \<notin> set (rfc3339 now)"
    unfolding plain_key_def by blast+
qed

lemma log_line_members:
  assumes "plain_key event"
  shows "log min_level now level event =
    (if level < min_level then None else open_line (log_members now level event))"
proof -
  have "plain_key (level_string level)" by (cases level) (simp_all add: plain_key_def char_defs)
  with assms show ?thesis
    by (simp add: log_def log_members_def open_line_def escape_plain rfc3339_plain)
qed

subsection \<open>The events as a reader of the log sees them\<close>

definition event_level :: "event \<Rightarrow> log_level" where
  "event_level e =
     (if ev_type e = EV_DeviceLost \<or> ev_type e = EV_StallDetected then LL_Warn else LL_Info)"

fun event_name :: "event_type \<Rightarrow> string" where
  "event_name EV_DeviceOpened = ''device_opened''"
| "event_name EV_AwaitingProducer = ''awaiting_producer''"
| "event_name EV_StreamingStarted = ''streaming_started''"
| "event_name EV_DeviceLost = ''device_lost''"
| "event_name EV_Reconnecting = ''reconnecting''"
| "event_name EV_StallDetected = ''stall_detected''"
| "event_name EV_StallCleared = ''stall_cleared''"
| "event_name EV_FormatChanged = ''format_changed''"

definition format_members :: "string \<Rightarrow> stream_format \<Rightarrow> (string \<times> json_value) list" where
  "format_members prefix f =
     [(prefix @ ''width'', J_number (unat (sf_width f))), (prefix @ ''height'', J_number (unat (sf_height f))),
      (prefix @ ''pixel_format'', J_string (pixel_format_string f))]"

definition event_members :: "ns \<Rightarrow> event \<Rightarrow> (string \<times> json_value) list" where
  "event_members now e =
     log_members now (event_level e) (event_name (ev_type e)) @
     (case ev_type e of
        EV_StreamingStarted \<Rightarrow> format_members [] (ev_format e)
      | EV_DeviceLost \<Rightarrow> [(''reason'', J_string (error_reason_to_string (ev_reason e)))]
      | EV_FormatChanged \<Rightarrow>
          format_members [] (ev_format e) @ format_members ''previous_'' (ev_previous_format e)
      | _ \<Rightarrow> [])"

lemma log_members_ne [simp]: "log_members now l e \<noteq> []"
  by (simp add: log_members_def)

lemma event_name_plain [simp]: "plain_key (event_name t)"
  by (cases t) (simp_all add: plain_key_def char_defs)

lemma sink_emit_text:
  "sink_emit min_level now e =
     (if event_level e < min_level then [] else object_text (event_members now e) @ [newline])"
  using log_line_members [OF event_name_plain, of min_level now "event_level e" "ev_type e"]
  by (cases "ev_type e")
    (simp_all add: sink_emit_def event_level_def event_members_def field_string_line field_u32_line
      line_end_line format_members_def)

lemma event_members_keys: "event_members now e \<noteq> []" "\<forall>m \<in> set (event_members now e). plain_key (fst m)"
  by (cases "ev_type e"; simp add: event_members_def log_members_def format_members_def plain_key_def char_defs)+

text \<open>The format strings are the only text of a log line that comes from outside.\<close>

definition one_line_event :: "event \<Rightarrow> bool" where
  "one_line_event e \<longleftrightarrow>
     newline \<notin> set (pixel_format_string (ev_format e)) \<and>
     newline \<notin> set (pixel_format_string (ev_previous_format e))"

lemma escape_newline [simp]: "newline \<in> set (escape s) \<longleftrightarrow> newline \<in> set s"
  by (induction s) (auto simp: char_defs)

lemma member_text_newline:
  "newline \<notin> set (member_text m) \<longleftrightarrow>
     newline \<notin> set (fst m) \<and> (case snd m of J_string v \<Rightarrow> newline \<notin> set v | J_number n \<Rightarrow> True)"
  by (cases m; cases "snd m") (auto simp: char_defs show_nat_no escape_newline [unfolded newline_def] show_nat_no [OF not_digit(1), unfolded newline_def])

lemma members_text_newline:
  "newline \<notin> set (members_text ms) \<longleftrightarrow> (\<forall>m \<in> set ms. newline \<notin> set (member_text m))"
  by (induction ms) (auto simp: newline_def)

lemma object_text_newline:
  "newline \<notin> set (object_text ms) \<longleftrightarrow> (\<forall>m \<in> set ms. newline \<notin> set (member_text m))"
  using members_text_newline [of ms] by (simp add: object_text_def newline_def)

lemma event_members_one_line:
  assumes "one_line_event e"
  shows "newline \<notin> set (object_text (event_members now e))"
proof -
  have lv: "newline \<notin> set (level_string l)" for l by (cases l) (simp_all add: newline_def)
  have en: "newline \<notin> set (event_name t)" for t by (cases t) (simp_all add: newline_def)
  have er: "newline \<notin> set (error_reason_to_string r)" for r by (cases r) (simp_all add: newline_def)
  have "newline \<notin> set (fst m) \<and> (case snd m of J_string v \<Rightarrow> newline \<notin> set v | J_number n \<Rightarrow> True)"
    if "m \<in> set (event_members now e)" for m
    using that assms [unfolded one_line_event_def newline_def] lv [unfolded newline_def]
      en [unfolded newline_def] er [unfolded newline_def] rfc3339_plain(2) [of now, unfolded newline_def]
    by (cases "ev_type e")
      (auto simp: event_members_def log_members_def format_members_def newline_def)
  then have "\<forall>m \<in> set (event_members now e). newline \<notin> set (member_text m)"
    unfolding member_text_newline by blast
  then show ?thesis unfolding object_text_newline by blast
qed

text \<open>What reading the log gives: the event's members, or no line when its level is filtered.\<close>

lemma read_log_emit:
  assumes "one_line_event e"
  shows "read_log (sink_emit min_level now e) =
    (if event_level e < min_level then [] else [Some (event_members now e)])"
  using split_lines_line [OF event_members_one_line [OF assms], of now "[]"]
    read_object_text [OF event_members_keys]
  by (simp add: sink_emit_text read_log_def)

subsection \<open>The whole log\<close>

text \<open>A line at the front of the log is read on its own.\<close>

lemma read_log_line:
  assumes "ms \<noteq> []" and "\<forall>m \<in> set ms. plain_key (fst m)" and "newline \<notin> set (object_text ms)"
  shows "read_log (line_end (open_line ms) @ t) = Some ms # read_log t"
  using read_object_text [OF assms(1,2)] split_lines_line [OF assms(3), of t]
  by (simp add: read_log_def line_end_line split: prod.split)

lemma read_log_nothing [simp]: "read_log (line_end None @ t) = read_log t"
  by simp

lemma read_log_emit_front:
  assumes "one_line_event e"
  shows "read_log (sink_emit min_level now e @ t) =
    (if event_level e < min_level then read_log t else Some (event_members now e) # read_log t)"
  using read_log_line [OF event_members_keys event_members_one_line [OF assms]]
  by (simp add: sink_emit_text line_end_line)

text \<open>What the sink has written after a sequence of events, each with its time.\<close>

definition sink_log :: "log_level \<Rightarrow> (ns \<times> event) list \<Rightarrow> string" where
  "sink_log min_level es = concat (map (\<lambda>(now, e). sink_emit min_level now e) es)"

lemma read_sink_log:
  "\<forall>(now, e) \<in> set es. one_line_event e \<Longrightarrow>
     read_log (sink_log min_level es @ t) =
       map (\<lambda>(now, e). Some (event_members now e)) (filter (\<lambda>(now, e). \<not> event_level e < min_level) es) @ read_log t"
  by (induction es) (auto simp: sink_log_def read_log_emit_front)

end
