(* ===== verification/Net.thy ===== *)
theory Net
  imports Text
begin

text \<open>
  The sockets both servers are written against: a record with one function per system
  call on a world of any type. A call that may block without end returns
  \<^term>\<open>None\<close> when it does. \<open>recv\<close> and \<open>send\<close> return nothing on an error; \<open>recv\<close>
  returns the bytes read, none at the end of the stream. Reading the stop flag is an
  action too, because the other thread may set it at any moment.
\<close>

record addrinfo =
  ai_family :: int
  ai_socktype :: int
  ai_protocol :: int
  ai_addr :: string

record 'w net =
  net_stop_requested :: "'w \<Rightarrow> bool \<times> 'w"
  net_getaddrinfo :: "string \<Rightarrow> string \<Rightarrow> 'w \<Rightarrow> addrinfo list option \<times> 'w"
  net_socket :: "int \<Rightarrow> int \<Rightarrow> int \<Rightarrow> 'w \<Rightarrow> int \<times> 'w"
  net_reuseaddr :: "int \<Rightarrow> 'w \<Rightarrow> 'w"
  net_bind :: "int \<Rightarrow> string \<Rightarrow> 'w \<Rightarrow> int \<times> 'w"
  net_listen :: "int \<Rightarrow> int \<Rightarrow> 'w \<Rightarrow> int \<times> 'w"
  net_poll :: "int \<Rightarrow> int \<Rightarrow> 'w \<Rightarrow> int \<times> 'w"
  net_accept :: "int \<Rightarrow> 'w \<Rightarrow> int \<times> 'w"
  net_recv :: "int \<Rightarrow> nat \<Rightarrow> 'w \<Rightarrow> (string option \<times> 'w) option"
  net_send :: "int \<Rightarrow> string \<Rightarrow> 'w \<Rightarrow> (nat option \<times> 'w) option"
  net_close :: "int \<Rightarrow> 'w \<Rightarrow> 'w"
  net_unlink :: "string \<Rightarrow> 'w \<Rightarrow> 'w"
  net_strerror :: "'w \<Rightarrow> string"

text \<open>\<open>recv\<close> never returns more than the buffer holds, \<open>send\<close> never takes more than it was given.\<close>

definition net_ok :: "'w net \<Rightarrow> bool" where
  "net_ok N \<longleftrightarrow>
     (\<forall>fd n w d w'. net_recv N fd n w = Some (Some d, w') \<longrightarrow> length d \<le> n) \<and>
     (\<forall>fd s w n w'. net_send N fd s w = Some (Some n, w') \<longrightarrow> n \<le> length s)"

subsection \<open>A world that remembers its open sockets\<close>

text \<open>
  Any world is extended by the list of the sockets that were created or accepted and not
  yet closed; the calls are the same otherwise.
\<close>

definition lift_call :: "('w \<Rightarrow> 'a \<times> 'w) \<Rightarrow> 'w \<times> 'c \<Rightarrow> 'a \<times> 'w \<times> 'c" where
  "lift_call f w = (case f (fst w) of (r, w') \<Rightarrow> (r, w', snd w))"

definition lift_blocking :: "('w \<Rightarrow> ('a \<times> 'w) option) \<Rightarrow> 'w \<times> 'c \<Rightarrow> ('a \<times> 'w \<times> 'c) option" where
  "lift_blocking f w = map_option (\<lambda>(r, w'). (r, w', snd w)) (f (fst w))"

definition tracked :: "'w net \<Rightarrow> ('w \<times> int list) net" where
  "tracked N =
     \<lparr>net_stop_requested = lift_call (net_stop_requested N),
      net_getaddrinfo = (\<lambda>h p. lift_call (net_getaddrinfo N h p)),
      net_socket = (\<lambda>f t p w. case net_socket N f t p (fst w) of
         (fd, w') \<Rightarrow> (fd, w', if 0 \<le> fd then fd # snd w else snd w)),
      net_reuseaddr = (\<lambda>fd w. (net_reuseaddr N fd (fst w), snd w)),
      net_bind = (\<lambda>fd a. lift_call (net_bind N fd a)),
      net_listen = (\<lambda>fd n. lift_call (net_listen N fd n)),
      net_poll = (\<lambda>fd t. lift_call (net_poll N fd t)),
      net_accept = (\<lambda>fd w. case net_accept N fd (fst w) of
         (c, w') \<Rightarrow> (c, w', if 0 \<le> c then c # snd w else snd w)),
      net_recv = (\<lambda>fd n. lift_blocking (net_recv N fd n)),
      net_send = (\<lambda>fd s. lift_blocking (net_send N fd s)),
      net_close = (\<lambda>fd w. (net_close N fd (fst w), remove1 fd (snd w))),
      net_unlink = (\<lambda>p w. (net_unlink N p (fst w), snd w)),
      net_strerror = (\<lambda>w. net_strerror N (fst w))\<rparr>"

lemma tracked_keeps:
  "net_stop_requested (tracked N) w = (b, w') \<Longrightarrow> snd w' = snd w"
  "net_poll (tracked N) fd t w = (rc, w') \<Longrightarrow> snd w' = snd w"
  "net_getaddrinfo (tracked N) h p w = (ai, w') \<Longrightarrow> snd w' = snd w"
  "net_bind (tracked N) fd a w = (rc, w') \<Longrightarrow> snd w' = snd w"
  "net_listen (tracked N) fd backlog w = (rc, w') \<Longrightarrow> snd w' = snd w"
  "snd (net_reuseaddr (tracked N) fd w) = snd w"
  "snd (net_unlink (tracked N) path w) = snd w"
  "net_recv (tracked N) fd n w = Some (d, w') \<Longrightarrow> snd w' = snd w"
  "net_send (tracked N) fd s w = Some (k, w') \<Longrightarrow> snd w' = snd w"
  by (auto simp: tracked_def lift_call_def lift_blocking_def split: prod.splits)

lemma tracked_socket:
  "net_socket (tracked N) f t p w = (fd, w') \<Longrightarrow> snd w' = (if 0 \<le> fd then fd # snd w else snd w)"
  by (auto simp: tracked_def split: prod.splits)

lemma tracked_accept:
  "net_accept (tracked N) fd w = (c, w') \<Longrightarrow> snd w' = (if 0 \<le> c then c # snd w else snd w)"
  by (auto simp: tracked_def split: prod.splits)

lemma tracked_close: "snd (net_close (tracked N) fd w) = remove1 fd (snd w)"
  by (simp add: tracked_def)

lemma tracked_ok: "net_ok N \<Longrightarrow> net_ok (tracked N)"
  unfolding net_ok_def by (auto simp: tracked_def lift_blocking_def)

subsection \<open>A world with something beside it\<close>

text \<open>The same calls where they cannot touch the rest of the world.\<close>

definition beside_net :: "'w net \<Rightarrow> ('w \<times> 'c) net" where
  "beside_net N =
     \<lparr>net_stop_requested = lift_call (net_stop_requested N),
      net_getaddrinfo = (\<lambda>h p. lift_call (net_getaddrinfo N h p)),
      net_socket = (\<lambda>f t p. lift_call (net_socket N f t p)),
      net_reuseaddr = (\<lambda>fd w. (net_reuseaddr N fd (fst w), snd w)),
      net_bind = (\<lambda>fd a. lift_call (net_bind N fd a)),
      net_listen = (\<lambda>fd n. lift_call (net_listen N fd n)),
      net_poll = (\<lambda>fd t. lift_call (net_poll N fd t)),
      net_accept = (\<lambda>fd. lift_call (net_accept N fd)),
      net_recv = (\<lambda>fd n. lift_blocking (net_recv N fd n)),
      net_send = (\<lambda>fd s. lift_blocking (net_send N fd s)),
      net_close = (\<lambda>fd w. (net_close N fd (fst w), snd w)),
      net_unlink = (\<lambda>p w. (net_unlink N p (fst w), snd w)),
      net_strerror = (\<lambda>w. net_strerror N (fst w))\<rparr>"

subsection \<open>A world that remembers what was sent\<close>

definition wired :: "'w net \<Rightarrow> ('w \<times> string) net" where
  "wired N =
     \<lparr>net_stop_requested = lift_call (net_stop_requested N),
      net_getaddrinfo = (\<lambda>h p. lift_call (net_getaddrinfo N h p)),
      net_socket = (\<lambda>f t p. lift_call (net_socket N f t p)),
      net_reuseaddr = (\<lambda>fd w. (net_reuseaddr N fd (fst w), snd w)),
      net_bind = (\<lambda>fd a. lift_call (net_bind N fd a)),
      net_listen = (\<lambda>fd n. lift_call (net_listen N fd n)),
      net_poll = (\<lambda>fd t. lift_call (net_poll N fd t)),
      net_accept = (\<lambda>fd. lift_call (net_accept N fd)),
      net_recv = (\<lambda>fd n. lift_blocking (net_recv N fd n)),
      net_send = (\<lambda>fd s w.
        map_option (\<lambda>(r, w'). (r, w', case r of None \<Rightarrow> snd w | Some n \<Rightarrow> snd w @ take n s))
          (net_send N fd s (fst w))),
      net_close = (\<lambda>fd w. (net_close N fd (fst w), snd w)),
      net_unlink = (\<lambda>p w. (net_unlink N p (fst w), snd w)),
      net_strerror = (\<lambda>w. net_strerror N (fst w))\<rparr>"

lemma wired_send:
  "net_send (wired N) fd s w = Some (r, w') \<Longrightarrow>
     (\<exists>v. net_send N fd s (fst w) = Some (r, v)) \<and>
     snd w' = (case r of None \<Rightarrow> snd w | Some n \<Rightarrow> snd w @ take n s)"
  by (auto simp: wired_def)

lemma wired_close [simp]: "snd (net_close (wired N) fd w) = snd w"
  by (simp add: wired_def)

lemma wired_ok: "net_ok N \<Longrightarrow> net_ok (wired N)"
  unfolding net_ok_def by (auto simp: wired_def lift_blocking_def)

lemma wired_recv: "net_recv (wired N) fd n w = Some (d, w') \<Longrightarrow> snd w' = snd w"
  by (auto simp: wired_def lift_blocking_def)

subsection \<open>A world that remembers what was received\<close>

definition heard :: "'w net \<Rightarrow> ('w \<times> string list) net" where
  "heard N =
     \<lparr>net_stop_requested = lift_call (net_stop_requested N),
      net_getaddrinfo = (\<lambda>h p. lift_call (net_getaddrinfo N h p)),
      net_socket = (\<lambda>f t p. lift_call (net_socket N f t p)),
      net_reuseaddr = (\<lambda>fd w. (net_reuseaddr N fd (fst w), snd w)),
      net_bind = (\<lambda>fd a. lift_call (net_bind N fd a)),
      net_listen = (\<lambda>fd n. lift_call (net_listen N fd n)),
      net_poll = (\<lambda>fd t. lift_call (net_poll N fd t)),
      net_accept = (\<lambda>fd. lift_call (net_accept N fd)),
      net_recv = (\<lambda>fd n w.
        map_option
          (\<lambda>(d, w'). (d, w', case d of None \<Rightarrow> snd w | Some c \<Rightarrow> if c = [] then snd w else snd w @ [c]))
          (net_recv N fd n (fst w))),
      net_send = (\<lambda>fd s. lift_blocking (net_send N fd s)),
      net_close = (\<lambda>fd w. (net_close N fd (fst w), snd w)),
      net_unlink = (\<lambda>p w. (net_unlink N p (fst w), snd w)),
      net_strerror = (\<lambda>w. net_strerror N (fst w))\<rparr>"

lemma heard_keeps:
  "net_stop_requested (heard N) w = (b, w') \<Longrightarrow> snd w' = snd w"
  "net_poll (heard N) fd t w = (rc, w') \<Longrightarrow> snd w' = snd w"
  "net_accept (heard N) fd w = (c, w') \<Longrightarrow> snd w' = snd w"
  "snd (net_close (heard N) fd w) = snd w"
  by (auto simp: heard_def lift_call_def split: prod.splits)

lemma heard_recv:
  assumes "net_recv (heard N) fd n w = Some (d, w')" and "net_ok N"
  shows "snd w' = (case d of None \<Rightarrow> snd w | Some c \<Rightarrow> if c = [] then snd w else snd w @ [c])"
    and "d = Some c \<Longrightarrow> length c \<le> n"
proof -
  obtain v where v: "net_recv N fd n (fst w) = Some (d, v)"
    using assms(1) by (auto simp: heard_def)
  show "snd w' = (case d of None \<Rightarrow> snd w | Some c \<Rightarrow> if c = [] then snd w else snd w @ [c])"
    using assms(1) by (auto simp: heard_def)
  show "length c \<le> n" if "d = Some c"
    using assms(2) v that unfolding net_ok_def by blast
qed

subsection \<open>What the calls leave alone\<close>

text \<open>
  A relation between worlds that every call moves along: what the calls may do to the rest
  of the world. What a server does with the calls moves along it too.
\<close>

locale net_frame =
  fixes N :: "'w net"
    and R :: "'w \<Rightarrow> 'w \<Rightarrow> bool"
  assumes R_refl: "R w w"
    and R_trans: "R u v \<Longrightarrow> R v w \<Longrightarrow> R u w"
    and stop_R: "net_stop_requested N w = (b, w') \<Longrightarrow> R w w'"
    and getaddrinfo_R: "net_getaddrinfo N h p w = (ai, w') \<Longrightarrow> R w w'"
    and socket_R: "net_socket N f t q w = (fd, w') \<Longrightarrow> R w w'"
    and reuseaddr_R: "R w (net_reuseaddr N fd w)"
    and bind_R: "net_bind N fd a w = (rc, w') \<Longrightarrow> R w w'"
    and listen_R: "net_listen N fd backlog w = (rc, w') \<Longrightarrow> R w w'"
    and poll_R: "net_poll N fd timeout w = (rc, w') \<Longrightarrow> R w w'"
    and accept_R: "net_accept N fd w = (c, w') \<Longrightarrow> R w w'"
    and recv_R: "net_recv N fd n w = Some (d, w') \<Longrightarrow> R w w'"
    and send_R: "net_send N fd s w = Some (k, w') \<Longrightarrow> R w w'"
    and close_R: "R w (net_close N fd w)"
    and unlink_R: "R w (net_unlink N path w)"

interpretation beside_net: net_frame "beside_net N" "\<lambda>w w'. snd w' = snd w" for N :: "'w net"
  by unfold_locales (auto simp: beside_net_def lift_call_def lift_blocking_def split: prod.splits)

text \<open>The wire only grows.\<close>

interpretation wire: net_frame "wired N" "\<lambda>w w'. \<exists>t. snd w' = snd w @ t" for N :: "'w net"
  by unfold_locales
    (auto simp: wired_def lift_call_def lift_blocking_def split: prod.splits option.splits)

end
