(* ===== verification/Http_Server.thy ===== *)
theory Http_Server
  imports Net
begin

text \<open>
  \<^verbatim>\<open>http_server.hpp\<close> and \<^verbatim>\<open>http_server.cpp\<close>: the accept loop that
  serves the metrics. The handler is a parameter, a function of the method and the path
  that may read the world. The specification is a client that reads the response back, and
  the request line as the first line of the bytes sent, however the network cuts them.
\<close>

record http_response =
  hr_status :: int
  hr_content_type :: string
  hr_body :: string

definition http_response_default :: http_response where
  "http_response_default = \<lparr>hr_status = 404, hr_content_type = ''text/plain'', hr_body = []\<rparr>"

type_synonym 'w http_handler = "string \<Rightarrow> string \<Rightarrow> 'w \<Rightarrow> (http_response \<times> 'w) option"

definition crlf :: string where
  "crlf = [carriage_return, newline]"

subsection \<open>The address\<close>

text \<open>Returns host and port, or none where the source returns false.\<close>

definition split_host_port :: "string \<Rightarrow> (string \<times> string) option" where
  "split_host_port address =
     (case rfind_char CHR '':'' address of
        None \<Rightarrow> None
      | Some colon \<Rightarrow> Some (take colon address, drop (colon + 1) address))"

subsection \<open>The request\<close>

text \<open>\<open>find\<close> of the line terminator.\<close>

fun find_crlf :: "string \<Rightarrow> nat option" where
  "find_crlf [] = None"
| "find_crlf (c # s) =
     (if c = carriage_return \<and> s \<noteq> [] \<and> hd s = newline then Some 0 else map_option Suc (find_crlf s))"

text \<open>
  The loop that receives until a line is complete or 8192 bytes are there. It returns the
  bytes, or nothing when the connection ends first.
\<close>

function read_loop :: "'w net \<Rightarrow> int \<Rightarrow> string \<Rightarrow> 'w \<Rightarrow> (string option \<times> 'w) option" where
  "read_loop N fd buf w =
     (if find_crlf buf = None \<and> length buf < 8192
      then (case net_recv N fd 512 w of
              None \<Rightarrow> None
            | Some (None, w) \<Rightarrow> Some (None, w)
            | Some (Some d, w) \<Rightarrow> if d = [] then Some (None, w) else read_loop N fd (buf @ d) w)
      else Some (Some buf, w))"
  by pat_completeness auto
termination
  by (relation "measure (\<lambda>(N, fd, buf, w). 8192 - length buf)") (auto simp: length_greater_0_conv [symmetric] simp del: length_greater_0_conv)

declare read_loop.simps [simp del]

definition is_space_char :: "char \<Rightarrow> bool" where
  "is_space_char c \<longleftrightarrow> byte c = 32 \<or> (9 \<le> byte c \<and> byte c \<le> 13)"

text \<open>\<open>operator>>\<close> of a stream into a string: the next word, if there is one, and the rest.\<close>

definition next_word :: "string \<Rightarrow> (string \<times> string) option" where
  "next_word s =
     (let r = dropWhile is_space_char s;
          word = takeWhile (\<lambda>c. \<not> is_space_char c) r
      in if word = [] then None else Some (word, dropWhile (\<lambda>c. \<not> is_space_char c) r))"

definition request_words :: "string \<Rightarrow> (string \<times> string) option" where
  "request_words line = do {
     (method, r) \<leftarrow> next_word line;
     (path, r) \<leftarrow> next_word r;
     (version, r) \<leftarrow> next_word r;
     Some (method, path)
   }"

definition request_of :: "string \<Rightarrow> (string \<times> string) option" where
  "request_of buf =
     (let line = (case find_crlf buf of None \<Rightarrow> buf | Some i \<Rightarrow> take i buf)
      in request_words line)"

definition read_request_line :: "'w net \<Rightarrow> int \<Rightarrow> 'w \<Rightarrow> ((string \<times> string) option \<times> 'w) option" where
  "read_request_line N fd w = do {
     (buf, w) \<leftarrow> read_loop N fd [] w;
     Some (case buf of None \<Rightarrow> (None, w) | Some b \<Rightarrow> (request_of b, w))
   }"

subsection \<open>The response\<close>

definition status_text :: "int \<Rightarrow> string" where
  "status_text status =
     (if status = 200 then ''OK'' else if status = 404 then ''Not Found'' else ''Error'')"

definition response_text :: "http_response \<Rightarrow> string" where
  "response_text resp =
     ''HTTP/1.1 '' @ show_int (hr_status resp) @ '' '' @ status_text (hr_status resp) @ crlf @
     ''Content-Type: '' @ hr_content_type resp @ crlf @
     ''Content-Length: '' @ show_nat (length (hr_body resp)) @ crlf @
     ''Connection: close'' @ crlf @ crlf @
     hr_body resp"

function send_loop :: "'w net \<Rightarrow> int \<Rightarrow> string \<Rightarrow> nat \<Rightarrow> 'w \<Rightarrow> (nat \<times> 'w) option" where
  "send_loop N fd s sent w =
     (if sent < length s
      then (case net_send N fd (drop sent s) w of
              None \<Rightarrow> None
            | Some (None, w) \<Rightarrow> Some (sent, w)
            | Some (Some n, w) \<Rightarrow> if n = 0 then Some (sent, w) else send_loop N fd s (sent + n) w)
      else Some (sent, w))"
  by pat_completeness auto
termination
  by (relation "measure (\<lambda>(N, fd, s, sent, w). length s - sent)") auto

declare send_loop.simps [simp del]

definition write_response :: "'w net \<Rightarrow> int \<Rightarrow> http_response \<Rightarrow> 'w \<Rightarrow> 'w option" where
  "write_response N fd resp w = do {
     (sent, w) \<leftarrow> send_loop N fd (response_text resp) 0 w;
     Some w
   }"

subsection \<open>The server\<close>

text \<open>One address after the other until one can be bound: the listening socket, or none.\<close>

fun bind_loop :: "'w net \<Rightarrow> addrinfo list \<Rightarrow> 'w \<Rightarrow> int option \<times> 'w" where
  "bind_loop N [] w = (None, w)"
| "bind_loop N (rp # rps) w =
     (let (fd, w) = net_socket N (ai_family rp) (ai_socktype rp) (ai_protocol rp) w
      in if fd < 0 then bind_loop N rps w
         else let w = net_reuseaddr N fd w;
                  (b, w) = net_bind N fd (ai_addr rp) w
              in if b = 0
                 then let (l, w) = net_listen N fd 16 w
                      in if l = 0 then (Some fd, w) else bind_loop N rps (net_close N fd w)
                 else bind_loop N rps (net_close N fd w))"

definition http_start :: "'w net \<Rightarrow> string \<Rightarrow> 'w \<Rightarrow> int option \<times> 'w" where
  "http_start N address w =
     (case split_host_port address of
        None \<Rightarrow> (None, w)
      | Some (host, port) \<Rightarrow>
          let (result, w) = net_getaddrinfo N host port w
          in case result of None \<Rightarrow> (None, w) | Some rps \<Rightarrow> bind_loop N rps w)"

text \<open>The destructor, with the listening socket if there is one.\<close>

definition http_destroy :: "'w net \<Rightarrow> int option \<Rightarrow> 'w \<Rightarrow> 'w" where
  "http_destroy N listen_fd w = (case listen_fd of None \<Rightarrow> w | Some fd \<Rightarrow> net_close N fd w)"

lemma http_destroy_simps [simp]:
  "http_destroy N None w = w"
  "http_destroy N (Some fd) w = net_close N fd w"
  by (simp_all add: http_destroy_def)

text \<open>One turn of the accept loop.\<close>

definition http_turn :: "'w net \<Rightarrow> 'w http_handler \<Rightarrow> int \<Rightarrow> 'w \<Rightarrow> 'w option" where
  "http_turn N handler listen_fd w =
     (let (rc, w) = net_poll N listen_fd 200 w
      in if rc \<le> 0 then Some w
         else let (conn, w) = net_accept N listen_fd w
              in if conn < 0 then Some w
                 else do {
                   (req, w) \<leftarrow> read_request_line N conn w;
                   w \<leftarrow> (case req of
                           None \<Rightarrow> Some w
                         | Some (method, path) \<Rightarrow> do {
                             (resp, w) \<leftarrow> handler method path w;
                             write_response N conn resp w
                           });
                   Some (net_close N conn w)
                 })"

partial_function (option) http_run :: "'w net \<Rightarrow> 'w http_handler \<Rightarrow> int \<Rightarrow> 'w \<Rightarrow> 'w option" where
  "http_run N handler listen_fd w =
     (let (stop, w) = net_stop_requested N w
      in if stop then Some w
         else do {
           w \<leftarrow> http_turn N handler listen_fd w;
           http_run N handler listen_fd w
         })"

subsection \<open>The address is cut at its last colon\<close>

lemma split_host_port_iff:
  "split_host_port a = Some (h, p) \<longleftrightarrow> a = h @ CHR '':'' # p \<and> CHR '':'' \<notin> set p"
proof
  assume "split_host_port a = Some (h, p)"
  then obtain i where i: "rfind_char CHR '':'' a = Some i" "h = take i a" "p = drop (Suc i) a"
    by (auto simp: split_host_port_def split: option.splits)
  with rfind_char_split [OF i(1)] show "a = h @ CHR '':'' # p \<and> CHR '':'' \<notin> set p" by simp
next
  assume "a = h @ CHR '':'' # p \<and> CHR '':'' \<notin> set p"
  then show "split_host_port a = Some (h, p)" by (simp add: split_host_port_def rfind_char_append)
qed

subsection \<open>The request line, however it arrives\<close>

lemma find_crlf_line:
  "carriage_return \<notin> set line \<Longrightarrow> find_crlf (line @ crlf @ rest) = Some (length line)"
  by (induction line) (auto simp: crlf_def)

lemma find_crlf_short:
  "carriage_return \<notin> set line \<Longrightarrow> find_crlf line = None \<and> find_crlf (line @ [carriage_return]) = None"
  by (induction line) (auto simp: char_defs hd_append)

lemma find_crlf_prefix:
  assumes "carriage_return \<notin> set line" and "buf @ later = line @ crlf @ rest"
  shows "find_crlf buf = (if length line + 2 \<le> length buf then Some (length line) else None)"
proof (cases "length line + 2 \<le> length buf")
  case True
  from assms(2) have "take (length buf) (line @ crlf @ rest) = buf" by (metis append_eq_conv_conj)
  moreover have "take (length buf) (line @ crlf @ rest) = line @ crlf @ take (length buf - (length line + 2)) rest"
    using True by (auto simp: crlf_def take_Cons')
  ultimately have "buf = line @ crlf @ take (length buf - (length line + 2)) rest" by simp
  with True find_crlf_line [OF assms(1)] show ?thesis by metis
next
  case False
  from assms(2) have "buf = take (length buf) (line @ crlf @ rest)" by (metis append_eq_conv_conj)
  moreover have "length buf \<le> length line \<or> length buf = length line + 1" using False by linarith
  ultimately have "buf = take (length buf) line \<or> buf = line @ [carriage_return]"
    by (auto simp: crlf_def)
  moreover have "carriage_return \<notin> set (take (length buf) line)" using assms(1) by (meson in_set_takeD)
  ultimately show ?thesis using False find_crlf_short [of "take (length buf) line"] find_crlf_short [OF assms(1)]
    by fastforce
qed

lemma request_of_prefix:
  assumes "carriage_return \<notin> set line" and "buf @ later = line @ crlf @ rest" and "find_crlf buf \<noteq> None"
  shows "request_of buf = request_words line"
proof -
  have l: "length line + 2 \<le> length buf" and f: "find_crlf buf = Some (length line)"
    using find_crlf_prefix [OF assms(1,2)] assms(3) by (auto split: if_splits)
  have "take (length line) buf = take (length line) (buf @ later)" using l by simp
  also have "\<dots> = line" unfolding assms(2) by simp
  finally show ?thesis by (simp add: request_of_def f)
qed

text \<open>The connection delivers the given pieces to successive calls.\<close>

fun delivers :: "'w net \<Rightarrow> int \<Rightarrow> string list \<Rightarrow> 'w \<Rightarrow> bool" where
  "delivers N fd [] w = True"
| "delivers N fd (c # cs) w =
     (case net_recv N fd 512 w of
        Some (Some d, w') \<Rightarrow> d = c \<and> d \<noteq> [] \<and> delivers N fd cs w'
      | _ \<Rightarrow> False)"

lemma delivers_Cons:
  "delivers N fd (c # cs) w \<longleftrightarrow>
     c \<noteq> [] \<and> (\<exists>w'. net_recv N fd 512 w = Some (Some c, w') \<and> delivers N fd cs w')"
  by (cases "net_recv N fd 512 w") (auto split: option.splits)

lemma read_loop_delivers:
  "delivers N fd chunks w \<Longrightarrow> buf @ concat chunks = line @ crlf @ rest \<Longrightarrow>
     carriage_return \<notin> set line \<Longrightarrow> length line + 2 \<le> 8192 \<Longrightarrow>
     \<exists>b later w'. read_loop N fd buf w = Some (Some b, w') \<and> b @ later = line @ crlf @ rest \<and> find_crlf b \<noteq> None"
proof (induction chunks arbitrary: buf w)
  case Nil
  then have e: "buf @ [] = line @ crlf @ rest" by simp
  have f: "find_crlf buf \<noteq> None" using find_crlf_line [OF Nil.prems(3), of rest] e by simp
  then have "read_loop N fd buf w = Some (Some buf, w)" by (auto simp: read_loop.simps [of N fd buf w])
  with e f show ?case by blast
next
  case (Cons c cs)
  from Cons.prems(1) obtain w' where r: "net_recv N fd 512 w = Some (Some c, w')" and c: "c \<noteq> []"
    and d: "delivers N fd cs w'" unfolding delivers_Cons by blast
  show ?case
  proof (cases "find_crlf buf")
    case None
    with find_crlf_prefix [OF Cons.prems(3,2)] have "length buf < length line + 2"
      by (simp split: if_splits)
    then have "read_loop N fd buf w = read_loop N fd (buf @ c) w'"
      using None r c Cons.prems(4) by (simp add: read_loop.simps [of N fd buf w])
    moreover have "(buf @ c) @ concat cs = line @ crlf @ rest" using Cons.prems(2) by simp
    ultimately show ?thesis using Cons.IH [OF d _ Cons.prems(3,4), of "buf @ c"] by simp
  next
    case (Some i)
    with Cons.prems(2) show ?thesis by (auto simp: read_loop.simps [of N fd buf w])
  qed
qed

lemma read_request_line_delivers:
  assumes "delivers N fd chunks w" and "concat chunks = line @ crlf @ rest"
    and "carriage_return \<notin> set line" and "length line + 2 \<le> 8192"
  shows "\<exists>w'. read_request_line N fd w = Some (request_words line, w')"
proof -
  obtain b later w' where b: "read_loop N fd [] w = Some (Some b, w')" "b @ later = line @ crlf @ rest"
    "find_crlf b \<noteq> None" using read_loop_delivers [OF assms(1) _ assms(3,4), of "[]"] assms(2) by auto
  then show ?thesis
    using request_of_prefix [OF assms(3) b(2,3)] by (simp add: read_request_line_def)
qed

text \<open>The buffer of the request is bounded, whatever the client sends.\<close>

lemma read_loop_bound:
  "net_ok N \<Longrightarrow> length buf < 8192 + 512 \<Longrightarrow> read_loop N fd buf w = Some (Some b, w') \<Longrightarrow>
     length b < 8192 + 512"
proof (induction N fd buf w rule: read_loop.induct)
  case (1 N fd buf w)
  show ?case
  proof (cases "find_crlf buf = None \<and> length buf < 8192")
    case False
    with 1 show ?thesis by (auto simp: read_loop.simps [of N fd buf w])
  next
    case True
    with "1.prems"(3) obtain d w1 where d: "net_recv N fd 512 w = Some (Some d, w1)" "d \<noteq> []"
      and r: "read_loop N fd (buf @ d) w1 = Some (Some b, w')"
      by (auto simp: read_loop.simps [of N fd buf w] split: option.splits prod.splits if_splits)
    have "length d \<le> 512" using "1.prems"(1) d(1) unfolding net_ok_def by blast
    with True have "length (buf @ d) < 8192 + 512" by simp
    with "1.IH" [OF True d(1) refl refl d(2) "1.prems"(1) _ r] show ?thesis by simp
  qed
qed

text \<open>A client that sends some chunks and then neither sends nor closes.\<close>

fun falls_silent :: "'w net \<Rightarrow> int \<Rightarrow> string list \<Rightarrow> 'w \<Rightarrow> bool" where
  "falls_silent N fd [] w \<longleftrightarrow> net_recv N fd 512 w = None"
| "falls_silent N fd (c # cs) w \<longleftrightarrow>
     (case net_recv N fd 512 w of
        Some (Some d, w') \<Rightarrow> d = c \<and> d \<noteq> [] \<and> falls_silent N fd cs w'
      | _ \<Rightarrow> False)"

lemma falls_silent_Cons:
  "falls_silent N fd (c # cs) w \<longleftrightarrow>
     (\<exists>w'. net_recv N fd 512 w = Some (Some c, w') \<and> c \<noteq> [] \<and> falls_silent N fd cs w')"
  by (auto split: option.splits)

lemma find_crlf_append_None: "find_crlf (s @ t) = None \<Longrightarrow> find_crlf s = None"
proof (induction s)
  case (Cons c s)
  then show ?case by (cases s) (auto split: if_splits)
qed simp

lemma read_loop_silent:
  "falls_silent N fd chunks w \<Longrightarrow> find_crlf (buf @ concat chunks) = None \<Longrightarrow>
     length (buf @ concat chunks) < 8192 \<Longrightarrow> read_loop N fd buf w = None"
proof (induction chunks arbitrary: buf w)
  case Nil
  then show ?case by (simp add: read_loop.simps [of N fd buf w])
next
  case (Cons c cs)
  from Cons.prems(1) obtain w' where r: "net_recv N fd 512 w = Some (Some c, w')" "c \<noteq> []" "falls_silent N fd cs w'"
    unfolding falls_silent_Cons by blast
  have "find_crlf buf = None" using find_crlf_append_None Cons.prems(2) by blast
  with r Cons.prems Cons.IH [of w' "buf @ c"] show ?case by (simp add: read_loop.simps [of N fd buf w])
qed

subsection \<open>The response is sent in order\<close>

lemma take_drop_append: "take n (drop k s) @ take m (drop (k + n) s) = take (n + m) (drop k s)"
  by (simp add: take_add) (simp add: add.commute)

lemma send_loop_done: "send_loop N fd s (length s) w = Some (length s, w)"
  by (simp add: send_loop.simps [of N fd s "length s" w])

lemma send_loop_wire:
  "net_ok N \<Longrightarrow> sent \<le> length s \<Longrightarrow> send_loop (wired N) fd s sent w = Some (k, w') \<Longrightarrow>
     sent \<le> k \<and> k \<le> length s \<and> snd w' = snd w @ take (k - sent) (drop sent s)"
proof (induction "wired N" fd s sent w rule: send_loop.induct)
  case (1 fd s sent w)
  show ?case
  proof (cases "sent < length s")
    case False
    with "1.prems"(2) have "sent = length s" by simp
    with "1.prems"(3) show ?thesis by (simp add: send_loop_done)
  next
    case True
    with "1.prems"(3) obtain r w1 where r: "net_send (wired N) fd (drop sent s) w = Some (r, w1)"
      by (auto simp: send_loop.simps [of "wired N" fd s sent w] split: option.splits prod.splits)
    obtain v where v: "net_send N fd (drop sent s) (fst w) = Some (r, v)"
      and wire: "snd w1 = (case r of None \<Rightarrow> snd w | Some n \<Rightarrow> snd w @ take n (drop sent s))"
      using wired_send [OF r] by blast
    show ?thesis
    proof (cases "r = None \<or> r = Some 0")
      case stop: True
      with True "1.prems" r wire show ?thesis
        by (auto simp: send_loop.simps [of "wired N" fd s sent w])
    next
      case False
      then obtain n where n: "r = Some n" "n \<noteq> 0" by auto
      have le: "n \<le> length (drop sent s)" using "1.prems"(1) v n unfolding net_ok_def by blast
      have rest: "send_loop (wired N) fd s (sent + n) w1 = Some (k, w')"
        using True "1.prems"(3) r n by (simp add: send_loop.simps [of "wired N" fd s sent w])
      have IH: "sent + n \<le> k \<and> k \<le> length s \<and> snd w' = snd w1 @ take (k - (sent + n)) (drop (sent + n) s)"
        by (rule "1.hyps" [OF True r refl n(1) n(2) "1.prems"(1) _ rest]) (use le True in simp)
      then have "take n (drop sent s) @ take (k - (sent + n)) (drop (sent + n) s) = take (k - sent) (drop sent s)"
        using take_drop_append [of n sent s "k - (sent + n)"] by simp
      with IH wire n show ?thesis by simp
    qed
  qed
qed

text \<open>A peer that keeps taking bytes gets them all.\<close>

definition taking :: "'w net \<Rightarrow> bool" where
  "taking N \<longleftrightarrow> (\<forall>fd s w. s \<noteq> [] \<longrightarrow> (\<exists>n w'. net_send N fd s w = Some (Some n, w') \<and> 0 < n))"

lemma send_loop_complete:
  "taking N \<Longrightarrow> net_ok N \<Longrightarrow> sent \<le> length s \<Longrightarrow> \<exists>w'. send_loop N fd s sent w = Some (length s, w')"
proof (induction N fd s sent w rule: send_loop.induct)
  case (1 N fd s sent w)
  show ?case
  proof (cases "sent < length s")
    case False
    with "1.prems"(3) have "sent = length s" by simp
    then show ?thesis by (simp add: send_loop_done)
  next
    case True
    then have "drop sent s \<noteq> []" by simp
    with "1.prems"(1) obtain n w1 where n: "net_send N fd (drop sent s) w = Some (Some n, w1)" "0 < n"
      unfolding taking_def by blast
    have "n \<le> length (drop sent s)" using "1.prems"(2) n(1) unfolding net_ok_def by blast
    then have "sent + n \<le> length s" using True by simp
    with "1.IH" [OF True n(1) refl refl _ "1.prems"(1,2)] n True show ?thesis
      by (simp add: send_loop.simps [of N fd s sent w])
  qed
qed

subsection \<open>A client reads the response back\<close>

text \<open>
  The first line up to its terminator, and what follows it.
\<close>

definition cut_line :: "string \<Rightarrow> (string \<times> string) option" where
  "cut_line t = map_option (\<lambda>i. (take i t, drop (i + 2) t)) (find_crlf t)"

lemma cut_line_append: "carriage_return \<notin> set l \<Longrightarrow> cut_line (l @ crlf @ t) = Some (l, t)"
  by (simp add: cut_line_def find_crlf_line) (simp add: crlf_def)

definition read_response :: "string \<Rightarrow> (nat \<times> string \<times> string) option" where
  "read_response t = do {
     (status, t) \<leftarrow> cut_line t;
     (ctype, t) \<leftarrow> cut_line t;
     (len, t) \<leftarrow> cut_line t;
     (conn, t) \<leftarrow> cut_line t;
     (blank, t) \<leftarrow> cut_line t;
     if starts_with ''HTTP/1.1 '' status \<and> starts_with ''Content-Type: '' ctype \<and>
        starts_with ''Content-Length: '' len \<and> blank = []
     then Some (digits_value (takeWhile is_digit (drop 9 status)), drop 14 ctype,
                take (digits_value (drop 16 len)) t)
     else None
   }"

lemma read_response_text:
  assumes "carriage_return \<notin> set (hr_content_type resp)" and "0 \<le> hr_status resp"
  shows "read_response (response_text resp) = Some (nat (hr_status resp), hr_content_type resp, hr_body resp)"
proof -
  define n where "n = nat (hr_status resp)"
  have st: "show_int (hr_status resp) = show_nat n" using assms(2) by (simp add: show_int_def n_def)
  define l1 where "l1 = ''HTTP/1.1 '' @ show_nat n @ '' '' @ status_text (hr_status resp)"
  define l2 where "l2 = ''Content-Type: '' @ hr_content_type resp"
  define l3 where "l3 = ''Content-Length: '' @ show_nat (length (hr_body resp))"
  define l4 where "l4 = ''Connection: close''"
  have cr: "carriage_return \<notin> set l1" "carriage_return \<notin> set l2" "carriage_return \<notin> set l3"
    "carriage_return \<notin> set l4" "carriage_return \<notin> set []"
    using assms(1) show_nat_no [OF not_digit(2)]
    by (auto simp: l1_def l2_def l3_def l4_def status_text_def carriage_return_def)
  have whole: "response_text resp = l1 @ crlf @ l2 @ crlf @ l3 @ crlf @ l4 @ crlf @ [] @ crlf @ hr_body resp"
    by (simp add: response_text_def l1_def l2_def l3_def l4_def st)
  have digits: "takeWhile is_digit (drop 9 l1) = show_nat n"
    by (simp add: l1_def takeWhile_append2 show_nat_digits)
  show ?thesis
    unfolding whole read_response_def
    using cr digits
    by (simp add: cut_line_append cut_line_append [of "[]", simplified] n_def [symmetric])
      (simp add: l1_def l2_def l3_def starts_with_def)
qed

subsection \<open>Every accepted connection is closed\<close>

lemma read_loop_keeps:
  assumes recv: "\<And>fd n w d w'. net_recv N fd n w = Some (d, w') \<Longrightarrow> f w' = f w"
  shows "read_loop N fd buf w = Some (r, w') \<Longrightarrow> f w' = f w"
  using recv
proof (induction N fd buf w rule: read_loop.induct)
  case (1 N fd buf w)
  show ?case
  proof (cases "find_crlf buf = None \<and> length buf < 8192")
    case False
    with "1.prems"(1) show ?thesis by (auto simp: read_loop.simps [of N fd buf w] split: if_splits)
  next
    case True
    with "1.prems"(1) obtain d w1 where d: "net_recv N fd 512 w = Some (d, w1)"
      by (auto simp: read_loop.simps [of N fd buf w] split: option.splits prod.splits)
    note k = "1.prems"(2) [OF d]
    consider "d = None \<or> d = Some []" | x where "d = Some x" "x \<noteq> []" by (cases d) auto
    then show ?thesis
    proof cases
      case 1
      with True \<open>read_loop N fd buf w = Some (r, w')\<close> d k show ?thesis
        by (auto simp: read_loop.simps [of N fd buf w])
    next
      case (2 x)
      have "read_loop N fd (buf @ x) w1 = Some (r, w')"
        using True "1.prems"(1) d 2 by (simp add: read_loop.simps [of N fd buf w])
      with "1.IH" [OF True d refl 2] "1.prems"(2) k show ?thesis by metis
    qed
  qed
qed

lemma send_loop_tracked: "send_loop (tracked N) fd s sent w = Some (k, w') \<Longrightarrow> snd w' = snd w"
proof (induction "tracked N" fd s sent w rule: send_loop.induct)
  case (1 fd s sent w)
  show ?case
  proof (cases "sent < length s")
    case False
    with "1.prems" show ?thesis by (auto simp: send_loop.simps [of "tracked N" fd s sent w])
  next
    case True
    with "1.prems" obtain r w1 where r: "net_send (tracked N) fd (drop sent s) w = Some (r, w1)"
      by (auto simp: send_loop.simps [of "tracked N" fd s sent w] split: option.splits prod.splits)
    note keep = tracked_keeps(9) [OF r]
    show ?thesis
    proof (cases "r = None \<or> r = Some 0")
      case stop: True
      with True "1.prems" r keep show ?thesis
        by (auto simp: send_loop.simps [of "tracked N" fd s sent w])
    next
      case False
      then obtain n where n: "r = Some n" "n \<noteq> 0" by auto
      have "send_loop (tracked N) fd s (sent + n) w1 = Some (k, w')"
        using True "1.prems" r n by (simp add: send_loop.simps [of "tracked N" fd s sent w])
      with "1.hyps" [OF True r refl n] keep show ?thesis by simp
    qed
  qed
qed

text \<open>A handler that leaves the sockets alone.\<close>

definition keeps_connections :: "('w \<times> int list) http_handler \<Rightarrow> bool" where
  "keeps_connections h \<longleftrightarrow> (\<forall>m p w r w'. h m p w = Some (r, w') \<longrightarrow> snd w' = snd w)"

lemma http_turn_tracked:
  assumes "http_turn (tracked N) h fd w = Some w'" and "keeps_connections h"
  shows "snd w' = snd w"
proof -
  obtain rc w1 where p: "net_poll (tracked N) fd 200 w = (rc, w1)" by (meson prod.exhaust)
  obtain c w2 where a: "net_accept (tracked N) fd w1 = (c, w2)" by (meson prod.exhaust)
  note kp = tracked_keeps(2) [OF p] and ka = tracked_accept [OF a]
  show ?thesis
  proof (cases "rc \<le> 0 \<or> c < 0")
    case True
    with assms(1) p a kp ka show ?thesis by (auto simp: http_turn_def split: if_splits)
  next
    case False
    with assms(1) p a obtain buf w3 where b: "read_loop (tracked N) c [] w2 = Some (buf, w3)"
      by (auto simp: http_turn_def read_request_line_def bind_iff)
    note kr = read_loop_keeps [of "tracked N" snd, OF tracked_keeps(8) b]
    have "\<exists>w4. w' = net_close (tracked N) c w4 \<and> snd w4 = snd w3"
    proof (cases "case buf of None \<Rightarrow> None | Some b \<Rightarrow> request_of b")
      case None
      with False assms(1) p a b have "w' = net_close (tracked N) c w3"
        by (auto simp: http_turn_def read_request_line_def split: option.splits)
      then show ?thesis by blast
    next
      case (Some mq)
      then obtain x m q where x: "buf = Some x" "request_of x = Some (m, q)"
        by (cases mq) (auto split: option.splits)
      with False assms(1) p a b obtain resp w5 k w4 where h: "h m q w3 = Some (resp, w5)"
        and s: "send_loop (tracked N) c (response_text resp) 0 w5 = Some (k, w4)"
        and w': "w' = net_close (tracked N) c w4"
        by (simp add: http_turn_def read_request_line_def write_response_def bind_iff) metis
      have "snd w5 = snd w3" using assms(2) h unfolding keeps_connections_def by blast
      with send_loop_tracked [OF s] w' show ?thesis by (intro exI [of _ w4]) simp
    qed
    then obtain w4 where w': "w' = net_close (tracked N) c w4" and "snd w4 = snd w3" by blast
    then show ?thesis using kp ka kr False by (simp add: w' tracked_close)
  qed
qed

lemma http_run_tracked:
  assumes "http_run (tracked N) h fd w = Some w'" and "keeps_connections h"
  shows "snd w' = snd w"
proof -
  have "M = tracked N \<longrightarrow> hh = h \<longrightarrow> snd r = snd w" if "http_run M hh fd w = Some r"
    for M :: "('a \<times> int list) net" and hh fd w r
  proof (rule http_run.raw_induct [where P = "\<lambda>M hh fd w r. M = tracked N \<longrightarrow> hh = h \<longrightarrow> snd r = snd w", OF _ that])
    fix run and M :: "('a \<times> int list) net" and hh fd w y
    assume IH: "\<And>M hh fd w y. run M hh fd w = Some y \<Longrightarrow> M = tracked N \<longrightarrow> hh = h \<longrightarrow> snd y = snd w"
      and body: "(let (stop, w) = net_stop_requested M w
          in if stop then Some w else do { w \<leftarrow> http_turn M hh fd w; run M hh fd w }) = Some y"
    show "M = tracked N \<longrightarrow> hh = h \<longrightarrow> snd y = snd w"
    proof (intro impI)
      assume [simp]: "M = tracked N" "hh = h"
      obtain stop w1 where s: "net_stop_requested (tracked N) w = (stop, w1)" by (meson prod.exhaust)
      note k = tracked_keeps(1) [OF s]
      show "snd y = snd w"
      proof (cases stop)
        case True
        with body s k show ?thesis by simp
      next
        case False
        with body s obtain w2 where t: "http_turn (tracked N) h fd w1 = Some w2" and r: "run (tracked N) h fd w2 = Some y"
          by (auto simp: bind_iff)
        from IH [OF r] http_turn_tracked [OF t assms(2)] k show ?thesis by simp
      qed
    qed
  qed
  with assms(1) show ?thesis by blast
qed

text \<open>Starting keeps the socket it returns and closes every other one it made.\<close>

lemma bind_loop_tracked:
  "bind_loop (tracked N) rps w = (fd, w') \<Longrightarrow> snd w' = (case fd of None \<Rightarrow> snd w | Some l \<Rightarrow> l # snd w)"
proof (induction "tracked N" rps w rule: bind_loop.induct)
  case (1 w)
  then show ?case by simp
next
  case (2 rp rps w)
  obtain l w1 where s: "net_socket (tracked N) (ai_family rp) (ai_socktype rp) (ai_protocol rp) w = (l, w1)"
    by (meson prod.exhaust)
  obtain b w2 where b: "net_bind (tracked N) l (ai_addr rp) (net_reuseaddr (tracked N) l w1) = (b, w2)"
    by (meson prod.exhaust)
  obtain n w3 where n: "net_listen (tracked N) l 16 w2 = (n, w3)" by (meson prod.exhaust)
  note ks = tracked_socket [OF s] and kb = tracked_keeps(4) [OF b] and kl = tracked_keeps(5) [OF n]
  consider "l < 0" | "0 \<le> l" "b \<noteq> 0" | "0 \<le> l" "b = 0" "n \<noteq> 0" | "0 \<le> l" "b = 0" "n = 0" by linarith
  then show ?case
  proof cases
    case 1
    with "2.hyps"(1) [OF s [symmetric]] "2.prems" s ks show ?thesis by (simp split: option.splits)
  next
    case 2
    have "bind_loop (tracked N) rps (net_close (tracked N) l w2) = (fd, w')"
      using "2.prems" s b 2 by simp
    with "2.hyps"(3) [OF s [symmetric]] b 2 ks kb show ?thesis by (simp add: tracked_keeps tracked_close split: option.splits)
  next
    case 3
    have "bind_loop (tracked N) rps (net_close (tracked N) l w3) = (fd, w')"
      using "2.prems" s b n 3 by simp
    with "2.hyps"(2) [OF s [symmetric]] b n 3 ks kb kl show ?thesis by (simp add: tracked_keeps tracked_close split: option.splits)
  next
    case 4
    with "2.prems" s b n ks kb kl show ?thesis by (auto simp: tracked_keeps)
  qed
qed

lemma http_start_tracked:
  assumes "http_start (tracked N) a w = (fd, w')"
  shows "snd w' = (case fd of None \<Rightarrow> snd w | Some l \<Rightarrow> l # snd w)"
  using assms
  by (auto simp: http_start_def split: option.splits prod.splits dest!: bind_loop_tracked dest: tracked_keeps(3))

subsection \<open>What a server leaves alone\<close>

context net_frame
begin

lemma read_loop_R: "read_loop N fd buf w = Some (r, w') \<Longrightarrow> R w w'"
proof (induction "8192 - length buf" arbitrary: buf w rule: less_induct)
  case less
  show ?case
  proof (cases "find_crlf buf = None \<and> length buf < 8192")
    case False
    with less.prems show ?thesis by (auto simp: read_loop.simps [of N fd buf w] R_refl split: if_splits)
  next
    case True
    with less.prems obtain d w1 where d: "net_recv N fd 512 w = Some (d, w1)"
      by (auto simp: read_loop.simps [of N fd buf w] split: option.splits prod.splits)
    consider "d = None \<or> d = Some []" | x where "d = Some x" "x \<noteq> []" by (cases d) auto
    then show ?thesis
    proof cases
      case 1
      with True less.prems d recv_R [OF d] show ?thesis
        by (auto simp: read_loop.simps [of N fd buf w])
    next
      case (2 x)
      have "read_loop N fd (buf @ x) w1 = Some (r, w')"
        using True less.prems d 2 by (simp add: read_loop.simps [of N fd buf w])
      moreover have "8192 - length (buf @ x) < 8192 - length buf" using True 2(2) by (cases x) auto
      ultimately show ?thesis using less.hyps R_trans [OF recv_R [OF d]] by blast
    qed
  qed
qed

lemma send_loop_R: "send_loop N fd s sent w = Some (k, w') \<Longrightarrow> R w w'"
proof (induction "length s - sent" arbitrary: sent w rule: less_induct)
  case less
  show ?case
  proof (cases "sent < length s")
    case False
    with less.prems show ?thesis by (auto simp: send_loop.simps [of N fd s sent w] R_refl)
  next
    case True
    with less.prems obtain r w1 where r: "net_send N fd (drop sent s) w = Some (r, w1)"
      by (auto simp: send_loop.simps [of N fd s sent w] split: option.splits prod.splits)
    consider "r = None \<or> r = Some 0" | n where "r = Some n" "0 < n" by (cases r) auto
    then show ?thesis
    proof cases
      case 1
      with True less.prems r send_R [OF r] show ?thesis
        by (auto simp: send_loop.simps [of N fd s sent w])
    next
      case (2 n)
      have "send_loop N fd s (sent + n) w1 = Some (k, w')"
        using True less.prems r 2 by (simp add: send_loop.simps [of N fd s sent w])
      moreover have "length s - (sent + n) < length s - sent" using True 2(2) by simp
      ultimately show ?thesis using less.hyps R_trans [OF send_R [OF r]] by blast
    qed
  qed
qed

lemma bind_loop_R: "bind_loop N rps w = (fd, w') \<Longrightarrow> R w w'"
proof (induction rps arbitrary: w)
  case Nil
  then show ?case by (simp add: R_refl)
next
  case (Cons rp rps)
  obtain l w1 where s: "net_socket N (ai_family rp) (ai_socktype rp) (ai_protocol rp) w = (l, w1)"
    by (meson prod.exhaust)
  obtain b w2 where b: "net_bind N l (ai_addr rp) (net_reuseaddr N l w1) = (b, w2)" by (meson prod.exhaust)
  obtain n w3 where n: "net_listen N l 16 w2 = (n, w3)" by (meson prod.exhaust)
  have r1: "R w w1" by (rule socket_R [OF s])
  have r2: "R w w2" using R_trans [OF r1 R_trans [OF reuseaddr_R bind_R [OF b]]] .
  have r3: "R w w3" using R_trans [OF r2 listen_R [OF n]] .
  have "R w w'" if "bind_loop N rps u = (fd, w')" "R w u" for u
    using R_trans [OF that(2) Cons.IH [OF that(1)]] .
  moreover have "R w (net_close N l w2)" "R w (net_close N l w3)"
    using R_trans [OF r2 close_R] R_trans [OF r3 close_R] .
  ultimately show ?case using Cons.prems s b n r1 r3 by (auto split: if_splits)
qed

lemma http_start_R: "http_start N a w = (fd, w') \<Longrightarrow> R w w'"
  by (auto simp: http_start_def R_refl split: option.splits prod.splits
      dest: getaddrinfo_R intro: R_trans bind_loop_R)

lemma http_turn_R:
  assumes "http_turn N handler fd w = Some w'"
    and handler: "\<And>m q w r w'. handler m q w = Some (r, w') \<Longrightarrow> R w w'"
  shows "R w w'"
proof -
  obtain rc w1 where p: "net_poll N fd 200 w = (rc, w1)" by (meson prod.exhaust)
  obtain c w2 where a: "net_accept N fd w1 = (c, w2)" by (meson prod.exhaust)
  note r2 = R_trans [OF poll_R [OF p] accept_R [OF a]]
  show ?thesis
  proof (cases "rc \<le> 0 \<or> c < 0")
    case True
    with assms(1) p a r2 poll_R [OF p] show ?thesis by (auto simp: http_turn_def split: if_splits)
  next
    case False
    with assms(1) p a obtain buf w3 where b: "read_loop N c [] w2 = Some (buf, w3)"
      by (auto simp: http_turn_def read_request_line_def bind_iff)
    note r3 = R_trans [OF r2 read_loop_R [OF b]]
    show ?thesis
    proof (cases "case buf of None \<Rightarrow> None | Some b \<Rightarrow> request_of b")
      case None
      with False assms(1) p a b have "w' = net_close N c w3"
        by (auto simp: http_turn_def read_request_line_def split: option.splits)
      with R_trans [OF r3 close_R] show ?thesis by simp
    next
      case (Some mq)
      then obtain x m q where x: "buf = Some x" "request_of x = Some (m, q)"
        by (cases mq) (auto split: option.splits)
      with False assms(1) p a b obtain resp w5 k w4 where h: "handler m q w3 = Some (resp, w5)"
        and s: "send_loop N c (response_text resp) 0 w5 = Some (k, w4)"
        and w': "w' = net_close N c w4"
        by (simp add: http_turn_def read_request_line_def write_response_def bind_iff) metis
      from R_trans [OF R_trans [OF r3 handler [OF h]] R_trans [OF send_loop_R [OF s] close_R]] w'
      show ?thesis by simp
    qed
  qed
qed

end

subsection \<open>The responses both programs give\<close>

definition metrics_content_type :: string where
  "metrics_content_type = ''text/plain; version=0.0.4; charset=utf-8''"

definition not_found :: http_response where
  "not_found = \<lparr>hr_status = 404, hr_content_type = ''text/plain'', hr_body = ''not found'' @ [newline]\<rparr>"

subsection \<open>What the server promises for the page of metrics\<close>

text \<open>
  The contract of the handlers of both programs: \<open>GET /metrics\<close> answers with the page,
  any other method is not found. A client that asks for the page gets it, in full, in a
  response it can parse, however its request is cut.
\<close>

locale metrics_endpoint =
  fixes handler :: "('w \<times> string) http_handler"
    and page :: "('w \<times> string) \<Rightarrow> (string \<times> 'w \<times> string) option"
    and content_type :: string
  assumes get_metrics:
      "handler ''GET'' ''/metrics'' w =
         map_option (\<lambda>(t, w'). (\<lparr>hr_status = 200, hr_content_type = content_type, hr_body = t\<rparr>, w')) (page w)"
    and other_method:
      "method \<noteq> ''GET'' \<Longrightarrow>
         handler method path w =
           Some (\<lparr>hr_status = 404, hr_content_type = ''text/plain'', hr_body = ''not found'' @ [newline]\<rparr>, w)"
    and page_quiet: "page w = Some (t, w') \<Longrightarrow> snd w' = snd w"
    and one_line_type: "carriage_return \<notin> set content_type"
begin

lemma get_metrics_words: "request_words ''GET /metrics HTTP/1.1'' = Some (''GET'', ''/metrics'')"
  by (simp add: request_words_def next_word_def is_space_char_def)

lemma serves_page:
  assumes poll: "net_poll (wired N) fd 200 w = (rc, w1)" "0 < rc"
    and conn: "net_accept (wired N) fd w1 = (c, w2)" "0 \<le> c"
    and req: "delivers (wired N) c chunks w2" "concat chunks = ''GET /metrics HTTP/1.1'' @ crlf @ rest"
    and peer: "taking (wired N)" "net_ok N"
    and total: "\<And>w. page w \<noteq> None"
  shows "\<exists>w3 t w4 w'. page w3 = Some (t, w4) \<and> http_turn (wired N) handler fd w = Some w' \<and>
    snd w' = snd w2 @ response_text \<lparr>hr_status = 200, hr_content_type = content_type, hr_body = t\<rparr> \<and>
    read_response (drop (length (snd w2)) (snd w')) = Some (200, content_type, t)"
proof -
  have "carriage_return \<notin> set ''GET /metrics HTTP/1.1''" "length ''GET /metrics HTTP/1.1'' + 2 \<le> 8192"
    by (simp_all add: carriage_return_def)
  then obtain w3 where r: "read_request_line (wired N) c w2 = Some (Some (''GET'', ''/metrics''), w3)"
    using read_request_line_delivers [OF req] get_metrics_words by fastforce
  from total [of w3] obtain t w4 where p: "page w3 = Some (t, w4)" by auto
  let ?resp = "\<lparr>hr_status = 200, hr_content_type = content_type, hr_body = t\<rparr>"
  note ok = wired_ok [OF peer(2)]
  have quiet: "snd w4 = snd w2"
  proof -
    from r obtain b where b: "read_loop (wired N) c [] w2 = Some (b, w3)"
      by (auto simp: read_request_line_def bind_iff split: option.splits)
    have "snd w3 = snd w2"
      by (rule read_loop_keeps [of "wired N" snd, OF wired_recv b])
    with page_quiet [OF p] show ?thesis by simp
  qed
  obtain w5 where s: "send_loop (wired N) c (response_text ?resp) 0 w4 = Some (length (response_text ?resp), w5)"
    using send_loop_complete [OF peer(1) ok, of 0] by blast
  have wire: "snd w5 = snd w2 @ response_text ?resp"
    using send_loop_wire [OF peer(2) _ s] quiet by simp
  have turn: "http_turn (wired N) handler fd w = Some (net_close (wired N) c w5)"
    using poll conn r get_metrics [of w3] p s by (simp add: http_turn_def write_response_def)
  have "read_response (response_text ?resp) = Some (200, content_type, t)"
    using read_response_text [of ?resp] one_line_type by simp
  then have "read_response (drop (length (snd w2)) (snd (net_close (wired N) c w5))) = Some (200, content_type, t)"
    using wire by simp
  with p turn wire show ?thesis
    by (intro exI [of _ w3] exI [of _ t] exI [of _ w4] exI [of _ "net_close (wired N) c w5"] conjI) simp_all
qed

end

end
