(* ===== verification/Process_Info.thy ===== *)
theory Process_Info
  imports Float_Text
begin

text \<open>
  \<^verbatim>\<open>process_info.cpp\<close>: the resident set size from the text of
  \<^verbatim>\<open>/proc/self/status\<close>. The file is a parameter: its text, or nothing when it
  cannot be opened.
\<close>

text \<open>The lines \<open>std::getline\<close> yields: a last line without a terminator counts too.\<close>

definition getlines :: "string \<Rightarrow> string list" where
  "getlines t = (let (ls, rest) = split_lines t in if rest = [] then ls else ls @ [rest])"

text \<open>
  \<open>operator>>\<close> of a stream into a 64-bit unsigned variable that holds 0: white space, an
  optional sign and digits; the largest value when they do not fit, 0 when there are none.
\<close>

definition extract_u64 :: "string \<Rightarrow> u64" where
  "extract_u64 s =
     (let (neg, r) = parse_sign (dropWhile is_space s);
          ds = takeWhile is_digit r
      in if ds = [] then 0
         else if 2 ^ 64 \<le> digits_value ds then - 1
         else if neg then - of_nat (digits_value ds) else of_nat (digits_value ds))"

fun rss_loop :: "string list \<Rightarrow> u64" where
  "rss_loop [] = 0"
| "rss_loop (line # ls) =
     (if \<not> starts_with ''VmRSS:'' line then rss_loop ls else extract_u64 (drop 6 line) * 1024)"

definition resident_set_bytes :: "string option \<Rightarrow> u64" where
  "resident_set_bytes status = (case status of None \<Rightarrow> 0 | Some t \<Rightarrow> rss_loop (getlines t))"

subsection \<open>A line of the kernel is read as it is meant\<close>

lemma getlines_lines: "\<forall>l \<in> set ls. newline \<notin> set l \<Longrightarrow> getlines (concat (map (\<lambda>l. l @ [newline]) ls)) = ls"
  using split_lines_of_lines [of ls "[]"] by (simp add: getlines_def)

lemma rss_loop_skip:
  "\<forall>l \<in> set before. \<not> starts_with ''VmRSS:'' l \<Longrightarrow> rss_loop (before @ ls) = rss_loop ls"
  by (induction before) auto

lemma is_digit_not_space: "is_digit c \<Longrightarrow> \<not> is_space c"
  by (auto simp: is_digit_def is_space_def)

lemma extract_u64_show:
  assumes "\<forall>c \<in> set sp. is_space c" and "rest = [] \<or> \<not> is_digit (hd rest)" and "n < 2 ^ 64"
  shows "extract_u64 (sp @ show_nat n @ rest) = of_nat n"
proof -
  have "is_digit (hd (show_nat n))" by (rule show_nat_digits [of _ n]) simp
  then obtain d ds where d: "show_nat n = d # ds" "is_digit d" by (cases "show_nat n") auto
  have "dropWhile is_space (sp @ show_nat n @ rest) = show_nat n @ rest"
    using assms(1) d is_digit_not_space by (simp add: dropWhile_append2)
  moreover have "parse_sign (show_nat n @ rest) = (False, show_nat n @ rest)"
    using d by (auto simp: is_digit_def)
  moreover have "takeWhile is_digit (show_nat n @ rest) = show_nat n"
    by (rule takeWhile_show_nat(1) [OF assms(2)])
  ultimately show ?thesis using assms(3) by (simp add: extract_u64_def not_le)
qed

lemma resident_set_bytes_line:
  assumes "\<forall>l \<in> set (before @ [line] @ after). newline \<notin> set l"
    and "\<forall>l \<in> set before. \<not> starts_with ''VmRSS:'' l"
    and "line = ''VmRSS:'' @ sp @ show_nat kib @ '' kB''" and "\<forall>c \<in> set sp. is_space c" and "kib < 2 ^ 64"
  shows "resident_set_bytes (Some (concat (map (\<lambda>l. l @ [newline]) (before @ [line] @ after)))) = of_nat kib * 1024"
proof -
  have "starts_with ''VmRSS:'' line" "drop 6 line = sp @ show_nat kib @ '' kB''"
    by (simp_all add: assms(3) starts_with_def)
  moreover have "extract_u64 (sp @ show_nat kib @ '' kB'') = of_nat kib"
    using assms(4,5) by (intro extract_u64_show) simp_all
  ultimately have "rss_loop (line # after) = of_nat kib * 1024" by simp
  then show ?thesis
    using getlines_lines [OF assms(1)] rss_loop_skip [OF assms(2), of "[line] @ after"]
    by (simp add: resident_set_bytes_def)
qed

end
