(* ===== verification/Command_Line.thy ===== *)
theory Command_Line
  imports Float_Text
begin

text \<open>
  The command lines of \<^verbatim>\<open>main.cpp\<close> and \<^verbatim>\<open>exporter_main.cpp\<close>: the
  flags, the environment behind them and the values they take. The two programs have the
  same parser over two tables of flags; a locale states what it does for any table, and
  each program interprets it.
\<close>

subsection \<open>Flags\<close>

datatype flag_error = Unknown_flag string | Missing_value string

type_synonym flags = "string \<rightharpoonup> string"

text \<open>
  The loop over the arguments. A flag carries its value after an equals sign, or it is the
  next argument.
\<close>

function flag_loop :: "string list \<Rightarrow> string list \<Rightarrow> flags \<Rightarrow> flag_error + flags" where
  "flag_loop known [] out = Inr out"
| "flag_loop known (arg # rest) out =
     (let eq = find_char CHR ''='' arg;
          name = (case eq of None \<Rightarrow> arg | Some i \<Rightarrow> take i arg)
      in if name \<notin> set known then Inl (Unknown_flag name)
         else case eq of
                Some i \<Rightarrow> flag_loop known rest (out(name \<mapsto> drop (i + 1) arg))
              | None \<Rightarrow>
                  (case rest of
                     [] \<Rightarrow> Inl (Missing_value name)
                   | v # rest' \<Rightarrow> flag_loop known rest' (out(name \<mapsto> v))))"
  by pat_completeness auto
termination
  by (relation "measure (\<lambda>(known, args, out). length args)") auto

definition resolve :: "flags \<Rightarrow> (string \<rightharpoonup> string) \<Rightarrow> string \<Rightarrow> string \<Rightarrow> string \<Rightarrow> string" where
  "resolve flags env flag_name env_name default_value =
     (case flags flag_name of
        Some v \<Rightarrow> v
      | None \<Rightarrow> (case env env_name of Some v \<Rightarrow> v | None \<Rightarrow> default_value))"

text \<open>One way of writing a flag on the command line.\<close>

definition spell :: "string \<times> string \<times> bool \<Rightarrow> string list" where
  "spell f = (case f of (name, val, joined) \<Rightarrow> if joined then [name @ ''='' @ val] else [name, val])"

text \<open>What stops either program before it starts, and what it says on the standard error.\<close>

datatype startup_error = SE_flags flag_error | SE_value | SE_log_level string

definition startup_error_text :: "startup_error \<Rightarrow> string" where
  "startup_error_text e =
     (case e of
        SE_flags (Unknown_flag name) \<Rightarrow> ''unknown flag: '' @ name @ [newline]
      | SE_flags (Missing_value name) \<Rightarrow> ''flag '' @ name @ '' requires a value'' @ [newline]
      | SE_value \<Rightarrow> ''invalid flag value'' @ [newline]
      | SE_log_level l \<Rightarrow> ''invalid --log-level: '' @ l @ [newline])"

definition bind_error_text :: "string \<Rightarrow> string" where
  "bind_error_text addr = ''failed to bind metrics address: '' @ addr @ [newline]"

locale flag_table =
  fixes known :: "string list"
  assumes no_equals: "name \<in> set known \<Longrightarrow> CHR ''='' \<notin> set name"
begin

lemma flag_loop_spell:
  assumes "name \<in> set known"
  shows "flag_loop known (spell (name, val, joined) @ rest) out = flag_loop known rest (out(name \<mapsto> val))"
proof (cases joined)
  case True
  have "find_char CHR ''='' (name @ CHR ''='' # val) = Some (length name)"
    by (rule find_char_append) (rule no_equals [OF assms])
  with assms True show ?thesis by (simp add: spell_def)
next
  case False
  have "find_char CHR ''='' name = None" using no_equals [OF assms] by simp
  with assms False show ?thesis by (simp add: spell_def del: find_char_None)
qed

text \<open>However the flags are spelled, the last setting of each is the one that counts.\<close>

lemma flag_loop_spelled:
  assumes "\<forall>f \<in> set fs. fst f \<in> set known"
  shows "flag_loop known (concat (map spell fs)) out =
    Inr (out ++ map_of (rev (map (\<lambda>(n, v, j). (n, v)) fs)))"
  using assms
proof (induction fs arbitrary: out)
  case Nil
  then show ?case by simp
next
  case (Cons f fs)
  obtain n v j where f: "f = (n, v, j)" by (cases f)
  have "flag_loop known (spell (n, v, j) @ concat (map spell fs)) out =
      flag_loop known (concat (map spell fs)) (out(n \<mapsto> v))"
    using Cons.prems f by (intro flag_loop_spell) simp
  with Cons f show ?case by (simp add: map_add_assoc [symmetric])
qed

text \<open>A flag outside the table stops the program, whatever came before it.\<close>

lemma flag_loop_unknown:
  assumes "\<forall>f \<in> set fs. fst f \<in> set known" and "name \<notin> set known" and "CHR ''='' \<notin> set name"
  shows "flag_loop known (concat (map spell fs) @ [name @ ''='' @ val] @ rest) out = Inl (Unknown_flag name)"
  using assms(1)
proof (induction fs arbitrary: out)
  case Nil
  have "find_char CHR ''='' (name @ CHR ''='' # val) = Some (length name)"
    by (rule find_char_append) (rule assms(3))
  with assms(2) show ?case by simp
next
  case (Cons f fs)
  obtain n v j where f: "f = (n, v, j)" by (cases f)
  have "flag_loop known (spell (n, v, j) @ (concat (map spell fs) @ [name @ ''='' @ val] @ rest)) out =
      flag_loop known (concat (map spell fs) @ [name @ ''='' @ val] @ rest) (out(n \<mapsto> v))"
    using Cons.prems f by (intro flag_loop_spell) simp
  with Cons f show ?case by simp
qed

end

subsection \<open>Numbers and durations\<close>

text \<open>\<open>std::stoul\<close>: the value and the number of characters used, or none where it throws.\<close>

definition stoul :: "string \<Rightarrow> (u64 \<times> nat) option" where
  "stoul s =
     (let (neg, r) = parse_sign (dropWhile is_space s);
          ds = takeWhile is_digit r
      in if ds = [] then None
         else if 2 ^ 64 \<le> digits_value ds then None
         else Some (if neg then - of_nat (digits_value ds) else of_nat (digits_value ds),
                    length s - length (dropWhile is_digit r)))"

definition parse_u32 :: "string \<Rightarrow> u32 option" where
  "parse_u32 s =
     (if s = [] then None
      else case stoul s of
             None \<Rightarrow> None
           | Some (v, pos) \<Rightarrow> if pos \<noteq> length s then None else Some (ucast v))"

definition parse_duration_ms :: "string \<Rightarrow> ms option" where
  "parse_duration_ms s =
     (if 2 < length s \<and> substr s (length s - 2) 2 = ''ms''
      then map_option (\<lambda>v. uint v) (parse_u32 (substr s 0 (length s - 2)))
      else if 1 < length s \<and> last s = CHR ''s''
      then map_option (\<lambda>v. uint v * 1000) (parse_u32 (substr s 0 (length s - 1)))
      else None)"

lemma stoul_show:
  assumes "n < 2 ^ 64"
  shows "stoul (show_nat n) = Some (of_nat n, length (show_nat n))"
proof -
  have "is_digit (hd (show_nat n))" by (rule show_nat_digits [of _ n]) simp
  then obtain d ds where d: "show_nat n = d # ds" "is_digit d" by (cases "show_nat n") auto
  have "\<not> is_space d" using d(2) by (auto simp: is_digit_def is_space_def)
  then have "dropWhile is_space (show_nat n) = show_nat n" using d(1) by simp
  moreover have "parse_sign (show_nat n) = (False, show_nat n)" using d by (auto simp: is_digit_def)
  ultimately show ?thesis using assms by (simp add: stoul_def not_le)
qed

lemma parse_u32_show: "n < 2 ^ 64 \<Longrightarrow> parse_u32 (show_nat n) = Some (of_nat n)"
  by (simp add: parse_u32_def stoul_show unsigned_of_nat take_bit_nat_eq_self)

lemma parse_duration_show:
  assumes "n < 2 ^ 32"
  shows "parse_duration_ms (show_nat n @ ''ms'') = Some (int n)"
    and "parse_duration_ms (show_nat n @ ''s'') = Some (int n * 1000)"
proof -
  have u: "uint (of_nat n :: u32) = int n" using assms by (simp add: unsigned_of_nat take_bit_nat_eq_self)
  have p: "parse_u32 (show_nat n) = Some (of_nat n)" using assms by (intro parse_u32_show) simp
  have ne: "0 < length (show_nat n)" by simp
  show "parse_duration_ms (show_nat n @ ''ms'') = Some (int n)"
    using ne p u by (simp add: parse_duration_ms_def substr_def)
  have "is_digit (last (show_nat n))" by (rule show_nat_digits [of _ n]) simp
  then have "last (show_nat n) \<noteq> CHR ''m''" by (auto simp: is_digit_def)
  have "substr (show_nat n @ ''s'') (length (show_nat n @ ''s'') - 2) 2 \<noteq> ''ms''"
  proof -
    obtain xs x where "show_nat n = xs @ [x]" by (metis append_butlast_last_id show_nat_nonempty)
    with \<open>last (show_nat n) \<noteq> CHR ''m''\<close> show ?thesis by (simp add: substr_def)
  qed
  with ne p u show "parse_duration_ms (show_nat n @ ''s'') = Some (int n * 1000)"
    by (simp add: parse_duration_ms_def substr_def)
qed

text \<open>Every accepted duration is non-negative and below 50 days.\<close>

lemma parse_duration_bounds:
  assumes "parse_duration_ms s = Some d"
  shows "0 \<le> d \<and> d \<le> 4294967295000"
proof -
  have u: "uint (w :: u32) \<le> 4294967295" for w using uint_lt2p [of w] by simp
  have "uint (w :: u32) * 1000 \<le> 4294967295000 \<and> uint w \<le> 4294967295000" for w
    using u [of w] by linarith
  with assms show ?thesis by (auto simp: parse_duration_ms_def split: if_splits)
qed

end
