(* ===== verification/Daemon_Main.thy ===== *)
theory Daemon_Main
  imports V4L2_Resources Capture_Timing Json_Logger Http_Server Process_Info Command_Line
begin

text \<open>
  The parts of \<^verbatim>\<open>main.cpp\<close>: the settings of the daemon, its interruptible sleep, the
  loop that drives the state machine, and the handler of its HTTP server. The stop flag is
  read through the world, because a signal sets it at any moment. The program that puts them
  together, with its two threads, is in \<^theory_text>\<open>Daemon_Threads\<close>.
\<close>

subsection \<open>Settings\<close>

definition daemon_flags :: "string list" where
  "daemon_flags =
     [''--device'', ''--metrics-addr'', ''--expected-fps'', ''--stall-multiple'', ''--buffer-count'',
      ''--reconnect-max-backoff'', ''--awaiting-producer-max-backoff'', ''--log-level'']"

definition daemon_parse_flags :: "string list \<Rightarrow> flag_error + flags" where
  "daemon_parse_flags args = flag_loop daemon_flags args Map.empty"

interpretation daemon_table: flag_table daemon_flags
  by unfold_locales (auto simp: daemon_flags_def)

record daemon_settings =
  ds_device_path :: string
  ds_metrics_addr :: string
  ds_log_level :: log_level
  ds_config :: daemon_config

definition daemon_config_of :: "flags \<Rightarrow> (string \<rightharpoonup> string) \<Rightarrow> daemon_config option" where
  "daemon_config_of flags env = do {
     fps \<leftarrow> parse_u32 (resolve flags env ''--expected-fps'' ''HAMSTERCAM_EXPECTED_FPS'' ''15'');
     stall \<leftarrow> parse_u32 (resolve flags env ''--stall-multiple'' ''HAMSTERCAM_STALL_MULTIPLE'' ''10'');
     buffers \<leftarrow> parse_u32 (resolve flags env ''--buffer-count'' ''HAMSTERCAM_BUFFER_COUNT'' ''4'');
     reconnect \<leftarrow> parse_duration_ms
       (resolve flags env ''--reconnect-max-backoff'' ''HAMSTERCAM_RECONNECT_MAX_BACKOFF'' ''30s'');
     awaiting \<leftarrow> parse_duration_ms
       (resolve flags env ''--awaiting-producer-max-backoff''
         ''HAMSTERCAM_AWAITING_PRODUCER_MAX_BACKOFF'' ''2s'');
     Some (daemon_config_default
             \<lparr>dc_expected_fps := fps, dc_stall_multiple := stall, dc_buffer_count := buffers,
              dc_reconnect_max_backoff := reconnect, dc_awaiting_producer_max_backoff := awaiting\<rparr>)
   }"

definition daemon_startup :: "string list \<Rightarrow> (string \<rightharpoonup> string) \<Rightarrow> startup_error + daemon_settings" where
  "daemon_startup args env =
     (case daemon_parse_flags args of
        Inl e \<Rightarrow> Inl (SE_flags e)
      | Inr flags \<Rightarrow>
          let device_path = resolve flags env ''--device'' ''HAMSTERCAM_DEVICE'' ''/dev/video40'';
              metrics_addr = resolve flags env ''--metrics-addr'' ''HAMSTERCAM_METRICS_ADDR'' ''127.0.0.1:9843'';
              log_level_str = resolve flags env ''--log-level'' ''HAMSTERCAM_LOG_LEVEL'' ''info''
          in case daemon_config_of flags env of
               None \<Rightarrow> Inl SE_value
             | Some config \<Rightarrow>
                 (case parse_log_level log_level_str of
                    None \<Rightarrow> Inl (SE_log_level log_level_str)
                  | Some level \<Rightarrow>
                      Inr \<lparr>ds_device_path = device_path, ds_metrics_addr = metrics_addr,
                           ds_log_level = level, ds_config = config\<rparr>))"

lemma daemon_config_bounds:
  assumes "daemon_config_of flags env = Some cfg"
  shows "config_nonneg cfg" and "max_backoff cfg \<le> 4294967295000"
    and "dc_reconnect_initial_backoff cfg = 200"
  using assms
  by (auto simp: daemon_config_of_def bind_iff config_nonneg_def max_backoff_def daemon_config_default_def
      dest!: parse_duration_bounds)

lemma daemon_startup_config:
  "daemon_startup args env = Inr s \<Longrightarrow> \<exists>flags. daemon_config_of flags env = Some (ds_config s)"
  by (auto simp: daemon_startup_def Let_def split: sum.splits option.splits)

text \<open>Without arguments and environment the settings are the documented defaults.\<close>

lemma daemon_defaults:
  "daemon_config_of Map.empty Map.empty = Some daemon_config_default"
  "daemon_startup [] Map.empty =
     Inr \<lparr>ds_device_path = ''/dev/video40'', ds_metrics_addr = ''127.0.0.1:9843'', ds_log_level = LL_Info,
          ds_config = daemon_config_default\<rparr>"
proof -
  have n: "show_nat 15 = ''15''" "show_nat 10 = ''10''" "show_nat 4 = ''4''" "show_nat 30 = ''30''" "show_nat 2 = ''2''"
    by code_simp+
  show c: "daemon_config_of Map.empty Map.empty = Some daemon_config_default"
    using parse_u32_show [of 15] parse_u32_show [of 10] parse_u32_show [of 4]
      parse_duration_show(2) [of 30] parse_duration_show(2) [of 2]
    by (simp add: n daemon_config_of_def resolve_def daemon_config_default_def)
  then show "daemon_startup [] Map.empty =
     Inr \<lparr>ds_device_path = ''/dev/video40'', ds_metrics_addr = ''127.0.0.1:9843'', ds_log_level = LL_Info,
          ds_config = daemon_config_default\<rparr>"
    by (simp add: daemon_startup_def daemon_parse_flags_def resolve_def parse_log_level_def)
qed

subsection \<open>The interruptible sleep\<close>

text \<open>
  Chunks of at most 100 ms, with a look at the stop flag before each. \<open>stop\<close> reads the
  flag, \<open>sleep\<close> lets the given time pass.
\<close>

function interruptible_sleep ::
  "('w \<Rightarrow> bool \<times> 'w) \<Rightarrow> (ms \<Rightarrow> 'w \<Rightarrow> 'w) \<Rightarrow> ms \<Rightarrow> 'w \<Rightarrow> 'w" where
  "interruptible_sleep stop sleep remaining w =
     (if 0 < remaining
      then let (s, w) = stop w
           in if s then w
              else let chunk = min remaining 100
                   in interruptible_sleep stop sleep (remaining - chunk) (sleep chunk w)
      else w)"
  by pat_completeness auto
termination
  by (relation "measure (\<lambda>(stop, sleep, remaining, w). nat remaining)") auto

declare interruptible_sleep.simps [simp del]

subsection \<open>The capture loop\<close>

text \<open>
  The machine hands its events to the sink as they occur; here a sink takes the events of a
  call of \<open>step()\<close> when the call ends, in their order. The sink of the program writes to the
  log and the device does not see it.
\<close>

definition emit_new :: "(event \<Rightarrow> 'w \<Rightarrow> 'w) \<Rightarrow> csm \<Rightarrow> csm \<Rightarrow> 'w \<Rightarrow> 'w" where
  "emit_new sink m m' w = fold sink (drop (length (m_events m)) (m_events m')) w"

lemma emit_new_rel:
  assumes "\<And>e w. R w (sink e w)" and "\<And>w. R w w" and "\<And>u v w. R u v \<Longrightarrow> R v w \<Longrightarrow> R u w"
  shows "R w (emit_new sink m m' w)"
proof -
  have "R w (fold sink es w)" for es
    using assms by (induction es arbitrary: w) (simp, metis fold_simps(2))
  then show ?thesis by (simp add: emit_new_def)
qed

partial_function (option) daemon_loop ::
  "'w env \<Rightarrow> (event \<Rightarrow> 'w \<Rightarrow> 'w) \<Rightarrow> ('w \<Rightarrow> bool \<times> 'w) \<Rightarrow> (ms \<Rightarrow> 'w \<Rightarrow> 'w) \<Rightarrow> csm \<Rightarrow> 'w \<Rightarrow> (csm \<times> 'w) option" where
  "daemon_loop E sink stop sleep m w =
     (let (s, w) = stop w
      in if s then Some (m, w)
         else do {
           (wait, m', w) \<leftarrow> csm_step E 200 m w;
           daemon_loop E sink stop sleep m' (interruptible_sleep stop sleep wait (emit_new sink m m' w))
         })"

subsection \<open>The handler of the HTTP server\<close>

text \<open>
  The page: the uptime, the resident size and the statistics as they are when it is asked
  for. \<open>stats\<close> looks at the statistics the capture thread shares, \<open>status\<close> at the text of
  the process status file.
\<close>

definition daemon_page ::
  "('w \<Rightarrow> capture_stats) \<Rightarrow> build_info \<Rightarrow> ns \<Rightarrow> ('w \<Rightarrow> ns \<times> 'w) \<Rightarrow> ('w \<Rightarrow> string option) \<Rightarrow> 'w \<Rightarrow>
     (string \<times> 'w) option" where
  "daemon_page stats build start_time steady status w = do {
     let (now, w) = steady w;
     let uptime = seconds_of_ns (now - start_time);
     t \<leftarrow> render_metrics (stats w) build uptime (resident_set_bytes (status w));
     Some (t, w)
   }"

definition daemon_handler ::
  "('w \<Rightarrow> capture_stats) \<Rightarrow> build_info \<Rightarrow> ns \<Rightarrow> ('w \<Rightarrow> ns \<times> 'w) \<Rightarrow> ('w \<Rightarrow> string option) \<Rightarrow>
     'w http_handler" where
  "daemon_handler stats build start_time steady status method path w =
     (if method \<noteq> ''GET'' then Some (not_found, w)
      else if path = ''/metrics''
      then do {
        (t, w) \<leftarrow> daemon_page stats build start_time steady status w;
        Some (\<lparr>hr_status = 200, hr_content_type = metrics_content_type, hr_body = t\<rparr>, w)
      }
      else if path = ''/healthz''
      then Some (\<lparr>hr_status = 200, hr_content_type = ''text/plain'', hr_body = ''ok'' @ [newline]\<rparr>, w)
      else Some (not_found, w))"

interpretation daemon_http: metrics_endpoint
  "daemon_handler (\<lambda>w. stats (fst w)) build start (lift_call steady) (\<lambda>w. status (fst w))"
  "daemon_page (\<lambda>w. stats (fst w)) build start (lift_call steady) (\<lambda>w. status (fst w))"
  metrics_content_type
  for stats :: "'w \<Rightarrow> capture_stats" and build start steady and status :: "'w \<Rightarrow> string option"
  by unfold_locales
    (auto simp: daemon_handler_def daemon_page_def not_found_def metrics_content_type_def lift_call_def
      carriage_return_def bind_iff split: prod.splits option.splits Option.bind_splits)

subsection \<open>How long a sleep lasts\<close>

text \<open>A world that records the chunks slept.\<close>

definition sleep_log :: "(ms \<Rightarrow> 'w \<Rightarrow> 'w) \<Rightarrow> ms \<Rightarrow> 'w \<times> ms list \<Rightarrow> 'w \<times> ms list" where
  "sleep_log sleep t w = (sleep t (fst w), snd w @ [t])"

lemma lift_call_snd [simp]: "snd (snd (lift_call f w)) = snd w"
  by (simp add: lift_call_def split: prod.splits)

text \<open>
  The chunks are short, never add up to more than asked for, and add up to exactly that
  when no stop is requested.
\<close>

lemma interruptible_sleep_log:
  "\<exists>cs. snd (interruptible_sleep (lift_call stop) (sleep_log sleep) t w) = snd w @ cs \<and>
     (\<forall>c \<in> set cs. 0 < c \<and> c \<le> 100) \<and> sum_list cs \<le> max 0 t \<and>
     ((\<forall>v. \<not> fst (stop v)) \<longrightarrow> sum_list cs = max 0 t)"
proof (induction "nat t" arbitrary: t w rule: less_induct)
  case (less remaining w)
  note eq = interruptible_sleep.simps [of "lift_call stop" "sleep_log sleep" remaining w]
  show ?case
  proof (cases "0 < remaining")
    case False
    then show ?thesis by (intro exI [of _ "[]"]) (simp add: eq)
  next
    case True
    obtain s w1 where s: "lift_call stop w = (s, w1)" by (meson prod.exhaust)
    have w1: "snd w1 = snd w" using lift_call_snd [of stop w] s by simp
    show ?thesis
    proof (cases s)
      case stopped: True
      have "fst (stop (fst w))" using s stopped by (simp add: lift_call_def split: prod.splits)
      with True s stopped w1 show ?thesis by (intro exI [of _ "[]"]) (auto simp: eq)
    next
      case False
      let ?c = "min remaining 100"
      obtain cs where cs:
        "snd (interruptible_sleep (lift_call stop) (sleep_log sleep) (remaining - ?c) (sleep_log sleep ?c w1)) =
           snd (sleep_log sleep ?c w1) @ cs"
        "\<forall>c \<in> set cs. 0 < c \<and> c \<le> 100" "sum_list cs \<le> max 0 (remaining - ?c)"
        "(\<forall>v. \<not> fst (stop v)) \<longrightarrow> sum_list cs = max 0 (remaining - ?c)"
        using less [of "remaining - ?c" "sleep_log sleep ?c w1"] True by auto
      have "snd (interruptible_sleep (lift_call stop) (sleep_log sleep) remaining w) = snd w @ (?c # cs)"
        using True s False cs(1) w1 by (simp add: eq Let_def sleep_log_def)
      with cs True show ?thesis by (intro exI [of _ "?c # cs"]) auto
    qed
  qed
qed

text \<open>
  A change of the world that the flag and the sleep both make is made by the whole sleep,
  when such changes compose.
\<close>

lemma interruptible_sleep_rel:
  assumes stop: "\<And>w b w'. stop w = (b, w') \<Longrightarrow> R w w'" and sleep: "\<And>t w. R w (sleep t w)"
    and refl: "\<And>w. R w w" and trans: "\<And>u v w. R u v \<Longrightarrow> R v w \<Longrightarrow> R u w"
  shows "R w (interruptible_sleep stop sleep t w)"
proof (induction "nat t" arbitrary: t w rule: less_induct)
  case (less remaining w)
  show ?case
  proof (cases "0 < remaining")
    case False
    then show ?thesis by (simp add: interruptible_sleep.simps [of stop sleep remaining w] refl)
  next
    case True
    obtain s w1 where s: "stop w = (s, w1)" by (meson prod.exhaust)
    show ?thesis
    proof (cases s)
      case stopped: True
      with True s stop show ?thesis by (simp add: interruptible_sleep.simps [of stop sleep remaining w])
    next
      case False
      have "R (sleep (min remaining 100) w1)
          (interruptible_sleep stop sleep (remaining - min remaining 100) (sleep (min remaining 100) w1))"
        using True by (intro less) auto
      then have "R w (interruptible_sleep stop sleep (remaining - min remaining 100) (sleep (min remaining 100) w1))"
        using stop [OF s] sleep [of w1 "min remaining 100"] trans by blast
      with True s False show ?thesis
        by (simp add: interruptible_sleep.simps [of stop sleep remaining w] Let_def)
    qed
  qed
qed

subsection \<open>The loop is a run of the machine\<close>

lemma device_run_others:
  assumes "other\<^sup>*\<^sup>* w w'" and "device_run E other cfg w0 m w"
  shows "device_run E other cfg w0 m w'"
  using assms by (induction rule: rtranclp_induct) (auto intro: dr_other)

lemma daemon_loop_run:
  assumes "daemon_loop E sink stop sleep m w = Some (m', w')" and "device_run E other cfg w0 m w"
    and stop: "\<And>w b w'. stop w = (b, w') \<Longrightarrow> other w w'" and sleep: "\<And>t w. other w (sleep t w)"
    and sink: "\<And>e w. other w (sink e w)"
  shows "device_run E other cfg w0 m' w'"
proof -
  let ?P = "\<lambda>E' sk st sl m w r. E' = E \<longrightarrow> sk = sink \<longrightarrow> st = stop \<longrightarrow> sl = sleep \<longrightarrow> device_run E other cfg w0 m w \<longrightarrow>
    device_run E other cfg w0 (fst r) (snd r)"
  have "?P E' sk st sl m w r" if "daemon_loop E' sk st sl m w = Some r" for E' sk st sl m w r
  proof (rule daemon_loop.raw_induct [where P = ?P, OF _ that])
    fix loop E' sk st sl m w y
    assume IH: "\<And>E' sk st sl m w y. loop E' sk st sl m w = Some y \<Longrightarrow> ?P E' sk st sl m w y"
      and body: "(let (s, w) = st w
        in if s then Some (m, w)
           else do {
             (wait, m', w) \<leftarrow> csm_step E' 200 m w;
             loop E' sk st sl m' (interruptible_sleep st sl wait (emit_new sk m m' w))
           }) = Some y"
    show "?P E' sk st sl m w y"
    proof (intro impI)
      assume [simp]: "E' = E" "sk = sink" "st = stop" "sl = sleep" and run: "device_run E other cfg w0 m w"
      obtain s w1 where s: "stop w = (s, w1)" by fastforce
      have run1: "device_run E other cfg w0 m w1" using run stop [OF s] by (rule dr_other)
      show "device_run E other cfg w0 (fst y) (snd y)"
      proof (cases s)
        case True
        with body s run1 show ?thesis by auto
      next
        case False
        with body s obtain wait m2 w2 where t: "csm_step E 200 m w1 = Some (wait, m2, w2)"
          and r: "loop E sink stop sleep m2 (interruptible_sleep stop sleep wait (emit_new sink m m2 w2)) = Some y"
          by (auto simp: bind_iff)
        have "other\<^sup>*\<^sup>* w2 (emit_new sink m m2 w2)"
          by (rule emit_new_rel [where R = "other\<^sup>*\<^sup>*"]) (use sink in auto)
        moreover have "other\<^sup>*\<^sup>* (emit_new sink m m2 w2) (interruptible_sleep stop sleep wait (emit_new sink m m2 w2))"
          by (rule interruptible_sleep_rel [where R = "other\<^sup>*\<^sup>*"]) (use stop sleep in auto)
        ultimately have "other\<^sup>*\<^sup>* w2 (interruptible_sleep stop sleep wait (emit_new sink m m2 w2))" by simp
        then have "device_run E other cfg w0 m2 (interruptible_sleep stop sleep wait (emit_new sink m m2 w2))"
          using dr_step [OF run1 t] by (rule device_run_others)
        with IH [OF r] show ?thesis by simp
      qed
    qed
  qed
  with assms(1,2) show ?thesis by fastforce
qed

end
