(* ===== verification/Signals.thy ===== *)
theory Signals
  imports Main
begin

text \<open>
  The signals of both programs (\<^verbatim>\<open>install_signal_handlers\<close> and \<^verbatim>\<open>handle_signal\<close> of
  \<^verbatim>\<open>main.cpp\<close> and \<^verbatim>\<open>exporter_main.cpp\<close>) and the flags that the threads of a program
  stop each other with. A signal number is an integer, as for \<^verbatim>\<open>sigaction\<close>.
\<close>

definition SIGINT :: int where "SIGINT = 2"

definition SIGPIPE :: int where "SIGPIPE = 13"

definition SIGTERM :: int where "SIGTERM = 15"

text \<open>What is done with a signal: the default action, nothing, or the program's handler.\<close>

datatype disposition = Sig_default | Sig_ignored | Sig_handled

type_synonym dispositions = "int \<Rightarrow> disposition"

definition install_signal_handlers :: "dispositions \<Rightarrow> dispositions" where
  "install_signal_handlers d = d(SIGTERM := Sig_handled, SIGINT := Sig_handled, SIGPIPE := Sig_ignored)"

text \<open>
  A signal arrives while the handler \<open>f\<close> is the program's. Nothing is said of the default
  action: there the program may just end.
\<close>

definition deliver :: "('w \<Rightarrow> 'w) \<Rightarrow> dispositions \<Rightarrow> int \<Rightarrow> 'w \<Rightarrow> 'w option" where
  "deliver f d sig w =
     (case d sig of Sig_default \<Rightarrow> None | Sig_ignored \<Rightarrow> Some w | Sig_handled \<Rightarrow> Some (f w))"

abbreviation installed :: dispositions where
  "installed \<equiv> install_signal_handlers (\<lambda>_. Sig_default)"

lemma deliver_installed:
  "deliver f installed SIGTERM w = Some (f w)"
  "deliver f installed SIGINT w = Some (f w)"
  "deliver f installed SIGPIPE w = Some w"
  by (simp_all add: deliver_def install_signal_handlers_def SIGTERM_def SIGINT_def SIGPIPE_def)

lemma deliver_installed_iff:
  "deliver f installed sig w = Some w' \<longleftrightarrow>
     (sig = SIGTERM \<or> sig = SIGINT) \<and> w' = f w \<or> sig = SIGPIPE \<and> w' = w"
  by (auto simp: deliver_def install_signal_handlers_def SIGTERM_def SIGINT_def SIGPIPE_def
      split: disposition.splits)

subsection \<open>The flags\<close>

text \<open>
  \<^verbatim>\<open>g_stop_requested\<close> and the \<^verbatim>\<open>stop_requested_\<close> of the two servers. They are only ever
  set; a thread that looks at a flag leaves it as it is.
\<close>

record stop_flags =
  sf_requested :: bool
  sf_http :: bool
  sf_progress :: bool

definition stop_flags_new :: stop_flags where
  "stop_flags_new = \<lparr>sf_requested = False, sf_http = False, sf_progress = False\<rparr>"

definition handle_signal :: "stop_flags \<Rightarrow> stop_flags" where
  "handle_signal f = f\<lparr>sf_requested := True\<rparr>"

text \<open>The handler of the exporter does the same to its own flag.\<close>

definition exporter_handle_signal :: "stop_flags \<Rightarrow> stop_flags" where
  "exporter_handle_signal f = f\<lparr>sf_requested := True\<rparr>"

lemma exporter_handles [simp]: "exporter_handle_signal = handle_signal"
  by (simp add: fun_eq_iff exporter_handle_signal_def handle_signal_def)

definition http_server_stop :: "stop_flags \<Rightarrow> stop_flags" where
  "http_server_stop f = f\<lparr>sf_http := True\<rparr>"

definition progress_server_stop :: "stop_flags \<Rightarrow> stop_flags" where
  "progress_server_stop f = f\<lparr>sf_progress := True\<rparr>"

end
