(* ===== verification/Daemon_Threads.thy ===== *)
theory Daemon_Threads
  imports Daemon_Main Signals
begin

text \<open>
  \<^verbatim>\<open>main.cpp\<close> as a program: its two threads in small steps, and the order in which
  everything starts, stops and is destroyed. The main thread steps the machine, sleeps in
  chunks, finally releases the device and stops the server; the HTTP thread takes turns of
  its accept loop, and its page shows the statistics of the machine at that moment. A signal
  may arrive at any moment. The loop of the main thread as a function (\<^theory_text>\<open>daemon_loop\<close>) is shown to be exactly its small steps.
\<close>

text \<open>
  What the program needs of the system besides the device: the two stop flags (the handler
  sets \<^verbatim>\<open>g_stop_requested\<close>, the main thread reads it and sets the server's, which the HTTP
  thread reads through its sockets), the sleep, the sockets, the standard output and error, the system clock that stamps its log lines,
  the text of the process status file, and the sink the machine hands its events to.
\<close>

record 'w daemon_os =
  os_env :: "'w env"
  os_new_device :: "string \<Rightarrow> 'w \<Rightarrow> 'w"
  os_stop :: "'w \<Rightarrow> bool \<times> 'w"
  os_signal :: "'w \<Rightarrow> 'w"
  os_stop_server :: "'w \<Rightarrow> 'w"
  os_sleep :: "ms \<Rightarrow> 'w \<Rightarrow> 'w"
  os_net :: "'w net"
  os_print :: "string \<Rightarrow> 'w \<Rightarrow> 'w"
  os_warn :: "string \<Rightarrow> 'w \<Rightarrow> 'w"
  os_log_time :: "'w \<Rightarrow> ns \<times> 'w"
  os_status :: "'w \<Rightarrow> string option"
  os_sink :: "event \<Rightarrow> 'w \<Rightarrow> 'w"

subsection \<open>The main thread\<close>

text \<open>\<^term>\<open>Stopped\<close> is where the main thread waits for the other one.\<close>

datatype daemon_phase = Looping | Sleeping ms | Stopping | Closing | Notifying | Stopped

definition loop_step ::
  "'w daemon_os \<Rightarrow> csm \<Rightarrow> 'w \<Rightarrow> (daemon_phase \<times> csm \<times> 'w) option" where
  "loop_step Os m w =
     (let (s, w) = os_stop Os w
      in if s then Some (Stopping, m, w)
         else do {
           (wait, m', w) \<leftarrow> csm_step (os_env Os) 200 m w;
           Some (Sleeping wait, m', emit_new (os_sink Os) m m' w)
         })"

definition sleep_step ::
  "'w daemon_os \<Rightarrow> ms \<Rightarrow> csm \<Rightarrow> 'w \<Rightarrow> daemon_phase \<times> csm \<times> 'w" where
  "sleep_step Os remaining m w =
     (if 0 < remaining
      then let (s, w) = os_stop Os w
           in if s then (Looping, m, w)
              else let chunk = min remaining 100
                   in (Sleeping (remaining - chunk), m, os_sleep Os chunk w)
      else (Looping, m, w))"

definition main_step ::
  "'w daemon_os \<Rightarrow> daemon_phase \<Rightarrow> csm \<Rightarrow> 'w \<Rightarrow> (daemon_phase \<times> csm \<times> 'w) option" where
  "main_step Os ph m w =
     (case ph of
        Looping \<Rightarrow> loop_step Os m w
      | Sleeping remaining \<Rightarrow> Some (sleep_step Os remaining m w)
      | Stopping \<Rightarrow> do { w \<leftarrow> dev_stop_streaming (os_env Os) w; Some (Closing, m, w) }
      | Closing \<Rightarrow> do { w \<leftarrow> dev_close (os_env Os) w; Some (Notifying, m, w) }
      | Notifying \<Rightarrow> Some (Stopped, m, os_stop_server Os w)
      | Stopped \<Rightarrow> None)"

subsection \<open>Both threads\<close>

text \<open>Where the main thread is, whether the HTTP thread still runs, the machine, the world.\<close>

type_synonym 'w daemon_state = "daemon_phase \<times> bool \<times> csm \<times> 'w"

inductive daemon_step ::
  "'w daemon_os \<Rightarrow> build_info \<Rightarrow> ns \<Rightarrow> int \<Rightarrow> 'w daemon_state \<Rightarrow> 'w daemon_state \<Rightarrow> bool"
  for Os :: "'w daemon_os" and build start_time listen_fd where
  ds_main:
    "main_step Os ph m w = Some (ph', m', w') \<Longrightarrow>
       daemon_step Os build start_time listen_fd (ph, h, m, w) (ph', h, m', w')"
| ds_http_stop:
    "net_stop_requested (os_net Os) w = (True, w') \<Longrightarrow>
       daemon_step Os build start_time listen_fd (ph, True, m, w) (ph, False, m, w')"
| ds_http_turn:
    "net_stop_requested (os_net Os) w = (False, w1) \<Longrightarrow>
     http_turn (os_net Os)
       (daemon_handler (\<lambda>_. m_stats m) build start_time (clk_steady_now (os_env Os)) (os_status Os))
       listen_fd w1 = Some w' \<Longrightarrow>
       daemon_step Os build start_time listen_fd (ph, True, m, w) (ph, True, m, w')"
| ds_signal:
    "deliver (os_signal Os) installed sig w = Some w' \<Longrightarrow>
       daemon_step Os build start_time listen_fd (ph, h, m, w) (ph, h, m, w')"

subsection \<open>The program\<close>

definition startup_line :: "build_info \<Rightarrow> daemon_settings \<Rightarrow> ns \<Rightarrow> string" where
  "startup_line build s now =
     line_end
       (field_string ''metrics_addr'' (ds_metrics_addr s)
         (field_string ''device'' (ds_device_path s)
           (field_string ''git_sha'' (bi_git_sha build)
             (field_string ''version'' (bi_version build)
               (log (ds_log_level s) now LL_Info ''startup'')))))"

definition log_startup :: "'w daemon_os \<Rightarrow> build_info \<Rightarrow> daemon_settings \<Rightarrow> 'w \<Rightarrow> 'w" where
  "log_startup Os build s w =
     (let (now, w) = os_log_time Os w in os_print Os (startup_line build s now) w)"

definition shutdown_line :: "daemon_settings \<Rightarrow> ns \<Rightarrow> string" where
  "shutdown_line s now = line_end (log (ds_log_level s) now LL_Info ''shutdown'')"

definition log_shutdown :: "'w daemon_os \<Rightarrow> daemon_settings \<Rightarrow> 'w \<Rightarrow> 'w" where
  "log_shutdown Os s w = (let (now, w) = os_log_time Os w in os_print Os (shutdown_line s now) w)"

text \<open>
  The beginning of a run: the startup line, the device, the machine, the time the uptime
  counts from, and the listening socket, if there is one.
\<close>

definition daemon_begin ::
  "'w daemon_os \<Rightarrow> build_info \<Rightarrow> daemon_settings \<Rightarrow> 'w \<Rightarrow> csm \<times> ns \<times> int option \<times> 'w" where
  "daemon_begin Os build s w =
     (let w = log_startup Os build s w;
          w = os_new_device Os (ds_device_path s) w;
          (m, w) = csm_new (os_env Os) capture_stats_new (ds_config s) w;
          (start_time, w) = clk_steady_now (os_env Os) w;
          (listen_fd, w) = http_start (os_net Os) (ds_metrics_addr s) w
      in (m, start_time, listen_fd, w))"

text \<open>The destructor of the device, run on every way out once it exists.\<close>

definition destroy_device :: "'w env \<Rightarrow> 'w \<Rightarrow> 'w option" where
  "destroy_device E w = do {
     w \<leftarrow> dev_stop_streaming E w;
     dev_close E w
   }"

text \<open>The sink of the program, which writes the lines of the events at the level that is configured.\<close>

definition json_sink :: "'w daemon_os \<Rightarrow> log_level \<Rightarrow> 'w daemon_os" where
  "json_sink Os min_level =
     Os\<lparr>os_sink := (\<lambda>e w. let (now, w) = os_log_time Os w in os_print Os (sink_emit min_level now e) w)\<rparr>"

text \<open>
  One run from the arguments to the exit code. The handlers are installed when the server
  listens. The main thread ends with its loop, the device released and the server told to
  stop, and waits for the other thread; the objects are destroyed in the
  reverse order of their construction, the server's socket before the device.
\<close>

inductive daemon_run ::
  "'w daemon_os \<Rightarrow> build_info \<Rightarrow> string list \<Rightarrow> (string \<rightharpoonup> string) \<Rightarrow> 'w \<Rightarrow> int \<Rightarrow> 'w \<Rightarrow> bool"
  for Os :: "'w daemon_os" and build args env where
  dm_error:
    "daemon_startup args env = Inl e \<Longrightarrow>
       daemon_run Os build args env w 1 (os_warn Os (startup_error_text e) w)"
| dm_no_address:
    "daemon_startup args env = Inr s \<Longrightarrow> daemon_begin Os build s w = (m, start_time, None, w1) \<Longrightarrow>
     destroy_device (os_env Os) (http_destroy (os_net Os) None (os_warn Os (bind_error_text (ds_metrics_addr s)) w1)) = Some w' \<Longrightarrow>
       daemon_run Os build args env w 1 w'"
| dm_served:
    "daemon_startup args env = Inr s \<Longrightarrow> daemon_begin Os build s w = (m, start_time, Some fd, w1) \<Longrightarrow>
     (daemon_step (json_sink Os (ds_log_level s)) build start_time fd)\<^sup>*\<^sup>*
       (Looping, True, m, w1) (Stopped, False, m', w2) \<Longrightarrow>
     destroy_device (os_env Os) (http_destroy (os_net Os) (Some fd) (log_shutdown Os s w2)) = Some w' \<Longrightarrow>
       daemon_run Os build args env w 0 w'"

subsection \<open>The loop is its steps\<close>

inductive main_steps :: "'w daemon_os \<Rightarrow> daemon_phase \<times> csm \<times> 'w \<Rightarrow> daemon_phase \<times> csm \<times> 'w \<Rightarrow> bool"
  for Os :: "'w daemon_os" where
  ms_step: "main_step Os ph m w = Some c \<Longrightarrow> main_steps Os (ph, m, w) c"

inductive_cases main_stepsE: "main_steps Os (ph, m, w) c"

abbreviation main_loop :: "'w daemon_os \<Rightarrow> csm \<Rightarrow> 'w \<Rightarrow> (csm \<times> 'w) option" where
  "main_loop Os \<equiv> daemon_loop (os_env Os) (os_sink Os) (os_stop Os) (os_sleep Os)"

abbreviation main_sleep :: "'w daemon_os \<Rightarrow> ms \<Rightarrow> 'w \<Rightarrow> 'w" where
  "main_sleep Os \<equiv> interruptible_sleep (os_stop Os) (os_sleep Os)"

text \<open>What is left to run from a state until the loop ends.\<close>

definition main_rest :: "'w daemon_os \<Rightarrow> daemon_phase \<times> csm \<times> 'w \<Rightarrow> (csm \<times> 'w) option" where
  "main_rest Os c =
     (case c of (ph, m, w) \<Rightarrow>
        (case ph of
           Looping \<Rightarrow> main_loop Os m w
         | Sleeping remaining \<Rightarrow> main_loop Os m (main_sleep Os remaining w)
         | Stopping \<Rightarrow> Some (m, w)
         | Closing \<Rightarrow> None
         | Notifying \<Rightarrow> None
         | Stopped \<Rightarrow> None))"

lemma main_rest_step:
  assumes "main_step Os ph m w = Some c" and "main_rest Os c = Some r"
  shows "main_rest Os (ph, m, w) = Some r"
proof (cases ph)
  case Looping
  obtain s w1 where s: "os_stop Os w = (s, w1)" by (meson prod.exhaust)
  show ?thesis
  proof (cases s)
    case True
    with assms Looping s show ?thesis
      by (auto simp: main_step_def loop_step_def main_rest_def daemon_loop.simps [of _ _ _ _ m w])
  next
    case False
    with assms Looping s obtain wait m1 w2 where "csm_step (os_env Os) 200 m w1 = Some (wait, m1, w2)"
      "c = (Sleeping wait, m1, emit_new (os_sink Os) m m1 w2)"
      by (auto simp: main_step_def loop_step_def bind_iff)
    with assms(2) Looping s False show ?thesis
      by (simp add: main_rest_def daemon_loop.simps [of _ _ _ _ m w])
  qed
next
  case (Sleeping remaining)
  then show ?thesis
    using assms
    by (auto simp: main_step_def sleep_step_def main_rest_def Let_def
        interruptible_sleep.simps [of _ _ remaining w] split: if_splits prod.splits)
qed (use assms in \<open>auto simp: main_step_def main_rest_def bind_iff\<close>)

lemma main_rest_steps:
  "(main_steps Os)\<^sup>*\<^sup>* c (Stopping, m', w') \<Longrightarrow> main_rest Os c = Some (m', w')"
proof (induction rule: converse_rtranclp_induct)
  case base
  then show ?case by (simp add: main_rest_def)
next
  case (step c c1)
  from step(1) obtain ph m w where "c = (ph, m, w)" "main_step Os ph m w = Some c1"
    by (cases rule: main_steps.cases) blast
  with main_rest_step [OF this(2) step.IH] show ?case by simp
qed

lemma main_sleep_steps: "(main_steps Os)\<^sup>*\<^sup>* (Sleeping t, m, w) (Looping, m, main_sleep Os t w)"
proof (induction "nat t" arbitrary: t w rule: less_induct)
  case less
  note eq = interruptible_sleep.simps [of "os_stop Os" "os_sleep Os" t w]
  show ?case
  proof (cases "0 < t \<and> \<not> fst (os_stop Os w)")
    case False
    then have "main_step Os (Sleeping t) m w = Some (Looping, m, main_sleep Os t w)"
      by (auto simp: main_step_def sleep_step_def eq split: prod.splits)
    then show ?thesis by (blast intro: ms_step)
  next
    case True
    obtain w1 where s: "os_stop Os w = (False, w1)" using True by (cases "os_stop Os w") auto
    let ?c = "min t 100"
    have "main_step Os (Sleeping t) m w = Some (Sleeping (t - ?c), m, os_sleep Os ?c w1)"
      using True s by (simp add: main_step_def sleep_step_def Let_def)
    moreover have "(main_steps Os)\<^sup>*\<^sup>* (Sleeping (t - ?c), m, os_sleep Os ?c w1)
        (Looping, m, main_sleep Os (t - ?c) (os_sleep Os ?c w1))"
      using True by (intro less) auto
    moreover have "main_sleep Os t w = main_sleep Os (t - ?c) (os_sleep Os ?c w1)"
      using True s by (simp add: eq Let_def)
    ultimately show ?thesis by (metis ms_step converse_rtranclp_into_rtranclp)
  qed
qed

lemma main_loop_steps:
  assumes "main_loop Os m w = Some (m', w')"
  shows "(main_steps Os)\<^sup>*\<^sup>* (Looping, m, w) (Stopping, m', w')"
proof -
  let ?P = "\<lambda>E sk st sl m w r. E = os_env Os \<longrightarrow> sk = os_sink Os \<longrightarrow> st = os_stop Os \<longrightarrow> sl = os_sleep Os \<longrightarrow>
    (main_steps Os)\<^sup>*\<^sup>* (Looping, m, w) (Stopping, fst r, snd r)"
  have "?P E sk st sl m w r" if "daemon_loop E sk st sl m w = Some r" for E sk st sl m w r
  proof (rule daemon_loop.raw_induct [where P = ?P, OF _ that])
    fix loop E sk st sl m w y
    assume IH: "\<And>E sk st sl m w y. loop E sk st sl m w = Some y \<Longrightarrow> ?P E sk st sl m w y"
      and body: "(let (s, w) = st w
        in if s then Some (m, w)
           else do {
             (wait, m', w) \<leftarrow> csm_step E 200 m w;
             loop E sk st sl m' (interruptible_sleep st sl wait (emit_new sk m m' w))
           }) = Some y"
    show "?P E sk st sl m w y"
    proof (intro impI)
      assume [simp]: "E = os_env Os" "sk = os_sink Os" "st = os_stop Os" "sl = os_sleep Os"
      obtain s w1 where s: "os_stop Os w = (s, w1)" by (meson prod.exhaust)
      show "(main_steps Os)\<^sup>*\<^sup>* (Looping, m, w) (Stopping, fst y, snd y)"
      proof (cases s)
        case True
        with body s have "main_step Os Looping m w = Some (Stopping, fst y, snd y)"
          by (auto simp: main_step_def loop_step_def)
        then show ?thesis by (blast intro: ms_step)
      next
        case False
        with body s obtain wait m2 w2 where t: "csm_step (os_env Os) 200 m w1 = Some (wait, m2, w2)"
          and r: "loop (os_env Os) (os_sink Os) (os_stop Os) (os_sleep Os) m2
            (main_sleep Os wait (emit_new (os_sink Os) m m2 w2)) = Some y"
          by (auto simp: bind_iff)
        let ?w = "emit_new (os_sink Os) m m2 w2"
        have "main_step Os Looping m w = Some (Sleeping wait, m2, ?w)"
          using s False t by (simp add: main_step_def loop_step_def)
        then have "main_steps Os (Looping, m, w) (Sleeping wait, m2, ?w)" by (rule ms_step)
        moreover have "(main_steps Os)\<^sup>*\<^sup>* (Looping, m2, main_sleep Os wait ?w) (Stopping, fst y, snd y)"
          using IH [OF r] by simp
        ultimately show ?thesis
          using main_sleep_steps by (meson converse_rtranclp_into_rtranclp rtranclp_trans)
      qed
    qed
  qed
  with assms show ?thesis by fastforce
qed

subsection \<open>The machine between the threads\<close>

text \<open>Whatever the HTTP thread does, the machine only changes by its own steps.\<close>

lemma daemon_step_reach:
  assumes "daemon_step Os build start fd c c'" and "csm_reach (os_env Os) cfg (fst (snd (snd c)))"
  shows "csm_reach (os_env Os) cfg (fst (snd (snd c')))"
  using assms(1)
proof cases
  case ds_main
  with assms(2) show ?thesis
    by (auto simp: main_step_def loop_step_def sleep_step_def bind_iff Let_def
        split: daemon_phase.splits if_splits prod.splits intro: reach_step)
qed (use assms(2) in auto)

lemma daemon_steps_reach:
  "(daemon_step Os build start fd)\<^sup>*\<^sup>* c c' \<Longrightarrow> csm_reach (os_env Os) cfg (fst (snd (snd c))) \<Longrightarrow>
     csm_reach (os_env Os) cfg (fst (snd (snd c')))"
  by (induction rule: rtranclp_induct) (auto intro: daemon_step_reach)

lemma daemon_begin_reach:
  "daemon_begin Os build s w = (m, start, fd, w') \<Longrightarrow> csm_reach (os_env Os) (ds_config s) m"
  by (auto simp: daemon_begin_def Let_def split: prod.splits intro: reach_new)

lemma daemon_handler_R:
  assumes "daemon_handler st build start steady status method path w = Some (r, w')"
    and "\<And>w t w'. steady w = (t, w') \<Longrightarrow> R w w'" and "\<And>w. R w w"
  shows "R w w'"
  using assms
  by (auto simp: daemon_handler_def daemon_page_def Let_def bind_iff split: if_splits prod.splits)

subsection \<open>Every way out releases the device\<close>

text \<open>
  The daemon on a V4L2 device whose kernel keeps a ledger. The other system calls may do
  anything to the world except touch the device's own resources.
\<close>

definition v4l2_os :: "'k kernel \<Rightarrow> 'k ledger v4l2 daemon_os \<Rightarrow> bool" where
  "v4l2_os K Os \<longleftrightarrow>
     os_env Os = v4l2_env (ledgered K) \<and>
     os_new_device Os = (\<lambda>path d. v4l2_new path (v_kernel d)) \<and>
     (\<forall>d. outside d (snd (os_stop Os d))) \<and> (\<forall>d. outside d (os_signal Os d)) \<and>
     (\<forall>d. outside d (os_stop_server Os d)) \<and> (\<forall>e d. outside d (os_sink Os e d)) \<and> (\<forall>t d. outside d (os_sleep Os t d)) \<and>
     (\<forall>s d. outside d (os_print Os s d)) \<and> (\<forall>s d. outside d (os_warn Os s d)) \<and>
     (\<forall>d. outside d (snd (os_log_time Os d))) \<and> net_frame (os_net Os) outside"

definition released :: "'k ledger v4l2 \<Rightarrow> bool" where
  "released d \<longleftrightarrow> lg_maps (v_kernel d) = {#} \<and> lg_fds (v_kernel d) = {#}"

lemma v4l2_osD:
  assumes "v4l2_os K Os"
  shows "os_env Os = v4l2_env (ledgered K)" "os_new_device Os = (\<lambda>path d. v4l2_new path (v_kernel d))"
    "os_stop Os e = (b, e') \<Longrightarrow> outside e e'" "outside e (os_sleep Os t e)" "outside e (os_print Os x e)"
    "os_log_time Os e = (now, e') \<Longrightarrow> outside e e'" "outside e (os_warn Os x e)"
    "net_frame (os_net Os) outside" "outside e (os_signal Os e)" "outside e (os_stop_server Os e)"
    "outside e (os_sink Os ev e)"
  using assms by (auto simp: v4l2_os_def) (metis snd_conv)+

lemma outside_refl: "outside d d"
  by (cases d; cases "v_kernel d") (auto simp: outside_def)

lemma outside_trans: "outside d e \<Longrightarrow> outside e f \<Longrightarrow> outside d f"
  by (auto simp: outside_def)

lemma json_sink_env [simp]:
  "os_env (json_sink Os l) = os_env Os" "os_net (json_sink Os l) = os_net Os"
  "os_status (json_sink Os l) = os_status Os" "os_stop (json_sink Os l) = os_stop Os"
  "os_sleep (json_sink Os l) = os_sleep Os" "os_stop_server (json_sink Os l) = os_stop_server Os"
  "os_signal (json_sink Os l) = os_signal Os"
  by (simp_all add: json_sink_def)

lemma v4l2_json_sink:
  assumes "v4l2_os K Os"
  shows "v4l2_os K (json_sink Os l)"
proof -
  have "outside d (os_sink (json_sink Os l) e d)" for e d
  proof -
    obtain now d1 where t: "os_log_time Os d = (now, d1)" by (meson prod.exhaust)
    have "outside d (os_print Os x d1)" for x
      by (rule outside_trans [OF v4l2_osD(6) [OF assms t] v4l2_osD(5) [OF assms]])
    with t show ?thesis by (simp add: json_sink_def)
  qed
  with assms show ?thesis by (simp add: v4l2_os_def json_sink_def)
qed

lemma outside_released: "outside d d' \<Longrightarrow> released d \<Longrightarrow> released d'"
  by (auto simp: outside_def released_def)

lemma released_new: "released d \<Longrightarrow> v4l2_new path (v_kernel d) = v4l2_new path (new_ledger (lg_kernel (v_kernel d)))"
  by (simp add: released_def v4l2_new_def new_ledger_def)

lemma outside_clock:
  "clk_steady_now (v4l2_env (ledgered K)) d = (t, d') \<Longrightarrow> outside d d'"
  by (cases d; cases "v_kernel d")
    (auto simp: v4l2_env_def clock_of_def ledgered_def ledger_now_def outside_def split: prod.splits)

lemma destroy_device_released:
  assumes "destroy_device (v4l2_env (ledgered K)) d = Some d'" and "balanced d"
  shows "released d'"
  using assms destroy_releases [of K d d']
  by (simp add: destroy_device_def v4l2_destroy_def v4l2_env_def released_def)

lemma log_outside:
  assumes "v4l2_os K Os"
  shows "outside d (log_startup Os build s d)" and "outside d (log_shutdown Os s d)"
proof -
  obtain now d1 where t: "os_log_time Os d = (now, d1)" by (meson prod.exhaust)
  have "outside d (os_print Os x d1)" for x
    by (rule outside_trans [OF v4l2_osD(6) [OF assms t] v4l2_osD(5) [OF assms]])
  with t show "outside d (log_startup Os build s d)" "outside d (log_shutdown Os s d)"
    by (simp_all add: log_startup_def log_shutdown_def)
qed

text \<open>
  Between any two steps of the two threads the books balance, and until the loop ends the
  machine and the device are in a run of their own.
\<close>

definition daemon_ok ::
  "'k kernel \<Rightarrow> daemon_config \<Rightarrow> 'k ledger v4l2 \<Rightarrow> 'k ledger v4l2 daemon_state \<Rightarrow> bool" where
  "daemon_ok K cfg w0 c = (case c of (ph, h, m, w) \<Rightarrow>
     balanced w \<and>
     (ph \<notin> {Stopping, Closing, Notifying, Stopped} \<longrightarrow> device_run (v4l2_env (ledgered K)) outside cfg w0 m w))"

lemma daemon_step_ok:
  assumes os: "v4l2_os K Os" and K: "mmap_never_null K" and w0: "w0 = v4l2_new path (new_ledger k)"
    and step: "daemon_step Os build start fd c c'" and ok: "daemon_ok K cfg w0 c"
  shows "daemon_ok K cfg w0 c'"
proof -
  note O = v4l2_osD [OF os]
  note books = ledger_run(2) [where K = K, OF _ K]
  have moved: "daemon_ok K cfg w0 (ph, h', m, w')" if "daemon_ok K cfg w0 (ph, h, m, w)" "outside w w'" for ph h h' m w w'
    using that outside_keeps(3) [OF that(2)] by (auto simp: daemon_ok_def intro: dr_other)
  from step show ?thesis
  proof cases
    case (ds_main ph m w ph' m' w' h)
    have run: "ph \<notin> {Stopping, Closing, Notifying, Stopped} \<Longrightarrow> device_run (v4l2_env (ledgered K)) outside cfg w0 m w"
      and bal: "balanced w"
      using ok ds_main by (simp_all add: daemon_ok_def)
    show ?thesis
    proof (cases ph)
      case Looping
      obtain b w1 where s: "os_stop Os w = (b, w1)" by (meson prod.exhaust)
      have run1: "device_run (v4l2_env (ledgered K)) outside cfg w0 m w1"
        using run Looping O(3) [OF s] by (simp add: dr_other)
      show ?thesis
      proof (cases b)
        case True
        with ds_main Looping s O(1) books run1 show ?thesis
          by (auto simp: main_step_def loop_step_def daemon_ok_def w0)
      next
        case False
        with ds_main Looping s O(1) obtain wait w2 where t: "csm_step (v4l2_env (ledgered K)) 200 m w1 = Some (wait, m', w2)"
          and e: "ph' = Sleeping wait" "w' = emit_new (os_sink Os) m m' w2"
          by (auto simp: main_step_def loop_step_def bind_iff)
        have "outside w2 w'"
          unfolding e by (rule emit_new_rel) (rule O(11), rule outside_refl, rule outside_trans)
        with dr_step [OF run1 t] have "device_run (v4l2_env (ledgered K)) outside cfg w0 m' w'" by (rule dr_other)
        with books e(1) ds_main(2) show ?thesis by (auto simp: daemon_ok_def w0)
      qed
    next
      case (Sleeping t)
      obtain b w1 where s: "os_stop Os w = (b, w1)" by (meson prod.exhaust)
      have moves: "outside w w'" "m' = m" "ph' \<notin> {Stopping, Closing, Notifying, Stopped}"
        using ds_main Sleeping s O(3) [OF s] outside_trans [OF O(3) [OF s] O(4)] outside_refl [of w]
        by (auto simp: main_step_def sleep_step_def Let_def split: if_splits)
      with run Sleeping bal outside_keeps(3) [OF moves(1)] ds_main(2) show ?thesis
        by (auto simp: daemon_ok_def intro: dr_other)
    qed (use ds_main bal O(1) outside_keeps(3) [OF O(10)] in \<open>auto simp: main_step_def daemon_ok_def bind_iff
        v4l2_env_def dest: stop_balanced close_balanced\<close>)
  next
    case (ds_http_stop w w' ph m)
    with ok moved net_frame.stop_R [OF O(8)] show ?thesis by blast
  next
    case (ds_http_turn w w1 m w' ph)
    have "outside w1 w'"
      by (rule net_frame.http_turn_R [OF O(8) ds_http_turn(4)])
        (erule daemon_handler_R, simp add: O(1) outside_clock, rule outside_refl)
    with outside_trans [OF net_frame.stop_R [OF O(8) ds_http_turn(3)]] have "outside w w'" by blast
    with ok moved ds_http_turn(1,2) show ?thesis by blast
  next
    case (ds_signal sig w w' ph h m)
    then have "outside w w'" using O(9) [of w] outside_refl [of w] by (auto simp: deliver_installed_iff)
    with ok moved ds_signal(1,2) show ?thesis by blast
  qed
qed

lemma daemon_steps_ok:
  assumes "v4l2_os K Os" and "mmap_never_null K" and "w0 = v4l2_new path (new_ledger k)"
  shows "(daemon_step Os build start fd)\<^sup>*\<^sup>* c c' \<Longrightarrow> daemon_ok K cfg w0 c \<Longrightarrow> daemon_ok K cfg w0 c'"
  by (induction rule: rtranclp_induct) (auto intro: daemon_step_ok [OF assms])

lemma daemon_begin_ok:
  assumes os: "v4l2_os K Os" and K: "mmap_never_null K" and start: "released d"
    and b: "daemon_begin Os build s d = (m, start, fd, d')"
  obtains k where "daemon_ok K (ds_config s) (v4l2_new (ds_device_path s) (new_ledger k)) (Looping, True, m, d')"
proof -
  note O = v4l2_osD [OF os]
  let ?E = "v4l2_env (ledgered K)"
  let ?d1 = "log_startup Os build s d"
  define w0 where "w0 = v4l2_new (ds_device_path s) (v_kernel ?d1)"
  have "released ?d1" by (rule outside_released [OF log_outside(1) [OF os] start])
  then have w0: "w0 = v4l2_new (ds_device_path s) (new_ledger (lg_kernel (v_kernel ?d1)))"
    unfolding w0_def by (rule released_new)
  obtain m1 w2 where n: "csm_new ?E capture_stats_new (ds_config s) w0 = (m1, w2)" by (meson prod.exhaust)
  obtain st w3 where c: "clk_steady_now ?E w2 = (st, w3)" by (meson prod.exhaust)
  obtain l w4 where h: "http_start (os_net Os) (ds_metrics_addr s) w3 = (l, w4)" by (meson prod.exhaust)
  have e: "m = m1" "d' = w4"
    using b n c h by (simp_all add: daemon_begin_def O(1,2) Let_def w0_def [symmetric])
  have "outside w2 w4" by (rule outside_trans [OF outside_clock [OF c] net_frame.http_start_R [OF O(8) h]])
  with dr_new [OF n, of outside] have "device_run ?E outside (ds_config s) w0 m d'"
    unfolding e by (rule dr_other)
  with ledger_run(2) [of K, OF _ K] have "daemon_ok K (ds_config s) w0 (Looping, True, m, d')"
    by (auto simp: daemon_ok_def w0)
  with that show thesis unfolding w0 by blast
qed

lemma daemon_releases:
  assumes os: "v4l2_os K Os" and K: "mmap_never_null K" and start: "released d"
    and run: "daemon_run Os build args env d code d'"
  shows "released d'"
proof -
  note O = v4l2_osD [OF os]
  from run show ?thesis
  proof cases
    case (dm_error e)
    with outside_released [OF O(7) start] show ?thesis by simp
  next
    case (dm_no_address s m st w1)
    obtain k where "daemon_ok K (ds_config s) (v4l2_new (ds_device_path s) (new_ledger k)) (Looping, True, m, w1)"
      by (rule daemon_begin_ok [OF os K start dm_no_address(3)])
    then have "balanced (os_warn Os (bind_error_text (ds_metrics_addr s)) w1)"
      using outside_keeps(3) [OF O(7)] by (simp add: daemon_ok_def)
    with dm_no_address(4) show ?thesis unfolding O(1) http_destroy_simps by (rule destroy_device_released)
  next
    case (dm_served s m st fd w1 m' w2)
    obtain k where "daemon_ok K (ds_config s) (v4l2_new (ds_device_path s) (new_ledger k)) (Looping, True, m, w1)"
      by (rule daemon_begin_ok [OF os K start dm_served(3)])
    from daemon_steps_ok [OF v4l2_json_sink [OF os] K refl dm_served(4) this] have "balanced w2" by (simp add: daemon_ok_def)
    then have "balanced (http_destroy (os_net Os) (Some fd) (log_shutdown Os s w2))"
      unfolding http_destroy_simps
      using outside_keeps(3) [OF log_outside(2) [OF os]] outside_keeps(3) [OF net_frame.close_R [OF O(8)]] by blast
    with dm_served(5) show ?thesis unfolding O(1) by (rule destroy_device_released)
  qed
qed

subsection \<open>The program in a world with something beside it\<close>

text \<open>
  The daemon with sockets that are watched: what the sockets record is beside the world of
  everything else.
\<close>

definition watched_os :: "('w \<times> 'c) net \<Rightarrow> 'w daemon_os \<Rightarrow> ('w \<times> 'c) daemon_os" where
  "watched_os N Os =
     \<lparr>os_env = lifted_env (os_env Os),
      os_new_device = (\<lambda>path w. (os_new_device Os path (fst w), snd w)),
      os_stop = lift_call (os_stop Os),
      os_signal = (\<lambda>w. (os_signal Os (fst w), snd w)),
      os_stop_server = (\<lambda>w. (os_stop_server Os (fst w), snd w)),
      os_sleep = (\<lambda>t w. (os_sleep Os t (fst w), snd w)),
      os_net = N,
      os_print = (\<lambda>s w. (os_print Os s (fst w), snd w)),
      os_warn = (\<lambda>s w. (os_warn Os s (fst w), snd w)),
      os_log_time = lift_call (os_log_time Os),
      os_status = (\<lambda>w. os_status Os (fst w)),
      os_sink = (\<lambda>e w. (os_sink Os e (fst w), snd w))\<rparr>"

lemma watched_env [simp]: "os_env (watched_os N Os) = lifted_env (os_env Os)"
  and watched_net [simp]: "os_net (watched_os N Os) = N"
  and watched_status [simp]: "os_status (watched_os N Os) = (\<lambda>w. os_status Os (fst w))"
  by (simp_all add: watched_os_def)

lemma lifted_clock [simp]: "clk_steady_now (lifted_env E) = lift_call (clk_steady_now E)"
  by (simp add: lifted_env_def lift_call_def fun_eq_iff)

lemma watched_keeps:
  "os_stop (watched_os N Os) w = (b, w') \<Longrightarrow> snd w' = snd w"
  "snd (os_sleep (watched_os N Os) t w) = snd w"
  "snd (os_new_device (watched_os N Os) path w) = snd w"
  "snd (os_warn (watched_os N Os) x w) = snd w"
  "snd (os_signal (watched_os N Os) w) = snd w"
  "snd (os_stop_server (watched_os N Os) w) = snd w"
  "snd (os_sink (watched_os N Os) e w) = snd w"
  "snd (log_startup (watched_os N Os) build s w) = snd w"
  "snd (log_shutdown (watched_os N Os) s w) = snd w"
  by (auto simp: watched_os_def lift_call_def log_startup_def log_shutdown_def split: prod.splits)

lemma lifted_step_keeps: "csm_step (lifted_env E) pt m w = Some (wait, m', w') \<Longrightarrow> snd w' = snd w"
  by (rule beside.step_I) (simp_all only: refl)

lemma lifted_calls_keep:
  "dev_stop_streaming (lifted_env E) w = Some w' \<Longrightarrow> snd w' = snd w"
  "dev_close (lifted_env E) w = Some w' \<Longrightarrow> snd w' = snd w"
  "destroy_device (lifted_env E) w = Some w' \<Longrightarrow> snd w' = snd w"
  by (auto simp: lifted_env_def destroy_device_def bind_iff)

lemma main_step_keeps:
  assumes "main_step (watched_os N Os) ph m w = Some (ph', m', w')"
  shows "snd w' = snd w"
proof (cases ph)
  case Looping
  obtain b w1 where s: "os_stop (watched_os N Os) w = (b, w1)" by (meson prod.exhaust)
  have "snd (emit_new (os_sink (watched_os N Os)) m m' v) = snd v" for v m m'
    by (rule emit_new_rel [where R = "\<lambda>v v'. snd v' = snd v"]) (simp_all add: watched_keeps)
  with assms Looping s watched_keeps(1) [OF s] show ?thesis
    by (auto simp: main_step_def loop_step_def bind_iff split: if_splits dest!: lifted_step_keeps)
next
  case (Sleeping t)
  obtain b w1 where s: "os_stop (watched_os N Os) w = (b, w1)" by (meson prod.exhaust)
  with assms Sleeping watched_keeps(1) [OF s] show ?thesis
    by (auto simp: main_step_def sleep_step_def Let_def watched_keeps(2) split: if_splits)
qed (use assms in \<open>auto simp: main_step_def bind_iff watched_keeps dest!: lifted_calls_keep\<close>)

lemma watched_json_sink: "json_sink (watched_os N Os) l = watched_os N (json_sink Os l)"
  by (simp add: json_sink_def watched_os_def lift_call_def fun_eq_iff split: prod.split)

subsection \<open>Every socket is closed\<close>

abbreviation tracked_daemon :: "'w daemon_os \<Rightarrow> ('w \<times> int list) daemon_os" where
  "tracked_daemon Os \<equiv> watched_os (tracked (os_net Os)) Os"

lemma daemon_step_sockets:
  assumes "daemon_step (tracked_daemon Os) build start fd (ph, h, m, w) (ph', h', m', w')"
  shows "snd w' = snd w"
  using assms
proof cases
  case ds_main
  then show ?thesis by (simp add: main_step_keeps)
next
  case ds_http_stop
  then show ?thesis by (simp add: tracked_keeps(1))
next
  case (ds_http_turn w1)
  have "keeps_connections (daemon_handler st build start (lift_call f) (\<lambda>w. status (fst w)))"
    for st :: "'a \<times> int list \<Rightarrow> capture_stats" and f and status :: "'a \<Rightarrow> string option"
    unfolding keeps_connections_def
    by (intro allI impI, erule daemon_handler_R [where R = "\<lambda>w w'. snd w' = snd w"])
      (auto simp: lift_call_def split: prod.splits)
  with ds_http_turn http_turn_tracked [of "os_net Os"] tracked_keeps(1) [of "os_net Os" w False w1]
  show ?thesis by simp
next
  case ds_signal
  then show ?thesis by (auto simp: deliver_installed_iff watched_keeps)
qed

lemma daemon_steps_sockets:
  "(daemon_step (tracked_daemon Os) build start fd)\<^sup>*\<^sup>* c c' \<Longrightarrow>
     snd (snd (snd (snd c'))) = snd (snd (snd (snd c)))"
proof (induction rule: rtranclp_induct)
  case base
  show ?case by (rule refl)
next
  case (step c1 c2)
  obtain ph h m w where 1: "c1 = (ph, h, m, w)" by (cases c1) auto
  obtain ph' h' m' w' where 2: "c2 = (ph', h', m', w')" by (cases c2) auto
  from daemon_step_sockets step(2) step.IH show ?case unfolding 1 2 by fastforce
qed

lemma daemon_begin_sockets:
  assumes "daemon_begin (tracked_daemon Os) build s w = (m, start, fd, w')"
  shows "snd w' = (case fd of None \<Rightarrow> snd w | Some l \<Rightarrow> l # snd w)"
proof -
  let ?Os = "tracked_daemon Os"
  let ?w1 = "os_new_device ?Os (ds_device_path s) (log_startup ?Os build s w)"
  obtain m1 w2 where n: "csm_new (os_env ?Os) capture_stats_new (ds_config s) ?w1 = (m1, w2)" by (meson prod.exhaust)
  obtain t w3 where c: "clk_steady_now (os_env ?Os) w2 = (t, w3)" by (meson prod.exhaust)
  have "snd w2 = snd ?w1" using csm_new_world [OF n] by (simp add: lift_call_def split: prod.splits)
  moreover have "snd w3 = snd w2" using c by (auto simp: lift_call_def split: prod.splits)
  ultimately have "snd w3 = snd w" by (simp add: watched_keeps)
  with assms n c http_start_tracked [of "os_net Os" "ds_metrics_addr s" w3 fd w'] show ?thesis
    by (auto simp: daemon_begin_def Let_def split: prod.splits option.splits)
qed

lemma daemon_run_sockets:
  assumes "daemon_run (tracked_daemon Os) build args env w code w'"
  shows "snd w' = snd w"
  using assms
proof cases
  case (dm_error e)
  then show ?thesis by (simp add: watched_keeps)
next
  case (dm_no_address s m st w1)
  with daemon_begin_sockets [OF dm_no_address(3)] show ?thesis
    by (auto simp: watched_keeps dest!: lifted_calls_keep)
next
  case (dm_served s m st fd w1 m' w2)
  have "(daemon_step (tracked_daemon (json_sink Os (ds_log_level s))) build st fd)\<^sup>*\<^sup>*
      (Looping, True, m, w1) (Stopped, False, m', w2)"
    using dm_served(4) by (simp add: watched_json_sink)
  with daemon_begin_sockets [OF dm_served(3)] dm_served daemon_steps_sockets [OF this] show ?thesis
    by (auto simp: watched_keeps tracked_close dest!: lifted_calls_keep)
qed

end
