(* ===== verification/Device_Correct.thy ===== *)
theory Device_Correct
  imports Daemon_Threads Capture_Demo
begin

text \<open>
  The properties of the capture side that are about resources: buffers, descriptors and
  mappings, for the V4L2 device over any kernel and for the whole daemon.
\<close>

subsection \<open>A kernel to apply the theorems to\<close>

text \<open>One camera that always has a frame of 100 bytes; the state of the kernel is trivial.\<close>

definition demo_kernel :: "unit kernel" where
  "demo_kernel =
     \<lparr>sys_open = (\<lambda>path k. (3, k)), sys_close = (\<lambda>fd k. k),
      VIDIOC_G_FMT = (\<lambda>fd a k. (None, a\<lparr>pix_width := 640, pix_height := 480\<rparr>, k)),
      VIDIOC_ENUM_FMT = (\<lambda>fd a k. (Some EINVAL, a, k)),
      VIDIOC_REQBUFS = (\<lambda>fd a k. (None, 2, k)),
      VIDIOC_QUERYBUF = (\<lambda>fd a k. (None, a\<lparr>buf_length := 4096\<rparr>, k)),
      VIDIOC_QBUF = (\<lambda>fd a k. (None, a, k)),
      VIDIOC_DQBUF = (\<lambda>fd a k. (None, a\<lparr>buf_bytesused := 100\<rparr>, k)),
      VIDIOC_STREAMON = (\<lambda>fd a k. (None, a, k)),
      VIDIOC_STREAMOFF = (\<lambda>fd a k. (None, a, k)),
      sys_mmap = (\<lambda>fd len off k. (Some 65536, k)), sys_munmap = (\<lambda>a len k. k),
      sys_poll = (\<lambda>fd t k. (1, 1, EAGAIN, k)),
      steady_clock_now = (\<lambda>k. (0, k)), system_clock_now = (\<lambda>k. (0, k))\<rparr>"

lemma demo_kernel_maps: "mmap_never_null demo_kernel"
  by (simp add: mmap_never_null_def demo_kernel_def)

definition demo_device :: "unit ledger v4l2" where
  "demo_device = v4l2_new ''/dev/video40'' (new_ledger ())"

definition demo_v4l2_start :: "csm \<times> unit ledger v4l2" where
  "demo_v4l2_start = csm_new (v4l2_env (ledgered demo_kernel)) capture_stats_new daemon_config_default demo_device"

definition demo_v4l2_step :: "csm \<times> unit ledger v4l2 \<Rightarrow> csm \<times> unit ledger v4l2" where
  "demo_v4l2_step s =
     (case csm_step (v4l2_env (ledgered demo_kernel)) 200 (fst s) (snd s) of
        Some (wait, m, d) \<Rightarrow> (m, d) | None \<Rightarrow> s)"

definition demo_v4l2 :: "csm \<times> unit ledger v4l2" where
  "demo_v4l2 = demo_v4l2_step (demo_v4l2_step demo_v4l2_start)"

lemma demo_v4l2_step_run:
  "device_run (v4l2_env (ledgered demo_kernel)) other daemon_config_default demo_device (fst s) (snd s) \<Longrightarrow>
     device_run (v4l2_env (ledgered demo_kernel)) other daemon_config_default demo_device
       (fst (demo_v4l2_step s)) (snd (demo_v4l2_step s))"
  by (auto simp: demo_v4l2_step_def intro: dr_step split: option.split prod.split)

lemma demo_v4l2_run:
  "device_run (v4l2_env (ledgered demo_kernel)) other daemon_config_default demo_device
     (fst demo_v4l2) (snd demo_v4l2)"
proof -
  have "device_run (v4l2_env (ledgered demo_kernel)) other daemon_config_default demo_device
      (fst demo_v4l2_start) (snd demo_v4l2_start)"
    by (rule dr_new) (simp add: demo_v4l2_start_def)
  then show ?thesis unfolding demo_v4l2_def by (intro demo_v4l2_step_run)
qed

text \<open>A call that is not interrupted is made once.\<close>

lemma xioctl_once: "fst (req a k) \<noteq> Some EINTR \<Longrightarrow> xioctl req a k = Some (req a k)"
  by (subst xioctl.simps) (auto split: prod.splits)

lemma unit_ledger [simp]: "l\<lparr>lg_kernel := k\<rparr> = (l :: unit ledger)"
  by (cases l) simp

lemma demo_calls:
  "xioctl (VIDIOC_G_FMT (ledgered demo_kernel) fd) a l = Some (None, a\<lparr>pix_width := 640, pix_height := 480\<rparr>, l)"
  "xioctl (VIDIOC_ENUM_FMT (ledgered demo_kernel) fd) b l = Some (Some EINVAL, b, l)"
  "xioctl (VIDIOC_REQBUFS (ledgered demo_kernel) fd) n l = Some (None, 2, l)"
  "xioctl (VIDIOC_QUERYBUF (ledgered demo_kernel) fd) c l = Some (None, c\<lparr>buf_length := 4096\<rparr>, l)"
  "xioctl (VIDIOC_QBUF (ledgered demo_kernel) fd) c l = Some (None, c, l)"
  "xioctl (VIDIOC_STREAMON (ledgered demo_kernel) fd) u l = Some (None, u, l)"
  by (subst xioctl_once; simp add: ledgered_def demo_kernel_def ledger_ioctl_def)+

lemma demo_mmap:
  "sys_mmap (ledgered demo_kernel) fd len off l = (Some 65536, l\<lparr>lg_maps := add_mset (65536, len) (lg_maps l)\<rparr>)"
  by (simp add: ledgered_def demo_kernel_def)

lemma demo_enum: "enum_formats (ledgered demo_kernel) fd fourcc b l = Some (True, l)"
  by (subst enum_formats.simps) (simp add: demo_calls)

lemma demo_query: "\<exists>g. v4l2_query_format (ledgered demo_kernel) f d = Some (FR_Known, g, d)"
  by (simp add: v4l2_query_format_def query_compressed_def demo_calls demo_enum Let_def)

lemma demo_maps: "\<exists>d'. map_buffers (ledgered demo_kernel) 2 i d = Some (True, d') \<and> v_buffers d' \<noteq> []"
  unfolding numeral_2_eq_2 by (simp add: demo_calls demo_mmap Let_def)

lemma demo_starts:
  "\<exists>d'. v4l2_start_streaming (ledgered demo_kernel) n d = Some (SS_Started, d') \<and> v_buffers d' \<noteq> []"
proof -
  obtain d' where "map_buffers (ledgered demo_kernel) 2 0 (d\<lparr>v_buffers := []\<rparr>) = Some (True, d')" "v_buffers d' \<noteq> []"
    using demo_maps by blast
  then show ?thesis by (simp add: v4l2_start_streaming_def demo_calls Let_def)
qed

lemma demo_v4l2_opened:
  "m_state (fst (demo_v4l2_step demo_v4l2_start)) = CS_AwaitingProducer \<and>
   \<not> m_recovering (fst (demo_v4l2_step demo_v4l2_start)) \<and>
   m_next_attempt_at (fst (demo_v4l2_step demo_v4l2_start)) \<le> 0"
  by code_simp

lemma demo_v4l2_streams: "m_state (fst demo_v4l2) = CS_Streaming \<and> v_buffers (snd demo_v4l2) \<noteq> []"
proof -
  let ?E = "v4l2_env (ledgered demo_kernel)"
  let ?m = "fst (demo_v4l2_step demo_v4l2_start)" and ?d = "snd (demo_v4l2_step demo_v4l2_start)"
  have clock: "clk_steady_now ?E d = (0, d)" for d
    by (cases d) (simp add: v4l2_env_def clock_of_def ledgered_def ledger_now_def demo_kernel_def)
  obtain g where q: "dev_query_format ?E stream_format_default ?d = Some (FR_Known, g, ?d)"
    using demo_query [of stream_format_default ?d] by (auto simp: v4l2_env_def)
  obtain d' where s: "dev_start_streaming ?E (dc_buffer_count (m_config ?m)) ?d = Some (SS_Started, d')"
    and b: "v_buffers d' \<noteq> []"
    using demo_starts [of "dc_buffer_count (m_config ?m)" ?d] by (auto simp: v4l2_env_def)
  have "\<exists>m. csm_step ?E 200 ?m ?d = Some (0, m, d') \<and> m_state m = CS_Streaming"
    using demo_v4l2_opened clock q s
    by (simp add: csm_step_def step_awaiting_producer_def enter_configuring_def set_state_def store_state_def
        reset_backoffs_def emit_def Let_def)
  with b show ?thesis by (auto simp: demo_v4l2_def demo_v4l2_step_def [of "demo_v4l2_step demo_v4l2_start"])
qed

subsection \<open>Buffers\<close>

text \<open>
  C4: no buffer of the driver is ever kept: with any device, whatever it answers, every
  buffer that a dequeue lends is back at the driver when the call of \<open>step()\<close> returns.
\<close>

theorem every_buffer_returned:
  assumes "device_run (counted E) (\<lambda>w w'. snd w' = snd w) cfg (w0, {}) m w"
  shows "snd w = {}"
  by (rule loans.run_frees [OF assms]) simp_all

lemma every_buffer_returned_witness:
  "\<exists>m w. csm_new (counted fake_env) capture_stats_new daemon_config_default (fake_new, {}) = (m, w) \<and> snd w = {}"
proof -
  obtain m w where n: "csm_new (counted fake_env) capture_stats_new daemon_config_default (fake_new, {}) = (m, w)"
    by (meson prod.exhaust)
  from every_buffer_returned [OF dr_new [OF n]] n show ?thesis by blast
qed

subsection \<open>Descriptors and mappings\<close>

text \<open>
  C2: the daemon never leaks through a disruption. Over any kernel, and whatever the rest
  of the system does, the descriptors open on behalf of the device are exactly its own one
  while it streams or awaits a producer, and none while the device is absent or released;
  the mappings are exactly its buffers while it streams, and none otherwise.
\<close>

theorem no_leaks:
  assumes "device_run (v4l2_env (ledgered K)) outside cfg (v4l2_new path (new_ledger k)) m d"
    and "mmap_never_null K"
  shows "lg_fds (v_kernel d) =
      (if m_state m = CS_Streaming \<or> m_state m = CS_AwaitingProducer \<and> \<not> m_recovering m
       then {#v_fd d#} else {#}) \<and>
    lg_maps (v_kernel d) =
      (if m_state m = CS_Streaming then image_mset mapping_of (mset (v_buffers d)) else {#})"
  using ledger_run [OF assms]
  by (auto simp: fd_discipline_def balanced_def v4l2_is_open_def v4l2_engaged_def split: capture_state.splits)

lemma no_leaks_witness:
  "lg_fds (v_kernel (snd demo_v4l2)) = {#v_fd (snd demo_v4l2)#} \<and>
   lg_maps (v_kernel (snd demo_v4l2)) = image_mset mapping_of (mset (v_buffers (snd demo_v4l2)))"
  using no_leaks [OF demo_v4l2_run [unfolded demo_device_def] demo_kernel_maps] demo_v4l2_streams by simp

text \<open>
  C18: every method of the device is called only where it makes sense: a run over the V4L2
  device is also a run over the device whose methods are undefined when they are misused
  (opening it twice, querying or configuring it closed, configuring it while it streams,
  taking or returning frames while it does not).
\<close>

theorem never_misuses_the_device:
  assumes "device_run (v4l2_env K) other cfg (v4l2_new path k) m d"
    and "\<And>e e'. other e e' \<Longrightarrow> v4l2_is_open e' = v4l2_is_open e \<and> v_streaming e' = v_streaming e"
  shows "device_run (guarded v4l2_is_open v_streaming (v4l2_env K)) other cfg (v4l2_new path k) m d"
  by (rule v4l2.run_guarded [OF assms(1) _ _ assms(2)]) (simp_all add: v4l2_new_def v4l2_is_open_def)

lemma never_misuses_the_device_witness:
  "device_run (guarded v4l2_is_open v_streaming (v4l2_env (ledgered demo_kernel))) (=) daemon_config_default
     (v4l2_new ''/dev/video40'' (new_ledger ())) (fst demo_v4l2) (snd demo_v4l2)"
  by (rule never_misuses_the_device [OF demo_v4l2_run [unfolded demo_device_def]]) simp

subsection \<open>The daemon\<close>

text \<open>
  C8: the daemon releases everything on every way out, with either exit code: no descriptor
  of the device stays open and no buffer stays mapped, whether the command line is wrong,
  the metrics address cannot be bound, or a signal ends the capture loop in any state, and
  however the two threads are interleaved.
\<close>

theorem daemon_releases_everything:
  assumes "v4l2_os K Os" and "mmap_never_null K" and "released d"
    and "daemon_run Os build args env d code d'"
  shows "lg_fds (v_kernel d') = {#} \<and> lg_maps (v_kernel d') = {#}"
  using daemon_releases [OF assms] by (simp add: released_def)

text \<open>The daemon on the kernel above, with a signal already pending when the loop starts.\<close>

definition demo_net :: "'w net" where
  "demo_net =
     \<lparr>net_stop_requested = (\<lambda>w. (True, w)),
      net_getaddrinfo = (\<lambda>h p w. (Some [\<lparr>ai_family = 2, ai_socktype = 1, ai_protocol = 6, ai_addr = []\<rparr>], w)),
      net_socket = (\<lambda>f t p w. (7, w)), net_reuseaddr = (\<lambda>fd w. w), net_bind = (\<lambda>fd a w. (0, w)),
      net_listen = (\<lambda>fd n w. (0, w)), net_poll = (\<lambda>fd t w. (0, w)), net_accept = (\<lambda>fd w. (-1, w)),
      net_recv = (\<lambda>fd n w. Some (None, w)), net_send = (\<lambda>fd s w. Some (None, w)),
      net_close = (\<lambda>fd w. w), net_unlink = (\<lambda>p w. w), net_strerror = (\<lambda>w. [])\<rparr>"

definition demo_os :: "unit ledger v4l2 daemon_os" where
  "demo_os =
     \<lparr>os_env = v4l2_env (ledgered demo_kernel), os_new_device = (\<lambda>path d. v4l2_new path (v_kernel d)),
      os_stop = (\<lambda>d. (True, d)), os_signal = (\<lambda>d. d), os_stop_server = (\<lambda>d. d), os_sleep = (\<lambda>t d. d), os_net = demo_net,
      os_print = (\<lambda>s d. d), os_warn = (\<lambda>s d. d), os_log_time = (\<lambda>d. (0, d)), os_status = (\<lambda>d. None),
      os_sink = (\<lambda>e d. d)\<rparr>"

lemma demo_http_start: "snd (http_start demo_net a w) = w"
  by (simp add: http_start_def demo_net_def split: option.split prod.split)

lemma demo_os_ok: "v4l2_os demo_kernel demo_os"
proof -
  have "net_frame demo_net (outside :: unit ledger v4l2 \<Rightarrow> unit ledger v4l2 \<Rightarrow> bool)"
    by unfold_locales (auto simp: demo_net_def outside_refl intro: outside_trans)
  then show ?thesis by (simp add: v4l2_os_def demo_os_def outside_refl)
qed

lemma demo_daemon_returns: "\<exists>code d'. daemon_run demo_os build args env demo_device code d'"
proof (cases "daemon_startup args env")
  case (Inl e)
  then show ?thesis by (blast intro: dm_error)
next
  case (Inr s)
  let ?E = "v4l2_env (ledgered demo_kernel)"
  let ?d = "v4l2_new (ds_device_path s) (new_ledger ())"
  have clock: "clk_steady_now ?E d = (0, d)" for d
    by (cases d) (simp add: v4l2_env_def clock_of_def ledgered_def ledger_now_def demo_kernel_def)
  obtain m where n: "csm_new ?E capture_stats_new (ds_config s) ?d = (m, ?d)"
    by (simp add: csm_new_def clock)
  obtain l where h: "http_start demo_net (ds_metrics_addr s) ?d = (l, ?d)"
    using demo_http_start [of "ds_metrics_addr s" ?d] by (cases "http_start demo_net (ds_metrics_addr s) ?d") auto
  have os: "os_env demo_os = ?E" "os_net demo_os = demo_net" "os_stop demo_os d = (True, d)"
    "os_warn demo_os x d = d" "log_shutdown demo_os s d = d" "net_close demo_net fd d = d"
    "net_stop_requested demo_net d = (True, d)" "os_stop_server demo_os d = d" for d x fd
    by (simp_all add: demo_os_def log_shutdown_def demo_net_def)
  have "v_kernel demo_device = new_ledger ()" by (simp add: demo_device_def v4l2_new_def)
  then have b: "daemon_begin demo_os build s demo_device = (m, 0, l, ?d)"
    using n h by (simp add: daemon_begin_def demo_os_def log_startup_def clock)
  have stop: "dev_stop_streaming ?E ?d = Some ?d" "dev_close ?E ?d = Some ?d" "destroy_device ?E ?d = Some ?d"
    by (simp_all add: destroy_device_def v4l2_env_def v4l2_stop_streaming_def v4l2_close_def unmap_buffers_def v4l2_new_def)
  show ?thesis
  proof (cases l)
    case None
    with dm_no_address [OF Inr, of demo_os build demo_device m 0 ?d ?d] b stop show ?thesis by (auto simp: os)
  next
    case (Some fd)
    let ?step = "daemon_step (json_sink demo_os (ds_log_level s)) build 0 fd"
    have "?step (Looping, True, m, ?d) (Stopping, True, m, ?d)"
      by (rule ds_main) (simp add: main_step_def loop_step_def os)
    moreover have "?step (Stopping, True, m, ?d) (Closing, True, m, ?d)"
      by (rule ds_main) (simp add: main_step_def os stop)
    moreover have "?step (Closing, True, m, ?d) (Notifying, True, m, ?d)"
      by (rule ds_main) (simp add: main_step_def os stop)
    moreover have "?step (Notifying, True, m, ?d) (Stopped, True, m, ?d)"
      by (rule ds_main) (simp add: main_step_def os)
    moreover have "?step (Stopped, True, m, ?d) (Stopped, False, m, ?d)"
      by (rule ds_http_stop) (simp add: os)
    ultimately have "?step\<^sup>*\<^sup>* (Looping, True, m, ?d) (Stopped, False, m, ?d)"
      by (meson rtranclp.rtrancl_refl rtranclp.rtrancl_into_rtrancl)
    from dm_served [OF Inr _ this] b Some stop show ?thesis by (auto simp: os)
  qed
qed

lemma daemon_releases_everything_witness:
  "\<exists>code d'. daemon_run demo_os \<lparr>bi_version = [], bi_git_sha = []\<rparr> [] Map.empty demo_device code d' \<and>
     lg_fds (v_kernel d') = {#} \<and> lg_maps (v_kernel d') = {#}"
proof -
  have "released demo_device" by (simp add: released_def demo_device_def v4l2_new_def new_ledger_def)
  then show ?thesis
    using demo_daemon_returns [of "\<lparr>bi_version = [], bi_git_sha = []\<rparr>" "[]" Map.empty]
      daemon_releases_everything [OF demo_os_ok demo_kernel_maps] by blast
qed

text \<open>
  The capture loop with its sleeps is exactly the sequences of small steps that the HTTP
  thread may interleave with: it ends with a machine and a world if and only if the steps
  lead there from its beginning to the release of the device.
\<close>

theorem capture_loop_is_its_steps:
  "daemon_loop (os_env Os) (os_sink Os) (os_stop Os) (os_sleep Os) m w = Some (m', w') \<longleftrightarrow>
     (main_steps Os)\<^sup>*\<^sup>* (Looping, m, w) (Stopping, m', w')"
  using main_loop_steps [of Os m w m' w'] main_rest_steps [of Os "(Looping, m, w)" m' w']
  by (auto simp: main_rest_def)

subsection \<open>Frames from the driver\<close>

text \<open>
  How a poll and a dequeue of the driver become the result the machine sees: nothing to
  read and an interrupted poll are timeouts, a failed poll is an error, a hang-up or an
  error condition is the loss of the device, and so are the errors of the driver that mean
  it; a frame carries the driver's index and size and the time it was taken.
\<close>

theorem dequeue_result_of_driver:
  assumes "sys_poll K (v_fd d) (signed_take_bit 31 t) (v_kernel d) = (rc, revents, err, k)"
    and "v4l2_dequeue_frame K t f d = Some (r, g, d')"
  shows "if rc = 0 then r = DQ_Timeout
    else if rc < 0 then r = (if err = EINTR then DQ_Timeout else DQ_Error)
    else if revents AND (POLLERR OR POLLHUP OR POLLNVAL) \<noteq> 0 then r = DQ_DeviceLost
    else \<exists>e buf k2. xioctl (VIDIOC_DQBUF K (v_fd d)) v4l2_buffer_zero k = Some (e, buf, k2) \<and>
      (case e of
         None \<Rightarrow> r = DQ_Frame \<and> fd_buffer_index g = buf_index buf \<and>
           fd_bytes_used g = ucast (buf_bytesused buf) \<and> fd_captured_at g = fst (steady_clock_now K k2)
       | Some x \<Rightarrow> r = (if x = EAGAIN then DQ_Timeout
                        else if x = ENODEV \<or> x = EIO then DQ_DeviceLost else DQ_Error))"
proof (cases "rc \<le> 0 \<or> revents AND (POLLERR OR POLLHUP OR POLLNVAL) \<noteq> 0")
  case True
  with assms show ?thesis by (auto simp: v4l2_dequeue_frame_def Let_def split: if_splits)
next
  case False
  with assms obtain e buf k2 where
    x: "xioctl (VIDIOC_DQBUF K (v_fd d)) v4l2_buffer_zero k = Some (e, buf, k2)"
    by (auto simp: v4l2_dequeue_frame_def Let_def bind_iff)
  obtain now k3 where "steady_clock_now K k2 = (now, k3)" by fastforce
  with assms False x show ?thesis
    by (cases e) (auto simp: v4l2_dequeue_frame_def Let_def split: if_splits)
qed

lemma dequeue_result_of_driver_witness:
  "\<exists>r g d'. v4l2_dequeue_frame demo_kernel 200 frame_descriptor_default (v4l2_new [] ()) = Some (r, g, d') \<and>
     r = DQ_Frame \<and> fd_bytes_used g = 100"
proof -
  have p: "sys_poll demo_kernel (v_fd (v4l2_new [] ())) (signed_take_bit 31 200) (v_kernel (v4l2_new [] ())) =
      (1, 1, EAGAIN, ())"
    by (simp add: demo_kernel_def)
  have q: "xioctl (VIDIOC_DQBUF demo_kernel fd) b () = Some (None, b\<lparr>buf_bytesused := 100\<rparr>, ())" for fd b
    by (subst xioctl.simps) (simp add: demo_kernel_def)
  have o: "POLLERR OR POLLHUP OR POLLNVAL = 0x38" by (simp add: POLLERR_def POLLHUP_def POLLNVAL_def)
  have "v4l2_dequeue_frame demo_kernel 200 frame_descriptor_default (v4l2_new [] ()) \<noteq> None"
    using p q by (simp add: v4l2_dequeue_frame_def o Let_def split: prod.split)
  then obtain r g d' where r:
    "v4l2_dequeue_frame demo_kernel 200 frame_descriptor_default (v4l2_new [] ()) = Some (r, g, d')" by auto
  with dequeue_result_of_driver [OF p r] q show ?thesis by (auto simp: o)
qed

end
