(* ===== verification/Daemon_Log.thy ===== *)
theory Daemon_Log
  imports Daemon_Threads
begin

text \<open>
  What the daemon writes to its standard output: a world that keeps the text printed so far,
  and the invariant that this is the line of the start and one line per event of the machine.
\<close>

subsection \<open>A world with its standard output\<close>

definition printed_os :: "'w daemon_os \<Rightarrow> ('w \<times> string) daemon_os" where
  "printed_os Os =
     (watched_os (beside_net (os_net Os)) Os)
       \<lparr>os_print := (\<lambda>s w. (os_print Os s (fst w), snd w @ s)),
        os_sink := (\<lambda>e w. w)\<rparr>"

lemma printed_os_simps [simp]:
  "os_env (printed_os Os) = lifted_env (os_env Os)"
  "os_net (printed_os Os) = beside_net (os_net Os)"
  "os_status (printed_os Os) = (\<lambda>w. os_status Os (fst w))"
  "snd (os_print (printed_os Os) s w) = snd w @ s"
  "snd (os_warn (printed_os Os) s w) = snd w"
  "snd (os_sleep (printed_os Os) t w) = snd w"
  "snd (os_new_device (printed_os Os) path w) = snd w"
  "snd (os_signal (printed_os Os) w) = snd w"
  "snd (os_stop_server (printed_os Os) w) = snd w"
  by (simp_all add: printed_os_def watched_os_def)

lemma printed_os_keeps:
  "os_stop (printed_os Os) w = (b, w') \<Longrightarrow> snd w' = snd w"
  "os_log_time (printed_os Os) w = (now, w') \<Longrightarrow> snd w' = snd w"
  by (auto simp: printed_os_def watched_os_def lift_call_def split: prod.splits)

lemma printed_log_lines:
  "\<exists>t. snd (log_startup (printed_os Os) build s w) = snd w @ startup_line build s t"
  "\<exists>t. snd (log_shutdown (printed_os Os) s w) = snd w @ shutdown_line s t"
proof -
  obtain t w1 where "os_log_time (printed_os Os) w = (t, w1)" by (meson prod.exhaust)
  with printed_os_keeps(2) [OF this]
  show "\<exists>t. snd (log_startup (printed_os Os) build s w) = snd w @ startup_line build s t"
    and "\<exists>t. snd (log_shutdown (printed_os Os) s w) = snd w @ shutdown_line s t"
    by (auto simp: log_startup_def log_shutdown_def)
qed

subsection \<open>The sink\<close>

lemma sink_log_append: "sink_log l (es @ fs) = sink_log l es @ sink_log l fs"
  by (simp add: sink_log_def)

text \<open>Whatever is emitted is printed, each event with the time it was written at.\<close>

lemma printed_sink:
  "\<exists>es. map snd es = evs \<and> snd (fold (os_sink (json_sink (printed_os Os) l)) evs w) = snd w @ sink_log l es"
proof (induction evs arbitrary: w)
  case Nil
  then show ?case by (simp add: sink_log_def)
next
  case (Cons e evs)
  obtain t w1 where t: "os_log_time (printed_os Os) w = (t, w1)" by (meson prod.exhaust)
  let ?w = "os_sink (json_sink (printed_os Os) l) e w"
  have w: "snd ?w = snd w @ sink_emit l t e"
    using t printed_os_keeps(2) [OF t] by (simp add: json_sink_def)
  obtain es where "map snd es = evs"
    "snd (fold (os_sink (json_sink (printed_os Os) l)) evs ?w) = snd ?w @ sink_log l es" using Cons by blast
  with w show ?case by (intro exI [of _ "(t, e) # es"]) (simp add: sink_log_def)
qed

subsection \<open>The output between two steps\<close>

definition log_ok :: "log_level \<Rightarrow> string \<Rightarrow> ('w \<times> string) daemon_state \<Rightarrow> bool" where
  "log_ok l start c = (case c of (ph, h, m, w) \<Rightarrow>
     \<exists>es. map snd es = m_events m \<and> snd w = start @ sink_log l es)"

lemma main_step_log:
  assumes step: "main_step (json_sink (printed_os Os) l) ph m w = Some (ph', m', w')"
    and wf: "machine_wf m" and ok: "log_ok l start (ph, h, m, w)"
  shows "log_ok l start (ph', h, m', w')"
proof (cases ph)
  case Looping
  let ?O = "json_sink (printed_os Os) l"
  obtain b w1 where s: "os_stop ?O w = (b, w1)" by (meson prod.exhaust)
  then have w1: "snd w1 = snd w" using printed_os_keeps(1) by fastforce
  show ?thesis
  proof (cases b)
    case True
    with step Looping s w1 ok show ?thesis by (auto simp: main_step_def loop_step_def log_ok_def)
  next
    case False
    with step Looping s obtain wait w2 where t: "csm_step (lifted_env (os_env Os)) 200 m w1 = Some (wait, m', w2)"
      and w': "w' = emit_new (os_sink ?O) m m' w2"
      by (auto simp: main_step_def loop_step_def bind_iff)
    obtain evs where evs: "m_events m' = m_events m @ evs" using csm_step_refines [OF t wf] by blast
    obtain es where es: "map snd es = evs" "snd w' = snd w2 @ sink_log l es"
      using printed_sink [of evs Os l w2] by (auto simp: w' emit_new_def evs)
    obtain es0 where es0: "map snd es0 = m_events m" "snd w = start @ sink_log l es0"
      using ok by (auto simp: log_ok_def)
    have "snd w2 = snd w" using lifted_step_keeps [OF t] w1 by simp
    with es es0 evs show ?thesis
      unfolding log_ok_def by (auto intro!: exI [of _ "es0 @ es"] simp: sink_log_append)
  qed
next
  case (Sleeping t)
  obtain b w1 where s: "os_stop (printed_os Os) w = (b, w1)" by (meson prod.exhaust)
  with step Sleeping printed_os_keeps(1) [OF s] ok show ?thesis
    by (auto simp: main_step_def sleep_step_def Let_def log_ok_def split: if_splits)
qed (use step ok in \<open>auto simp: main_step_def bind_iff log_ok_def dest!: lifted_calls_keep\<close>)

lemma daemon_step_log:
  assumes step: "daemon_step (json_sink (printed_os Os) l) build st fd c c'"
    and wf: "machine_wf (fst (snd (snd c)))" and ok: "log_ok l start c"
  shows "log_ok l start c'"
  using step
proof cases
  case (ds_main ph m w ph' m' w' h)
  with main_step_log [OF ds_main(3)] wf ok show ?thesis by auto
next
  case (ds_http_stop w w' ph m)
  with ok beside_net.stop_R [of "os_net Os" w True w'] show ?thesis by (auto simp: log_ok_def)
next
  case (ds_http_turn w w1 m w' ph)
  have "snd w' = snd w1"
  proof (rule beside_net.http_turn_R [OF ds_http_turn(4) [simplified]])
    fix verb target v r v'
    assume "daemon_handler (\<lambda>_. m_stats m) build st (lift_call (clk_steady_now (os_env Os)))
      (\<lambda>w. os_status Os (fst w)) verb target v = Some (r, v')"
    then show "snd v' = snd v"
      by (rule daemon_handler_R [where R = "\<lambda>w w'. snd w' = snd w"])
        (auto simp: lift_call_def split: prod.splits)
  qed
  with ds_http_turn ok beside_net.stop_R [of "os_net Os" w False w1] show ?thesis by (auto simp: log_ok_def)
next
  case (ds_signal sig w w' ph h m)
  with ok show ?thesis by (auto simp: log_ok_def deliver_installed_iff)
qed

lemma daemon_steps_log:
  assumes "(daemon_step (json_sink (printed_os Os) l) build st fd)\<^sup>*\<^sup>* c c'"
    and "csm_reach (os_env (printed_os Os)) cfg (fst (snd (snd c)))" and "log_ok l start c"
  shows "log_ok l start c'"
  using assms
proof (induction rule: rtranclp_induct)
  case (step c1 c2)
  have "csm_reach (os_env (printed_os Os)) cfg (fst (snd (snd c1)))"
    using daemon_steps_reach [OF step(1)] step.prems(1) by simp
  from csm_reach_wf [OF this] step show ?case by (auto intro: daemon_step_log)
qed

subsection \<open>The output of a whole run\<close>

lemma daemon_begin_log:
  assumes "daemon_begin (printed_os Os) build s w = (m, start, fd, w')"
  shows "\<exists>t. log_ok l (snd w @ startup_line build s t) (Looping, True, m, w')"
proof -
  let ?Os = "printed_os Os"
  let ?w1 = "os_new_device ?Os (ds_device_path s) (log_startup ?Os build s w)"
  obtain m1 w2 where n: "csm_new (os_env ?Os) capture_stats_new (ds_config s) ?w1 = (m1, w2)" by (meson prod.exhaust)
  obtain t w3 where c: "clk_steady_now (os_env ?Os) w2 = (t, w3)" by (meson prod.exhaust)
  have "snd w2 = snd ?w1" using csm_new_world [OF n] by (simp add: lift_call_def split: prod.splits)
  moreover have "snd w3 = snd w2" using c by (auto simp: lift_call_def split: prod.splits)
  moreover have "snd w' = snd w3" and m: "m = m1"
    using assms n c beside_net.http_start_R [of "os_net Os" "ds_metrics_addr s" w3 fd w']
    by (auto simp: daemon_begin_def Let_def split: prod.splits)
  moreover obtain u where "snd (log_startup ?Os build s w) = snd w @ startup_line build s u"
    using printed_log_lines(1) by blast
  ultimately have "log_ok l (snd w @ startup_line build s u) (Looping, True, m, w')"
    using csm_new_fields(3) [OF n] by (simp add: log_ok_def sink_log_def)
  then show ?thesis ..
qed

lemma daemon_run_log:
  assumes "daemon_run (printed_os Os) build args env w code w'"
  shows "code = 1 \<and> (\<exists>e. daemon_startup args env = Inl e) \<and> snd w' = snd w \<or>
    code = 1 \<and> (\<exists>s t. daemon_startup args env = Inr s \<and> snd w' = snd w @ startup_line build s t) \<or>
    code = 0 \<and> (\<exists>s m t es u. daemon_startup args env = Inr s \<and>
      csm_reach (os_env (printed_os Os)) (ds_config s) m \<and> map snd es = m_events m \<and>
      snd w' = snd w @ startup_line build s t @ sink_log (ds_log_level s) es @ shutdown_line s u)"
  using assms
proof cases
  case (dm_error e)
  then show ?thesis by simp
next
  case (dm_no_address s m st w1)
  obtain t where "log_ok (ds_log_level s) (snd w @ startup_line build s t) (Looping, True, m, w1)"
    using daemon_begin_log [OF dm_no_address(3)] by blast
  moreover have "m_events m = []"
    using dm_no_address(3) by (auto simp: daemon_begin_def Let_def csm_new_fields(3) split: prod.splits)
  ultimately have "snd w1 = snd w @ startup_line build s t" by (auto simp: log_ok_def sink_log_def)
  moreover have "snd w' = snd w1"
    using dm_no_address(4) by (auto dest!: lifted_calls_keep)
  ultimately show ?thesis using dm_no_address by auto
next
  case (dm_served s m st fd w1 m' w2)
  let ?l = "ds_log_level s"
  obtain t where ok: "log_ok ?l (snd w @ startup_line build s t) (Looping, True, m, w1)"
    using daemon_begin_log [OF dm_served(3)] by blast
  have reach: "csm_reach (os_env (printed_os Os)) (ds_config s) m" using daemon_begin_reach [OF dm_served(3)] .
  have "csm_reach (os_env (printed_os Os)) (ds_config s) m'"
    using daemon_steps_reach [OF dm_served(4)] reach by simp
  moreover obtain es where "map snd es = m_events m'" "snd w2 = snd w @ startup_line build s t @ sink_log ?l es"
    using daemon_steps_log [OF dm_served(4) _ ok] reach by (auto simp: log_ok_def)
  moreover obtain u where "snd (log_shutdown (printed_os Os) s w2) = snd w2 @ shutdown_line s u"
    using printed_log_lines(2) by blast
  moreover have "snd w' = snd (log_shutdown (printed_os Os) s w2)"
    using dm_served(5) by (auto simp: beside_net_def dest!: lifted_calls_keep)
  ultimately show ?thesis using dm_served(1,2) by auto
qed

end
