(* ===== verification/Progress_Socket.thy ===== *)
theory Progress_Socket
  imports Progress_Parser Net
begin

text \<open>
  \<^verbatim>\<open>progress_socket_server.hpp\<close> and \<^verbatim>\<open>progress_socket_server.cpp\<close>:
  the unix socket ffmpeg reports to. The parser and its statistics are passed along with
  the world; \<open>wall\<close> is the clock the parser reads. The theorems say that what the parser
  has seen is exactly what was received, in order, over all connections.
\<close>

record progress_server =
  sv_socket_path :: string
  sv_listen_fd :: int
  sv_last_error :: string

definition progress_server_new :: "string \<Rightarrow> progress_server" where
  "progress_server_new path = \<lparr>sv_socket_path = path, sv_listen_fd = -1, sv_last_error = []\<rparr>"

text \<open>\<open>sizeof(sockaddr_un::sun_path)\<close>\<close>

definition sun_path_size :: nat where
  "sun_path_size = 108"

subsection \<open>Starting to listen\<close>

definition start_fail ::
  "'w net \<Rightarrow> string \<Rightarrow> progress_server \<Rightarrow> 'w \<Rightarrow> bool \<times> progress_server \<times> 'w" where
  "start_fail N what s w =
     (let s = s\<lparr>sv_last_error := what\<rparr>
      in if 0 \<le> sv_listen_fd s
         then (False, s\<lparr>sv_listen_fd := -1\<rparr>, net_close N (sv_listen_fd s) w)
         else (False, s, w))"

definition progress_start ::
  "'w net \<Rightarrow> progress_server \<Rightarrow> 'w \<Rightarrow> bool \<times> progress_server \<times> 'w" where
  "progress_start N s w =
     (let (fd, w) = net_socket N 1 1 0 w;
          s = s\<lparr>sv_listen_fd := fd\<rparr>
      in if fd < 0 then start_fail N (''socket(AF_UNIX): '' @ net_strerror N w) s w
         else if sun_path_size \<le> length (sv_socket_path s)
         then start_fail N
                (''path is '' @ show_nat (length (sv_socket_path s)) @
                 '' bytes; the kernel caps a unix socket path at '' @ show_nat (sun_path_size - 1) @
                 ''. Use a shorter directory.'') s w
         else let w = net_unlink N (sv_socket_path s) w;
                  (b, w) = net_bind N fd (sv_socket_path s) w
              in if b \<noteq> 0 then start_fail N (''bind(): '' @ net_strerror N w) s w
                 else let (l, w) = net_listen N fd 4 w
                      in if l \<noteq> 0 then start_fail N (''listen(): '' @ net_strerror N w) s w
                         else (True, s\<lparr>sv_last_error := []\<rparr>, w))"

definition progress_destroy :: "'w net \<Rightarrow> progress_server \<Rightarrow> 'w \<Rightarrow> 'w" where
  "progress_destroy N s w =
     (let w = (if 0 \<le> sv_listen_fd s then net_close N (sv_listen_fd s) w else w)
      in net_unlink N (sv_socket_path s) w)"

subsection \<open>Serving\<close>

partial_function (option) conn_loop ::
  "'w net \<Rightarrow> ('w \<Rightarrow> ns \<times> 'w) \<Rightarrow> int \<Rightarrow> progress_parser \<Rightarrow> 'w \<Rightarrow> (progress_parser \<times> 'w) option" where
  "conn_loop N wall conn p w =
     (let (stop, w) = net_stop_requested N w
      in if stop then Some (p, w)
         else let (rc, w) = net_poll N conn 200 w
              in if rc < 0 then Some (p, w)
                 else if rc = 0 then conn_loop N wall conn p w
                 else (case net_recv N conn 4096 w of
                         None \<Rightarrow> None
                       | Some (r, w) \<Rightarrow>
                           (case r of
                              None \<Rightarrow> Some (p, w)
                            | Some d \<Rightarrow>
                                if d = [] then Some (p, w)
                                else let (p, w) = feed wall d (p, w) in conn_loop N wall conn p w)))"

definition set_connected :: "bool \<Rightarrow> progress_parser \<Rightarrow> progress_parser" where
  "set_connected b p = p\<lparr>pp_stats := (pp_stats p)\<lparr>ps_connected := b\<rparr>\<rparr>"

text \<open>One turn of the accept loop.\<close>

definition progress_turn ::
  "'w net \<Rightarrow> ('w \<Rightarrow> ns \<times> 'w) \<Rightarrow> int \<Rightarrow> progress_parser \<Rightarrow> 'w \<Rightarrow> (progress_parser \<times> 'w) option" where
  "progress_turn N wall listen_fd p w =
     (let (rc, w) = net_poll N listen_fd 200 w
      in if rc \<le> 0 then Some (p, w)
         else let (conn, w) = net_accept N listen_fd w
              in if conn < 0 then Some (p, w)
                 else do {
                   (p, w) \<leftarrow> conn_loop N wall conn (set_connected True p) w;
                   let w = net_close N conn w;
                   Some (set_connected False p, w)
                 })"

partial_function (option) progress_run ::
  "'w net \<Rightarrow> ('w \<Rightarrow> ns \<times> 'w) \<Rightarrow> int \<Rightarrow> progress_parser \<Rightarrow> 'w \<Rightarrow> (progress_parser \<times> 'w) option" where
  "progress_run N wall listen_fd p w =
     (let (stop, w) = net_stop_requested N w
      in if stop then Some (p, w)
         else do {
           (p, w) \<leftarrow> progress_turn N wall listen_fd p w;
           progress_run N wall listen_fd p w
         })"

subsection \<open>The parser up to the clock\<close>

text \<open>
  Two parsers that agree on everything but the time of the last update and the connected
  flag: neither influences what is parsed.
\<close>

definition same_progress :: "progress_parser \<Rightarrow> progress_parser \<Rightarrow> bool" where
  "same_progress p q \<longleftrightarrow>
     pp_buffer p = pp_buffer q \<and>
     (pp_stats p)\<lparr>ps_last_update_unixtime := 0, ps_connected := False\<rparr> =
       (pp_stats q)\<lparr>ps_last_update_unixtime := 0, ps_connected := False\<rparr>"

definition same_stats :: "producer_stats \<Rightarrow> producer_stats \<Rightarrow> bool" where
  "same_stats s t \<longleftrightarrow>
     s\<lparr>ps_last_update_unixtime := 0, ps_connected := False\<rparr> =
     t\<lparr>ps_last_update_unixtime := 0, ps_connected := False\<rparr>"

lemma same_stats_fields:
  "same_stats s t \<longleftrightarrow>
     ps_frames_total s = ps_frames_total t \<and> ps_fps s = ps_fps t \<and>
     ps_dropped_frames_total s = ps_dropped_frames_total t \<and>
     ps_duplicated_frames_total s = ps_duplicated_frames_total t \<and>
     ps_speed_ratio s = ps_speed_ratio t"
  by (cases s; cases t) (auto simp: same_stats_def)

lemma apply_pair_same:
  assumes "same_stats s t"
  shows "same_stats (fst (apply_pair wall k v (s, w))) (fst (apply_pair wall' k v (t, w')))"
  using assms
  by (auto simp: apply_pair_def same_stats_fields Let_def split: option.splits prod.splits)

lemma parse_line_same:
  "same_stats s t \<Longrightarrow> same_stats (fst (parse_line wall l (s, w))) (fst (parse_line wall' l (t, w')))"
  by (cases "find_char CHR ''='' (strip_suffix carriage_return l)")
    (simp_all add: parse_line_def Let_def apply_pair_same del: find_char_None)

lemma parse_lines_same:
  "same_stats s t \<Longrightarrow> same_stats (fst (parse_lines wall ls (s, w))) (fst (parse_lines wall' ls (t, w')))"
proof (induction ls arbitrary: s w t w')
  case Nil
  then show ?case by (simp add: parse_lines_def)
next
  case (Cons l ls)
  obtain s1 w1 where 1: "parse_line wall l (s, w) = (s1, w1)" by fastforce
  obtain t1 v1 where 2: "parse_line wall' l (t, w') = (t1, v1)" by fastforce
  have "same_stats s1 t1" using parse_line_same [OF Cons.prems, of wall l w wall' w'] 1 2 by simp
  with Cons.IH [of s1 t1 w1 v1] 1 2 show ?case by (simp add: parse_lines_def)
qed

lemma feed_same:
  assumes "same_progress p q"
  shows "same_progress (fst (feed wall c (p, w))) (fst (feed wall' c (q, w')))"
proof -
  have s: "same_stats (pp_stats p) (pp_stats q)" and b: "pp_buffer q = pp_buffer p"
    using assms by (simp_all add: same_progress_def same_stats_def)
  show ?thesis
  proof (cases "length (pp_buffer p @ c) \<le> kMaxBufferedLine")
    case True
    with parse_lines_same [OF s, of wall "fst (split_lines (pp_buffer p @ c))" w wall' w'] b show ?thesis
      by (simp add: feed_within Let_def same_progress_def same_stats_def case_prod_beta)
  next
    case False
    with s b show ?thesis by (simp add: feed_overflow same_progress_def same_stats_def)
  qed
qed

text \<open>The parser after the given chunks, with a clock that stands still.\<close>

definition after_chunks :: "string list \<Rightarrow> progress_parser \<Rightarrow> progress_parser" where
  "after_chunks cs p = fst (feed_all (\<lambda>u. (0, u)) cs (p, ()))"

lemma after_chunks_Nil [simp]: "after_chunks [] p = p"
  by (simp add: after_chunks_def feed_all_def)

lemma after_chunks_append: "after_chunks (as @ bs) p = after_chunks bs (after_chunks as p)"
  by (cases "feed_all (\<lambda>u. (0, u)) as (p, ())") (simp add: after_chunks_def feed_all_def)

lemma after_chunks_single: "after_chunks [c] p = fst (feed (\<lambda>u. (0, u)) c (p, ()))"
  by (simp add: after_chunks_def feed_all_def)

lemma same_progress_refl [simp]: "same_progress p p"
  by (simp add: same_progress_def)

lemma same_progress_sym: "same_progress p q \<Longrightarrow> same_progress q p"
  by (simp add: same_progress_def)

lemma same_progress_trans: "same_progress p q \<Longrightarrow> same_progress q r \<Longrightarrow> same_progress p r"
  by (simp add: same_progress_def)

lemma same_progress_connected: "same_progress (set_connected b p) p"
  by (simp add: same_progress_def set_connected_def)

lemma after_chunks_same: "same_progress p q \<Longrightarrow> same_progress (after_chunks cs p) (after_chunks cs q)"
proof (induction cs arbitrary: p q)
  case Nil
  then show ?case by simp
next
  case (Cons c cs)
  have "same_progress (after_chunks [c] p) (after_chunks [c] q)"
    unfolding after_chunks_single by (rule feed_same [OF Cons.prems])
  from Cons.IH [OF this] show ?case
    using after_chunks_append [of "[c]" cs] by simp
qed

lemma feed_single_same: "same_progress (fst (feed wall c (p, w))) (after_chunks [c] p)"
  unfolding after_chunks_single by (rule feed_same) simp

subsection \<open>The parser sees what was received\<close>

text \<open>
  The result of a loop that received the chunks \<open>cs\<close>: the log has grown by them, each is
  non-empty and fits the receive buffer, and the parser is the one that was fed them.
\<close>

definition saw :: "progress_parser \<Rightarrow> 'w \<times> string list \<Rightarrow> progress_parser \<Rightarrow> 'w \<times> string list \<Rightarrow> bool" where
  "saw p w p' w' \<longleftrightarrow>
     (\<exists>cs. snd w' = snd w @ cs \<and> (\<forall>c \<in> set cs. c \<noteq> [] \<and> length c \<le> 4096) \<and>
           same_progress p' (after_chunks cs p))"

lemma saw_nothing: "snd w' = snd w \<Longrightarrow> same_progress p' p \<Longrightarrow> saw p w p' w'"
  unfolding saw_def by (rule exI [of _ "[]"]) simp

lemma saw_trans:
  assumes "saw p w q v" and "saw q v r u"
  shows "saw p w r u"
proof -
  from assms obtain as bs where
    a: "snd v = snd w @ as" "\<forall>c \<in> set as. c \<noteq> [] \<and> length c \<le> 4096" "same_progress q (after_chunks as p)" and
    b: "snd u = snd v @ bs" "\<forall>c \<in> set bs. c \<noteq> [] \<and> length c \<le> 4096" "same_progress r (after_chunks bs q)"
    unfolding saw_def by blast
  have "same_progress r (after_chunks (as @ bs) p)"
    unfolding after_chunks_append using b(3) after_chunks_same [OF a(3)] by (rule same_progress_trans)
  with a b show ?thesis unfolding saw_def by (intro exI [of _ "as @ bs"]) auto
qed

lemma saw_feed:
  assumes "snd v = snd w @ [c]" and "c \<noteq> []" and "length c \<le> 4096"
    and "feed wall c (p, v) = (q, u)" and "snd u = snd v"
  shows "saw p w q u"
  unfolding saw_def
  using assms feed_single_same [of wall c p v] by (intro exI [of _ "[c]"]) simp

text \<open>Reading the clock does not touch the log.\<close>

definition quiet_clock :: "('w \<times> 'c \<Rightarrow> ns \<times> 'w \<times> 'c) \<Rightarrow> bool" where
  "quiet_clock wall \<longleftrightarrow> (\<forall>w. snd (snd (wall w)) = snd w)"

lemma apply_pair_world: "snd (apply_pair wall k v (st, w)) = w \<or> snd (apply_pair wall k v (st, w)) = snd (wall w)"
  by (simp add: apply_pair_def Let_def split: option.split prod.split)

lemma parse_line_quiet:
  assumes "quiet_clock wall"
  shows "snd (snd (parse_line wall l (st, w))) = snd w"
proof (cases "find_char CHR ''='' (strip_suffix carriage_return l)")
  case None
  then have "parse_line wall l (st, w) = (st, w)" by (simp add: parse_line_def Let_def del: find_char_None)
  then show ?thesis by simp
next
  case (Some i)
  then have "snd (parse_line wall l (st, w)) = w \<or> snd (parse_line wall l (st, w)) = snd (wall w)"
    using apply_pair_world by (simp add: parse_line_def Let_def del: find_char_None)
  then show ?thesis using assms unfolding quiet_clock_def by metis
qed

lemma parse_lines_quiet: "quiet_clock wall \<Longrightarrow> snd (snd (parse_lines wall ls (st, w))) = snd w"
proof (induction ls arbitrary: st w)
  case Nil
  then show ?case by (simp add: parse_lines_def)
next
  case (Cons l ls)
  obtain st1 w1 where 1: "parse_line wall l (st, w) = (st1, w1)" by (meson prod.exhaust)
  with parse_line_quiet [OF Cons.prems, of l st w] Cons.IH [OF Cons.prems, of st1 w1]
  show ?case by (simp add: parse_lines_def)
qed

lemma feed_quiet: "quiet_clock wall \<Longrightarrow> snd (snd (feed wall c (p, w))) = snd w"
  using parse_lines_quiet [of wall "fst (split_lines (pp_buffer p @ c))" "pp_stats p" w]
  by (cases "length (pp_buffer p @ c) \<le> kMaxBufferedLine")
    (simp_all add: feed_within feed_overflow Let_def case_prod_beta)

lemma conn_loop_saw:
  assumes "conn_loop (heard N) wall conn p w = Some (p', w')" and N: "net_ok N" and q: "quiet_clock wall"
  shows "saw p w p' w'"
proof -
  have "M = heard N \<longrightarrow> wl = wall \<longrightarrow> saw p w (fst r) (snd r)" if "conn_loop M wl c p w = Some r"
    for M wl c p w r
  proof (rule conn_loop.raw_induct [where P = "\<lambda>M wl c p w r. M = heard N \<longrightarrow> wl = wall \<longrightarrow> saw p w (fst r) (snd r)", OF _ that])
    fix loop M wl c p w y
    assume IH: "\<And>M wl c p w y. loop M wl c p w = Some y \<Longrightarrow>
        M = heard N \<longrightarrow> wl = wall \<longrightarrow> saw p w (fst y) (snd y)"
      and body: "(let (stop, w) = net_stop_requested M w
        in if stop then Some (p, w)
           else let (rc, w) = net_poll M c 200 w
                in if rc < 0 then Some (p, w)
                   else if rc = 0 then loop M wl c p w
                   else (case net_recv M c 4096 w of
                           None \<Rightarrow> None
                         | Some (r, w) \<Rightarrow>
                             (case r of
                                None \<Rightarrow> Some (p, w)
                              | Some d \<Rightarrow>
                                  if d = [] then Some (p, w)
                                  else let (p, w) = feed wl d (p, w) in loop M wl c p w))) = Some y"
    show "M = heard N \<longrightarrow> wl = wall \<longrightarrow> saw p w (fst y) (snd y)"
    proof (intro impI)
      assume [simp]: "M = heard N" "wl = wall"
      obtain stop w1 where s: "net_stop_requested (heard N) w = (stop, w1)" by (meson prod.exhaust)
      obtain rc w2 where po: "net_poll (heard N) c 200 w1 = (rc, w2)" by (meson prod.exhaust)
      note k = heard_keeps(1) [OF s] heard_keeps(2) [OF po]
      have idle: "saw p w p w1" "saw p w p w2" using k by (simp_all add: saw_nothing)
      consider "stop" | "\<not> stop" "rc < 0" | "\<not> stop" "rc = 0" | "\<not> stop" "0 < rc" by linarith
      then show "saw p w (fst y) (snd y)"
      proof cases
        case 1
        with body s idle show ?thesis by auto
      next
        case 2
        with body s po idle show ?thesis by auto
      next
        case 3
        with body s po have "loop (heard N) wall c p w2 = Some y" by simp
        with IH saw_trans [OF idle(2)] show ?thesis by simp
      next
        case 4
        with body s po obtain r w3 where rv: "net_recv (heard N) c 4096 w2 = Some (r, w3)"
          by (auto split: option.splits)
        note hr = heard_recv [OF rv N]
        show ?thesis
        proof (cases "r = None \<or> r = Some []")
          case True
          then have "snd w3 = snd w2" "y = (p, w3)" using hr(1) body s po 4 rv by auto
          then show ?thesis using k by (simp add: saw_nothing)
        next
          case False
          then obtain d where d: "r = Some d" "d \<noteq> []" by auto
          obtain p4 w4 where f: "feed wall d (p, w3) = (p4, w4)" by (meson prod.exhaust)
          have "snd w4 = snd w3" using feed_quiet [OF q, of d p w3] f by simp
          moreover have "snd w3 = snd w2 @ [d]" "length d \<le> 4096" using hr d by simp_all
          ultimately have "saw p w2 p4 w4" using d(2) f by (intro saw_feed)
          moreover have "loop (heard N) wall c p4 w4 = Some y" using body s po 4 rv d f by simp
          then have "saw p4 w4 (fst y) (snd y)" using IH by simp
          ultimately show ?thesis using saw_trans [OF idle(2)] saw_trans by blast
        qed
      qed
    qed
  qed
  with assms(1) show ?thesis by fastforce
qed

lemma progress_turn_saw:
  assumes "progress_turn (heard N) wall fd p w = Some (p', w')" and N: "net_ok N" and q: "quiet_clock wall"
  shows "saw p w p' w' \<and> (p' = p \<or> \<not> ps_connected (pp_stats p'))"
proof -
  obtain rc w1 where po: "net_poll (heard N) fd 200 w = (rc, w1)" by (meson prod.exhaust)
  obtain c w2 where a: "net_accept (heard N) fd w1 = (c, w2)" by (meson prod.exhaust)
  note k = heard_keeps(2) [OF po] heard_keeps(3) [OF a]
  show ?thesis
  proof (cases "rc \<le> 0 \<or> c < 0")
    case True
    with assms(1) po a k show ?thesis by (auto simp: progress_turn_def saw_nothing split: if_splits)
  next
    case False
    with assms(1) po a obtain p3 w3 where l: "conn_loop (heard N) wall c (set_connected True p) w2 = Some (p3, w3)"
      and r: "p' = set_connected False p3" "w' = net_close (heard N) c w3"
      by (auto simp: progress_turn_def bind_iff Let_def)
    have "saw p w (set_connected True p) w2"
      using k by (intro saw_nothing) (simp_all add: same_progress_connected)
    moreover have "saw (set_connected True p) w2 p3 w3" by (rule conn_loop_saw [OF l N q])
    moreover have "saw p3 w3 p' w'"
      unfolding r by (intro saw_nothing) (simp_all add: same_progress_connected heard_keeps)
    ultimately have "saw p w p' w'" using saw_trans by blast
    then show ?thesis by (simp add: r set_connected_def)
  qed
qed

lemma progress_run_saw:
  assumes "progress_run (heard N) wall fd p w = Some (p', w')" and N: "net_ok N" and q: "quiet_clock wall"
  shows "saw p w p' w' \<and> (\<not> ps_connected (pp_stats p) \<longrightarrow> \<not> ps_connected (pp_stats p'))"
proof -
  let ?P = "\<lambda>M wl fd p w r. M = heard N \<longrightarrow> wl = wall \<longrightarrow>
    saw p w (fst r) (snd r) \<and> (\<not> ps_connected (pp_stats p) \<longrightarrow> \<not> ps_connected (pp_stats (fst r)))"
  have "?P M wl fd p w r" if "progress_run M wl fd p w = Some r" for M wl fd p w r
  proof (rule progress_run.raw_induct [where P = ?P, OF _ that])
    fix run M wl fd p w y
    assume IH: "\<And>M wl fd p w y. run M wl fd p w = Some y \<Longrightarrow> ?P M wl fd p w y"
      and body: "(let (stop, w) = net_stop_requested M w
        in if stop then Some (p, w)
           else do { (p, w) \<leftarrow> progress_turn M wl fd p w; run M wl fd p w }) = Some y"
    show "?P M wl fd p w y"
    proof (intro impI)
      assume [simp]: "M = heard N" "wl = wall"
      obtain stop w1 where s: "net_stop_requested (heard N) w = (stop, w1)" by (meson prod.exhaust)
      note k = heard_keeps(1) [OF s]
      have idle: "saw p w p w1" using k by (simp add: saw_nothing)
      show "saw p w (fst y) (snd y) \<and> (\<not> ps_connected (pp_stats p) \<longrightarrow> \<not> ps_connected (pp_stats (fst y)))"
      proof (cases stop)
        case True
        with body s idle show ?thesis by auto
      next
        case False
        with body s obtain p2 w2 where t: "progress_turn (heard N) wall fd p w1 = Some (p2, w2)"
          and r: "run (heard N) wall fd p2 w2 = Some y"
          by (auto simp: bind_iff)
        note turn = progress_turn_saw [OF t N q] and rest = IH [OF r, rule_format, simplified]
        have "saw p w (fst y) (snd y)"
          using saw_trans [OF idle saw_trans [of p w1 p2 w2 "fst y" "snd y"]] turn rest by blast
        with turn rest show ?thesis by blast
      qed
    qed
  qed
  with assms(1) show ?thesis by fastforce
qed

end
