(* ===== verification/Progress_Thread.thy ===== *)
theory Progress_Thread
  imports Progress_Socket
begin

text \<open>
  The thread of \<^verbatim>\<open>ProgressSocketServer::run\<close> in small steps, so that another thread
  may look at the statistics between any two of them: each step polls once, accepts or
  receives at most once. The loops of the source are exactly the sequences of these steps.
\<close>

datatype progress_phase = Listening | Attached int | Finished

type_synonym 'w progress_state = "progress_phase \<times> progress_parser \<times> 'w"

definition hang_up :: "'w net \<Rightarrow> int \<Rightarrow> progress_parser \<Rightarrow> 'w \<Rightarrow> 'w progress_state" where
  "hang_up N conn p w = (Listening, set_connected False p, net_close N conn w)"

definition listen_step ::
  "'w net \<Rightarrow> int \<Rightarrow> progress_parser \<Rightarrow> 'w \<Rightarrow> 'w progress_state option" where
  "listen_step N listen_fd p w =
     (let (stop, w) = net_stop_requested N w
      in if stop then Some (Finished, p, w)
         else let (rc, w) = net_poll N listen_fd 200 w
              in if rc \<le> 0 then Some (Listening, p, w)
                 else let (conn, w) = net_accept N listen_fd w
                      in if conn < 0 then Some (Listening, p, w)
                         else Some (Attached conn, set_connected True p, w))"

definition receive_step ::
  "'w net \<Rightarrow> ('w \<Rightarrow> ns \<times> 'w) \<Rightarrow> int \<Rightarrow> progress_parser \<Rightarrow> 'w \<Rightarrow> 'w progress_state option" where
  "receive_step N wall conn p w =
     (let (stop, w) = net_stop_requested N w
      in if stop then Some (hang_up N conn p w)
         else let (rc, w) = net_poll N conn 200 w
              in if rc < 0 then Some (hang_up N conn p w)
                 else if rc = 0 then Some (Attached conn, p, w)
                 else do {
                   (r, w) \<leftarrow> net_recv N conn 4096 w;
                   if r = None \<or> r = Some [] then Some (hang_up N conn p w)
                   else let (p, w) = feed wall (the r) (p, w) in Some (Attached conn, p, w)
                 })"

inductive progress_step ::
  "'w net \<Rightarrow> ('w \<Rightarrow> ns \<times> 'w) \<Rightarrow> int \<Rightarrow> 'w progress_state \<Rightarrow> 'w progress_state \<Rightarrow> bool"
  for N :: "'w net" and wall listen_fd where
  ps_listen: "listen_step N listen_fd p w = Some c \<Longrightarrow> progress_step N wall listen_fd (Listening, p, w) c"
| ps_receive: "receive_step N wall conn p w = Some c \<Longrightarrow> progress_step N wall listen_fd (Attached conn, p, w) c"

inductive_cases progress_stepE: "progress_step N wall listen_fd (ph, p, w) c"

subsection \<open>The steps are the loops\<close>

text \<open>What is left to run from a state.\<close>

definition progress_rest ::
  "'w net \<Rightarrow> ('w \<Rightarrow> ns \<times> 'w) \<Rightarrow> int \<Rightarrow> 'w progress_state \<Rightarrow> (progress_parser \<times> 'w) option" where
  "progress_rest N wall listen_fd c =
     (case c of (ph, p, w) \<Rightarrow>
        (case ph of
           Listening \<Rightarrow> progress_run N wall listen_fd p w
         | Attached conn \<Rightarrow> do {
             (p, w) \<leftarrow> conn_loop N wall conn p w;
             progress_run N wall listen_fd (set_connected False p) (net_close N conn w)
           }
         | Finished \<Rightarrow> Some (p, w)))"

lemma listen_step_rest:
  assumes "listen_step N fd p w = Some c"
  shows "progress_rest N wall fd (Listening, p, w) = progress_rest N wall fd c"
proof -
  obtain stop w1 where s: "net_stop_requested N w = (stop, w1)" by (meson prod.exhaust)
  obtain rc w2 where po: "net_poll N fd 200 w1 = (rc, w2)" by (meson prod.exhaust)
  obtain conn w3 where a: "net_accept N fd w2 = (conn, w3)" by (meson prod.exhaust)
  note run = progress_run.simps [of N wall fd p w]
  consider "stop" | "\<not> stop" "rc \<le> 0 \<or> conn < 0" | "\<not> stop" "0 < rc" "0 \<le> conn" by linarith
  then show ?thesis
  proof cases
    case 1
    with assms s show ?thesis by (auto simp: listen_step_def progress_rest_def run)
  next
    case 2
    with s po a have "progress_turn N wall fd p w1 = Some (p, if rc \<le> 0 then w2 else w3)"
      by (auto simp: progress_turn_def)
    with assms 2 s po a show ?thesis
      by (auto simp: listen_step_def progress_rest_def run split: if_splits)
  next
    case 3
    with assms s po a show ?thesis
      by (auto simp: listen_step_def progress_rest_def run progress_turn_def split: Option.bind_splits)
  qed
qed

lemma receive_step_rest:
  assumes "receive_step N wall conn p w = Some c"
  shows "progress_rest N wall fd (Attached conn, p, w) = progress_rest N wall fd c"
proof -
  obtain stop w1 where s: "net_stop_requested N w = (stop, w1)" by (meson prod.exhaust)
  obtain rc w2 where po: "net_poll N conn 200 w1 = (rc, w2)" by (meson prod.exhaust)
  note loop = conn_loop.simps [of N wall conn p w]
  consider "stop" | "\<not> stop" "rc < 0" | "\<not> stop" "rc = 0" | "\<not> stop" "0 < rc" by linarith
  then show ?thesis
  proof cases
    case 4
    with assms s po obtain r w3 where rv: "net_recv N conn 4096 w2 = Some (r, w3)"
      by (auto simp: receive_step_def bind_iff)
    with assms s po 4 show ?thesis
      by (cases r) (auto simp: receive_step_def progress_rest_def loop hang_up_def split: prod.splits)
  qed (use assms s po in \<open>auto simp: receive_step_def progress_rest_def loop hang_up_def\<close>)
qed

lemma progress_step_rest:
  "progress_step N wall fd c c' \<Longrightarrow> progress_rest N wall fd c = progress_rest N wall fd c'"
  by (erule progress_step.cases) (simp_all add: listen_step_rest receive_step_rest)

lemma conn_loop_steps:
  assumes "conn_loop N wall conn p w = Some (p', w')"
  shows "(progress_step N wall fd)\<^sup>*\<^sup>* (Attached conn, p, w) (hang_up N conn p' w')"
proof -
  let ?P = "\<lambda>M wl c p w r. (progress_step M wl fd)\<^sup>*\<^sup>* (Attached c, p, w) (hang_up M c (fst r) (snd r))"
  have "?P M wl c p w r" if "conn_loop M wl c p w = Some r" for M :: "'a net" and wl c p w r
  proof (rule conn_loop.raw_induct [where P = ?P, OF _ that])
    fix loop and M :: "'a net" and wl c p w y
    assume IH: "\<And>M wl c p w y. loop M wl c p w = Some y \<Longrightarrow> ?P M wl c p w y"
      and body: "(let (stop, w) = net_stop_requested M w
        in if stop then Some (p, w)
           else let (rc, w) = net_poll M c 200 w
                in if rc < 0 then Some (p, w)
                   else if rc = 0 then loop M wl c p w
                   else (case net_recv M c 4096 w of
                           None \<Rightarrow> None
                         | Some (r, w) \<Rightarrow>
                             (case r of
                                None \<Rightarrow> Some (p, w)
                              | Some d \<Rightarrow>
                                  if d = [] then Some (p, w)
                                  else let (p, w) = feed wl d (p, w) in loop M wl c p w))) = Some y"
    obtain stop w1 where s: "net_stop_requested M w = (stop, w1)" by (meson prod.exhaust)
    obtain rc w2 where po: "net_poll M c 200 w1 = (rc, w2)" by (meson prod.exhaust)
    consider "stop \<or> rc < 0" | "\<not> stop" "rc = 0" | "\<not> stop" "0 < rc" by linarith
    then show "?P M wl c p w y"
    proof cases
      case 1
      with body s po have "receive_step M wl c p w = Some (hang_up M c (fst y) (snd y))"
        by (auto simp: receive_step_def)
      then show ?thesis by (blast intro: ps_receive)
    next
      case 2
      with body s po have "receive_step M wl c p w = Some (Attached c, p, w2)"
        "loop M wl c p w2 = Some y" by (auto simp: receive_step_def)
      with IH show ?thesis by (blast intro: ps_receive converse_rtranclp_into_rtranclp)
    next
      case 3
      with body s po obtain r w3 where rv: "net_recv M c 4096 w2 = Some (r, w3)"
        by (auto split: option.splits)
      show ?thesis
      proof (cases "r = None \<or> r = Some []")
        case True
        with body s po 3 rv have "receive_step M wl c p w = Some (hang_up M c (fst y) (snd y))"
          by (auto simp: receive_step_def)
        then show ?thesis by (blast intro: ps_receive)
      next
        case False
        then obtain d where d: "r = Some d" "d \<noteq> []" by auto
        obtain p4 w4 where f: "feed wl d (p, w3) = (p4, w4)" by (meson prod.exhaust)
        have "receive_step M wl c p w = Some (Attached c, p4, w4)" "loop M wl c p4 w4 = Some y"
          using body s po 3 rv d f by (simp_all add: receive_step_def)
        with IH show ?thesis by (blast intro: ps_receive converse_rtranclp_into_rtranclp)
      qed
    qed
  qed
  with assms show ?thesis by fastforce
qed

lemma progress_turn_steps:
  assumes "net_stop_requested N w = (False, w1)" and "progress_turn N wall fd p w1 = Some (p', w')"
  shows "(progress_step N wall fd)\<^sup>*\<^sup>* (Listening, p, w) (Listening, p', w')"
proof -
  obtain rc w2 where po: "net_poll N fd 200 w1 = (rc, w2)" by (meson prod.exhaust)
  obtain conn w3 where a: "net_accept N fd w2 = (conn, w3)" by (meson prod.exhaust)
  show ?thesis
  proof (cases "rc \<le> 0 \<or> conn < 0")
    case True
    with assms po a have "listen_step N fd p w = Some (Listening, p', w')"
      by (auto simp: listen_step_def progress_turn_def split: if_splits)
    then show ?thesis by (blast intro: ps_listen)
  next
    case False
    with assms po a obtain p4 w4 where l: "conn_loop N wall conn (set_connected True p) w3 = Some (p4, w4)"
      and r: "(Listening, p', w') = hang_up N conn p4 w4"
      by (auto simp: progress_turn_def hang_up_def bind_iff Let_def)
    from False assms(1) po a have "listen_step N fd p w = Some (Attached conn, set_connected True p, w3)"
      by (simp add: listen_step_def)
    with conn_loop_steps [OF l, of fd] show ?thesis
      unfolding r by (blast intro: ps_listen converse_rtranclp_into_rtranclp)
  qed
qed

lemma progress_run_steps:
  assumes "progress_run N wall fd p w = Some (p', w')"
  shows "(progress_step N wall fd)\<^sup>*\<^sup>* (Listening, p, w) (Finished, p', w')"
proof -
  let ?P = "\<lambda>M wl l p w r. (progress_step M wl l)\<^sup>*\<^sup>* (Listening, p, w) (Finished, fst r, snd r)"
  have "?P M wl l p w r" if "progress_run M wl l p w = Some r" for M :: "'a net" and wl l p w r
  proof (rule progress_run.raw_induct [where P = ?P, OF _ that])
    fix run and M :: "'a net" and wl l p w y
    assume IH: "\<And>M wl l p w y. run M wl l p w = Some y \<Longrightarrow> ?P M wl l p w y"
      and body: "(let (stop, w) = net_stop_requested M w
        in if stop then Some (p, w)
           else do { (p, w) \<leftarrow> progress_turn M wl l p w; run M wl l p w }) = Some y"
    obtain stop w1 where s: "net_stop_requested M w = (stop, w1)" by (meson prod.exhaust)
    show "?P M wl l p w y"
    proof (cases stop)
      case True
      with body s have "listen_step M l p w = Some (Finished, fst y, snd y)"
        by (auto simp: listen_step_def)
      then show ?thesis by (blast intro: ps_listen)
    next
      case False
      with body s obtain p2 w2 where t: "progress_turn M wl l p w1 = Some (p2, w2)"
        and r: "run M wl l p2 w2 = Some y"
        by (auto simp: bind_iff)
      from progress_turn_steps [OF _ t] s False IH [OF r] show ?thesis by force
    qed
  qed
  with assms show ?thesis by fastforce
qed

lemma progress_steps_rest:
  "(progress_step N wall fd)\<^sup>*\<^sup>* c c' \<Longrightarrow> progress_rest N wall fd c = progress_rest N wall fd c'"
  by (induction rule: rtranclp_induct) (simp_all add: progress_step_rest)

end
