(* ===== verification/Exporter_Main.thy ===== *)
theory Exporter_Main
  imports Progress_Thread Metrics_Text Json_Logger Http_Server Command_Line Signals
begin

text \<open>
  \<^verbatim>\<open>exporter_main.cpp\<close>: the settings of the exporter, the handler of its HTTP server,
  its three threads and the order in which everything starts and stops. The threads are
  interleaved: the main thread, which waits for a signal and then sets the stop flags, the
  progress thread in the steps of \<^theory_text>\<open>Progress_Thread\<close>, the HTTP thread in turns of its
  accept loop. They share the statistics of the parser and the flags, nothing else.
\<close>

subsection \<open>Settings\<close>

definition exporter_flags :: "string list" where
  "exporter_flags = [''--progress-socket'', ''--metrics-addr'', ''--log-level'']"

definition exporter_parse_flags :: "string list \<Rightarrow> flag_error + flags" where
  "exporter_parse_flags args = flag_loop exporter_flags args Map.empty"

interpretation exporter_table: flag_table exporter_flags
  by unfold_locales (auto simp: exporter_flags_def)

definition exporter_resolve :: "flags \<Rightarrow> (string \<rightharpoonup> string) \<Rightarrow> string \<Rightarrow> string \<Rightarrow> string \<Rightarrow> string" where
  "exporter_resolve flags env flag_name env_name default_value =
     (case flags flag_name of
        Some v \<Rightarrow> v
      | None \<Rightarrow> (case env env_name of Some v \<Rightarrow> v | None \<Rightarrow> default_value))"

definition exporter_usage :: string where
  "exporter_usage = concat (map (\<lambda>l. l @ [newline])
     [''hamstercam-exporter -- exposes an ffmpeg producer'' @ [CHR 0x27] @ ''s progress as Prometheus metrics.'',
      '''',
      ''ffmpeg writes progress to a unix socket; this listens on that socket and serves'',
      ''what it reports over HTTP. Point ffmpeg at it with -progress unix://<path>.'',
      '''',
      ''  --progress-socket PATH   socket to listen on'',
      ''                           (default /run/hamstercam/ffmpeg-progress.sock)'',
      ''  --metrics-addr HOST:PORT where to serve /metrics (default 127.0.0.1:9844)'',
      ''  --log-level LEVEL        debug, info, warn, or error (default info)'',
      ''  --help                   this text'',
      '''',
      ''Every flag can also be set by environment variable:'',
      ''HAMSTERCAM_PROGRESS_SOCKET, HAMSTERCAM_METRICS_ADDR, HAMSTERCAM_LOG_LEVEL.'',
      ''A flag wins over the matching variable.''])"

record exporter_settings =
  xs_socket_path :: string
  xs_metrics_addr :: string
  xs_log_level :: log_level

datatype exporter_startup =
    XS_help
  | XS_error startup_error
  | XS_run exporter_settings

definition exporter_start :: "string list \<Rightarrow> (string \<rightharpoonup> string) \<Rightarrow> exporter_startup" where
  "exporter_start args env =
     (if \<exists>arg \<in> set args. arg = ''--help'' \<or> arg = ''-h'' then XS_help
      else case exporter_parse_flags args of
             Inl e \<Rightarrow> XS_error (SE_flags e)
           | Inr flags \<Rightarrow>
               let socket_path = exporter_resolve flags env ''--progress-socket'' ''HAMSTERCAM_PROGRESS_SOCKET''
                     ''/run/hamstercam/ffmpeg-progress.sock'';
                   metrics_addr = exporter_resolve flags env ''--metrics-addr'' ''HAMSTERCAM_METRICS_ADDR'' ''127.0.0.1:9844'';
                   log_level_str = exporter_resolve flags env ''--log-level'' ''HAMSTERCAM_LOG_LEVEL'' ''info''
               in case parse_log_level log_level_str of
                    None \<Rightarrow> XS_error (SE_log_level log_level_str)
                  | Some level \<Rightarrow>
                      XS_run \<lparr>xs_socket_path = socket_path, xs_metrics_addr = metrics_addr, xs_log_level = level\<rparr>)"

text \<open>An unknown flag is answered with the usage as well.\<close>

definition exporter_error_text :: "startup_error \<Rightarrow> string" where
  "exporter_error_text e =
     (case e of
        SE_flags (Unknown_flag name) \<Rightarrow> ''unknown flag: '' @ name @ [newline, newline] @ exporter_usage
      | _ \<Rightarrow> startup_error_text e)"

subsection \<open>The handler of the HTTP server\<close>

definition exporter_handler :: "producer_stats \<Rightarrow> 'w http_handler" where
  "exporter_handler st method path w =
     (if method \<noteq> ''GET'' then Some (not_found, w)
      else if path = ''/metrics''
      then Some (\<lparr>hr_status = 200, hr_content_type = metrics_content_type, hr_body = render_exporter_metrics st\<rparr>, w)
      else Some (not_found, w))"

interpretation exporter_http: metrics_endpoint "exporter_handler st"
  "\<lambda>w. Some (render_exporter_metrics st, w)" metrics_content_type for st
  by unfold_locales
    (auto simp: exporter_handler_def not_found_def metrics_content_type_def carriage_return_def)

lemma exporter_handler_keeps: "keeps_connections (exporter_handler st)"
  by (auto simp: keeps_connections_def exporter_handler_def split: if_splits)

subsection \<open>The threads\<close>

text \<open>
  What the program needs of the system. Each server has a stop flag of its own, so there
  are two records of sockets over the same world; the handler sets \<^verbatim>\<open>g_stop_requested\<close>, the
  main thread reads it and sets the flags of the servers.
\<close>

record 'w exporter_os =
  xo_progress :: "'w net"
  xo_http :: "'w net"
  xo_stop :: "'w \<Rightarrow> bool \<times> 'w"
  xo_signal :: "'w \<Rightarrow> 'w"
  xo_stop_progress :: "'w \<Rightarrow> 'w"
  xo_stop_http :: "'w \<Rightarrow> 'w"
  xo_sleep :: "ms \<Rightarrow> 'w \<Rightarrow> 'w"
  xo_wall :: "'w \<Rightarrow> ns \<times> 'w"
  xo_print :: "string \<Rightarrow> 'w \<Rightarrow> 'w"
  xo_warn :: "string \<Rightarrow> 'w \<Rightarrow> 'w"
  xo_log_time :: "'w \<Rightarrow> ns \<times> 'w"

text \<open>
  Where the main thread is: it waits for the flag, then stops the one server and the other,
  then waits for their threads.
\<close>

datatype exporter_phase = Waiting | Stopping_progress | Stopping_http | Joining

definition exporter_main_step :: "'w exporter_os \<Rightarrow> exporter_phase \<Rightarrow> 'w \<Rightarrow> exporter_phase \<times> 'w" where
  "exporter_main_step Os x w =
     (case x of
        Waiting \<Rightarrow>
          let (s, w) = xo_stop Os w
          in if s then (Stopping_progress, w) else (Waiting, xo_sleep Os 200 w)
      | Stopping_progress \<Rightarrow> (Stopping_http, xo_stop_progress Os w)
      | Stopping_http \<Rightarrow> (Joining, xo_stop_http Os w)
      | Joining \<Rightarrow> (Joining, w))"

definition exporter_install_signal_handlers :: "dispositions \<Rightarrow> dispositions" where
  "exporter_install_signal_handlers d = d(SIGTERM := Sig_handled, SIGINT := Sig_handled, SIGPIPE := Sig_ignored)"

lemma exporter_installs [simp]: "exporter_install_signal_handlers = install_signal_handlers"
  by (simp add: fun_eq_iff exporter_install_signal_handlers_def install_signal_handlers_def)

text \<open>
  Where the main thread and the progress thread are, whether the HTTP thread still runs, the
  parser, the world.
\<close>

type_synonym 'w exporter_state = "exporter_phase \<times> progress_phase \<times> bool \<times> progress_parser \<times> 'w"

inductive exporter_step ::
  "'w exporter_os \<Rightarrow> int \<Rightarrow> int \<Rightarrow> 'w exporter_state \<Rightarrow> 'w exporter_state \<Rightarrow> bool"
  for Os :: "'w exporter_os" and progress_fd http_fd where
  es_main:
    "exporter_main_step Os x w = (x', w') \<Longrightarrow>
       exporter_step Os progress_fd http_fd (x, ph, h, p, w) (x', ph, h, p, w')"
| es_progress:
    "progress_step (xo_progress Os) (xo_wall Os) progress_fd (ph, p, w) (ph', p', w') \<Longrightarrow>
       exporter_step Os progress_fd http_fd (x, ph, h, p, w) (x, ph', h, p', w')"
| es_http_stop:
    "net_stop_requested (xo_http Os) w = (True, w') \<Longrightarrow>
       exporter_step Os progress_fd http_fd (x, ph, True, p, w) (x, ph, False, p, w')"
| es_http_turn:
    "net_stop_requested (xo_http Os) w = (False, w1) \<Longrightarrow>
     http_turn (xo_http Os) (exporter_handler (pp_stats p)) http_fd w1 = Some w' \<Longrightarrow>
       exporter_step Os progress_fd http_fd (x, ph, True, p, w) (x, ph, True, p, w')"
| es_signal:
    "deliver (xo_signal Os) (exporter_install_signal_handlers (\<lambda>_. Sig_default)) sig w = Some w' \<Longrightarrow>
       exporter_step Os progress_fd http_fd (x, ph, h, p, w) (x, ph, h, p, w')"

text \<open>The page says that a producer is attached exactly while one is.\<close>

definition attached_ok :: "'w exporter_state \<Rightarrow> bool" where
  "attached_ok c = (case c of (x, ph, h, p, w) \<Rightarrow>
     ps_connected (pp_stats p) \<longleftrightarrow> (case ph of Attached conn \<Rightarrow> True | _ \<Rightarrow> False))"

lemma apply_pair_connected:
  "ps_connected (fst (apply_pair wall k v (st, w))) = ps_connected st"
  by (auto simp: apply_pair_def Let_def split: option.splits prod.splits)

lemma parse_line_connected: "ps_connected (fst (parse_line wall l (st, w))) = ps_connected st"
  by (cases "find_char CHR ''='' (strip_suffix carriage_return l)")
    (simp_all add: parse_line_def Let_def apply_pair_connected del: find_char_None)

lemma parse_lines_connected: "ps_connected (fst (parse_lines wall ls (st, w))) = ps_connected st"
proof (induction ls arbitrary: st w)
  case Nil
  then show ?case by (simp add: parse_lines_def)
next
  case (Cons l ls)
  obtain st1 w1 where 1: "parse_line wall l (st, w) = (st1, w1)" by (meson prod.exhaust)
  with parse_line_connected [of wall l st w] Cons.IH [of st1 w1] show ?case
    by (simp add: parse_lines_def)
qed

lemma feed_connected: "ps_connected (pp_stats (fst (feed wall c (p, w)))) = ps_connected (pp_stats p)"
  using parse_lines_connected [of wall "fst (split_lines (pp_buffer p @ c))" "pp_stats p" w]
  by (cases "length (pp_buffer p @ c) \<le> kMaxBufferedLine")
    (simp_all add: feed_within feed_overflow Let_def case_prod_beta)

lemma set_connected_stats [simp]: "ps_connected (pp_stats (set_connected b p)) = b"
  by (simp add: set_connected_def)

lemma listen_step_attached:
  "listen_step N fd p w = Some (ph', p', w') \<Longrightarrow> \<not> ps_connected (pp_stats p) \<Longrightarrow> attached_ok (x, ph', h, p', w')"
  by (auto simp: attached_ok_def listen_step_def split: prod.splits if_splits)

lemma receive_step_attached:
  assumes "receive_step N wall conn p w = Some (ph', p', w')" and "ps_connected (pp_stats p)"
  shows "attached_ok (x, ph', h, p', w')"
proof (cases "\<exists>d v. (Attached conn, fst (feed wall d (p, v)), snd (feed wall d (p, v))) = (ph', p', w')")
  case True
  then obtain d v where e: "(ph', p', w') = (Attached conn, fst (feed wall d (p, v)), snd (feed wall d (p, v)))"
    by metis
  have "ph' = Attached conn" "p' = fst (feed wall d (p, v))" using e by (simp_all add: prod_eq_iff)
  then show ?thesis using assms(2) feed_connected [of wall d p v] by (simp add: attached_ok_def)
next
  case False
  with assms show ?thesis
    by (auto simp: attached_ok_def receive_step_def hang_up_def bind_iff case_prod_beta Let_def split: if_splits)
qed

lemma exporter_step_attached:
  assumes "exporter_step Os pfd hfd c c'" and "attached_ok c"
  shows "attached_ok c'"
  using assms(1)
proof cases
  case (es_progress ph p w ph' p' w' x h)
  from es_progress(3) show ?thesis
    by (cases rule: progress_stepE)
      (use assms(2) es_progress in \<open>auto simp: attached_ok_def [of "(x, ph, h, p, w)"]
         intro: listen_step_attached receive_step_attached\<close>)
qed (use assms(2) in \<open>simp_all add: attached_ok_def\<close>)

lemma exporter_steps_attached:
  "(exporter_step Os pfd hfd)\<^sup>*\<^sup>* c c' \<Longrightarrow> attached_ok c \<Longrightarrow> attached_ok c'"
  by (induction rule: rtranclp_induct) (auto intro: exporter_step_attached)

subsection \<open>The program\<close>

definition exporter_log_startup :: "'w exporter_os \<Rightarrow> exporter_settings \<Rightarrow> 'w \<Rightarrow> 'w" where
  "exporter_log_startup Os s w =
     (let (now, w) = xo_log_time Os w
      in xo_print Os
           (line_end
             (field_string ''metrics_addr'' (xs_metrics_addr s)
               (field_string ''progress_socket'' (xs_socket_path s)
                 (log (xs_log_level s) now LL_Info ''startup'')))) w)"

definition exporter_log_shutdown :: "'w exporter_os \<Rightarrow> exporter_settings \<Rightarrow> 'w \<Rightarrow> 'w" where
  "exporter_log_shutdown Os s w =
     (let (now, w) = xo_log_time Os w
      in xo_print Os (line_end (log (xs_log_level s) now LL_Info ''shutdown'')) w)"

definition socket_error_text :: "exporter_settings \<Rightarrow> progress_server \<Rightarrow> string" where
  "socket_error_text s sv =
     ''cannot listen on progress socket '' @ xs_socket_path s @ [newline] @
     ''  '' @ sv_last_error sv @ [newline]"

text \<open>
  One run of the program from its arguments to its exit code. The handlers are installed
  when both servers listen; the threads run until the main thread has set the stop flags
  and the two others have seen theirs. The objects are destroyed in the reverse order of their construction.
\<close>

inductive exporter_run ::
  "'w exporter_os \<Rightarrow> string list \<Rightarrow> (string \<rightharpoonup> string) \<Rightarrow> 'w \<Rightarrow> int \<Rightarrow> 'w \<Rightarrow> bool"
  for Os :: "'w exporter_os" and args env where
  xr_help:
    "exporter_start args env = XS_help \<Longrightarrow> exporter_run Os args env w 0 (xo_print Os exporter_usage w)"
| xr_error:
    "exporter_start args env = XS_error e \<Longrightarrow>
       exporter_run Os args env w 1 (xo_warn Os (exporter_error_text e) w)"
| xr_no_socket:
    "exporter_start args env = XS_run s \<Longrightarrow>
     progress_start (xo_progress Os) (progress_server_new (xs_socket_path s)) (exporter_log_startup Os s w) = (False, sv, w1) \<Longrightarrow>
       exporter_run Os args env w 1
         (progress_destroy (xo_progress Os) sv (xo_warn Os (socket_error_text s sv) w1))"
| xr_no_address:
    "exporter_start args env = XS_run s \<Longrightarrow>
     progress_start (xo_progress Os) (progress_server_new (xs_socket_path s)) (exporter_log_startup Os s w) = (True, sv, w1) \<Longrightarrow>
     http_start (xo_http Os) (xs_metrics_addr s) w1 = (None, w2) \<Longrightarrow>
       exporter_run Os args env w 1
         (progress_destroy (xo_progress Os) sv
           (http_destroy (xo_http Os) None (xo_warn Os (bind_error_text (xs_metrics_addr s)) w2)))"
| xr_served:
    "exporter_start args env = XS_run s \<Longrightarrow>
     progress_start (xo_progress Os) (progress_server_new (xs_socket_path s)) (exporter_log_startup Os s w) = (True, sv, w1) \<Longrightarrow>
     http_start (xo_http Os) (xs_metrics_addr s) w1 = (Some fd, w2) \<Longrightarrow>
     (exporter_step Os (sv_listen_fd sv) fd)\<^sup>*\<^sup>*
       (Waiting, Listening, True, progress_parser_new producer_stats_new, w2) (Joining, Finished, False, p, w3) \<Longrightarrow>
       exporter_run Os args env w 0
         (progress_destroy (xo_progress Os) sv (http_destroy (xo_http Os) (Some fd) (exporter_log_shutdown Os s w3)))"

subsection \<open>Every socket is closed\<close>

text \<open>The system with something beside its world, which only the sockets may touch.\<close>

definition watched_exporter ::
  "('w \<times> 'c) net \<Rightarrow> ('w \<times> 'c) net \<Rightarrow> 'w exporter_os \<Rightarrow> ('w \<times> 'c) exporter_os" where
  "watched_exporter P H Os =
     \<lparr>xo_progress = P, xo_http = H,
      xo_stop = lift_call (xo_stop Os),
      xo_signal = (\<lambda>w. (xo_signal Os (fst w), snd w)),
      xo_stop_progress = (\<lambda>w. (xo_stop_progress Os (fst w), snd w)),
      xo_stop_http = (\<lambda>w. (xo_stop_http Os (fst w), snd w)),
      xo_sleep = (\<lambda>t w. (xo_sleep Os t (fst w), snd w)),
      xo_wall = lift_call (xo_wall Os),
      xo_print = (\<lambda>s w. (xo_print Os s (fst w), snd w)),
      xo_warn = (\<lambda>s w. (xo_warn Os s (fst w), snd w)),
      xo_log_time = lift_call (xo_log_time Os)\<rparr>"

lemma watched_exporter_nets [simp]:
  "xo_progress (watched_exporter P H Os) = P"
  "xo_http (watched_exporter P H Os) = H"
  by (simp_all add: watched_exporter_def)

lemma watched_exporter_keeps [simp]:
  "snd (exporter_log_startup (watched_exporter P H Os) s w) = snd w"
  "snd (exporter_log_shutdown (watched_exporter P H Os) s w) = snd w"
  "snd (xo_print (watched_exporter P H Os) x w) = snd w"
  "snd (xo_warn (watched_exporter P H Os) x w) = snd w"
  "snd (xo_signal (watched_exporter P H Os) w) = snd w"
  "snd (xo_stop_progress (watched_exporter P H Os) w) = snd w"
  "snd (xo_stop_http (watched_exporter P H Os) w) = snd w"
  "snd (xo_sleep (watched_exporter P H Os) t w) = snd w"
  by (simp_all add: watched_exporter_def exporter_log_startup_def exporter_log_shutdown_def lift_call_def
      split: prod.splits)

text \<open>The system with its open sockets remembered.\<close>

abbreviation tracked_os :: "'w exporter_os \<Rightarrow> ('w \<times> int list) exporter_os" where
  "tracked_os Os \<equiv> watched_exporter (tracked (xo_progress Os)) (tracked (xo_http Os)) Os"

lemma watched_main_step:
  assumes "exporter_main_step (watched_exporter P H Os) x w = (x', w')"
  shows "snd w' = snd w"
proof -
  obtain s w1 where "xo_stop (watched_exporter P H Os) w = (s, w1)" by (meson prod.exhaust)
  moreover from this have "snd w1 = snd w" by (auto simp: watched_exporter_def lift_call_def split: prod.splits)
  ultimately show ?thesis
    using assms by (cases x) (auto simp: exporter_main_step_def split: if_splits)
qed

lemma progress_start_tracked:
  assumes "progress_start (tracked N) (progress_server_new path) w = (ok, sv, w')"
  shows "if ok then 0 \<le> sv_listen_fd sv \<and> snd w' = sv_listen_fd sv # snd w
    else sv_listen_fd sv < 0 \<and> snd w' = snd w"
proof -
  obtain fd w1 where s: "net_socket (tracked N) 1 1 0 w = (fd, w1)" by (meson prod.exhaust)
  obtain b w2 where b: "net_bind (tracked N) fd path (net_unlink (tracked N) path w1) = (b, w2)"
    by (meson prod.exhaust)
  obtain l w3 where l: "net_listen (tracked N) fd 4 w2 = (l, w3)" by (meson prod.exhaust)
  note k = tracked_socket [OF s] tracked_keeps(4) [OF b] tracked_keeps(5) [OF l]
  consider "fd < 0" | "0 \<le> fd" "sun_path_size \<le> length path"
    | "0 \<le> fd" "length path < sun_path_size" "b \<noteq> 0"
    | "0 \<le> fd" "length path < sun_path_size" "b = 0" "l \<noteq> 0"
    | "0 \<le> fd" "length path < sun_path_size" "b = 0" "l = 0" by linarith
  then show ?thesis
    using assms s b l k
    by cases (auto simp: progress_start_def start_fail_def progress_server_new_def tracked_close tracked_keeps)
qed

text \<open>The sockets between two steps: those the program started with, and the producer's.\<close>

definition sockets_ok :: "int list \<Rightarrow> ('w \<times> int list) exporter_state \<Rightarrow> bool" where
  "sockets_ok base c = (case c of (x, ph, h, p, w) \<Rightarrow>
     snd w = (case ph of Attached conn \<Rightarrow> conn # base | _ \<Rightarrow> base))"

lemma tracked_wall: "quiet_clock (xo_wall (tracked_os Os))"
  by (simp add: quiet_clock_def watched_exporter_def lift_call_def split: prod.splits)

lemma listen_step_sockets:
  assumes "listen_step (tracked N) fd p w = Some (ph', p', w')" and "snd w = base"
  shows "sockets_ok base (x, ph', h, p', w')"
proof -
  obtain stop w1 where s: "net_stop_requested (tracked N) w = (stop, w1)" by (meson prod.exhaust)
  obtain rc w2 where po: "net_poll (tracked N) fd 200 w1 = (rc, w2)" by (meson prod.exhaust)
  obtain conn w3 where a: "net_accept (tracked N) fd w2 = (conn, w3)" by (meson prod.exhaust)
  note k = tracked_keeps(1) [OF s] tracked_keeps(2) [OF po] tracked_accept [OF a]
  show ?thesis
    using assms s po a k by (auto simp: listen_step_def sockets_ok_def split: if_splits)
qed

lemma receive_step_sockets:
  assumes "receive_step (tracked N) wall conn p w = Some (ph', p', w')" and q: "quiet_clock wall"
    and "snd w = conn # base"
  shows "sockets_ok base (x, ph', h, p', w')"
proof -
  obtain stop w1 where s: "net_stop_requested (tracked N) w = (stop, w1)" by (meson prod.exhaust)
  obtain rc w2 where po: "net_poll (tracked N) conn 200 w1 = (rc, w2)" by (meson prod.exhaust)
  note k = tracked_keeps(1) [OF s] tracked_keeps(2) [OF po]
  consider "stop" | "\<not> stop" "rc < 0" | "\<not> stop" "rc = 0" | "\<not> stop" "0 < rc" by linarith
  then show ?thesis
  proof cases
    case 4
    with assms s po obtain r w3 where rv: "net_recv (tracked N) conn 4096 w2 = Some (r, w3)"
      by (auto simp: receive_step_def bind_iff)
    obtain p4 w4 where f: "feed wall (the r) (p, w3) = (p4, w4)" by (meson prod.exhaust)
    from feed_quiet [OF q, of "the r" p w3] f have "snd w4 = snd w3" by simp
    with assms s po k 4 rv f tracked_keeps(8) [OF rv] show ?thesis
      by (auto simp: receive_step_def sockets_ok_def hang_up_def tracked_close split: if_splits)
  qed (use assms s po k in \<open>auto simp: receive_step_def sockets_ok_def hang_up_def tracked_close\<close>)
qed

lemma exporter_step_sockets:
  assumes "exporter_step (tracked_os Os) pfd hfd c c'" and "sockets_ok base c"
  shows "sockets_ok base c'"
  using assms(1)
proof cases
  case (es_progress ph p w ph' p' w' x h)
  from es_progress(3) show ?thesis
    by (cases rule: progress_stepE)
      (use assms(2) es_progress tracked_wall in \<open>auto simp: sockets_ok_def [of base "(x, ph, h, p, w)"]
         intro: listen_step_sockets receive_step_sockets [OF _ tracked_wall]\<close>)
next
  case (es_main x w x' w' ph h p)
  with assms(2) watched_main_step [OF es_main(3)] show ?thesis by (simp add: sockets_ok_def)
next
  case (es_signal sig w w' x ph h p)
  with assms(2) show ?thesis by (auto simp: sockets_ok_def deliver_installed_iff)
next
  case (es_http_stop w w' x ph p)
  with assms(2) show ?thesis by (auto simp: sockets_ok_def dest!: tracked_keeps(1))
next
  case (es_http_turn w w1 p w' x ph)
  moreover have "snd w' = snd w1"
    using es_http_turn(4) by (auto intro: http_turn_tracked [OF _ exporter_handler_keeps])
  ultimately show ?thesis using assms(2)
    by (auto simp: sockets_ok_def dest!: tracked_keeps(1))
qed

lemma exporter_steps_sockets:
  "(exporter_step (tracked_os Os) pfd hfd)\<^sup>*\<^sup>* c c' \<Longrightarrow> sockets_ok base c \<Longrightarrow> sockets_ok base c'"
  by (induction rule: rtranclp_induct) (auto intro: exporter_step_sockets)

lemma progress_destroy_tracked:
  "snd (progress_destroy (tracked N) sv w) = (if 0 \<le> sv_listen_fd sv then remove1 (sv_listen_fd sv) (snd w) else snd w)"
  by (simp add: progress_destroy_def tracked_close tracked_keeps)

lemma exporter_run_sockets:
  assumes "exporter_run (tracked_os Os) args env w code w'"
  shows "snd w' = snd w"
  using assms
proof cases
  case (xr_no_socket s sv w1)
  with progress_start_tracked [of "xo_progress Os" "xs_socket_path s"] show ?thesis
    by (fastforce simp: progress_destroy_tracked)
next
  case (xr_no_address s sv w1 w2)
  then have "0 \<le> sv_listen_fd sv" "snd w1 = sv_listen_fd sv # snd w" "snd w2 = snd w1"
    using progress_start_tracked [of "xo_progress Os" "xs_socket_path s"]
      http_start_tracked [of "xo_http Os" "xs_metrics_addr s" w1 None w2] by fastforce+
  with xr_no_address show ?thesis by (simp add: progress_destroy_tracked)
next
  case (xr_served s sv w1 fd w2 p w3)
  then have "0 \<le> sv_listen_fd sv" "snd w1 = sv_listen_fd sv # snd w" "snd w2 = fd # snd w1"
    using progress_start_tracked [of "xo_progress Os" "xs_socket_path s"]
      http_start_tracked [of "xo_http Os" "xs_metrics_addr s" w1 "Some fd" w2] by fastforce+
  moreover have "snd w3 = snd w2"
    using exporter_steps_sockets [OF xr_served(6), of "snd w2"] by (simp add: sockets_ok_def)
  ultimately show ?thesis using xr_served by (simp add: progress_destroy_tracked tracked_close)
qed simp_all

end
