(* ===== verification/Http_Correct.thy ===== *)
theory Http_Correct
  imports Daemon_Threads Exporter_Main Capture_Demo
begin

text \<open>
  The properties of the HTTP server and of what both programs serve with it, for any
  network and any client.
\<close>

subsection \<open>A network to apply the theorems to\<close>

text \<open>A client that asks for the page of metrics and takes whatever it is sent.\<close>

definition demo_request :: string where
  "demo_request = ''GET /metrics HTTP/1.1'' @ crlf @ crlf"

definition demo_client :: "'w net" where
  "demo_client =
     \<lparr>net_stop_requested = (\<lambda>w. (False, w)),
      net_getaddrinfo = (\<lambda>h p w. (Some [\<lparr>ai_family = 2, ai_socktype = 1, ai_protocol = 6, ai_addr = []\<rparr>], w)),
      net_socket = (\<lambda>f t p w. (7, w)), net_reuseaddr = (\<lambda>fd w. w), net_bind = (\<lambda>fd a w. (0, w)),
      net_listen = (\<lambda>fd n w. (0, w)), net_poll = (\<lambda>fd t w. (1, w)), net_accept = (\<lambda>fd w. (9, w)),
      net_recv = (\<lambda>fd n w. Some (Some (take n demo_request), w)),
      net_send = (\<lambda>fd s w. Some (Some (length s), w)),
      net_close = (\<lambda>fd w. w), net_unlink = (\<lambda>p w. w), net_strerror = (\<lambda>w. [])\<rparr>"

lemma demo_client_ok: "net_ok demo_client"
  by (auto simp: net_ok_def demo_client_def)

lemma demo_client_takes: "taking (wired demo_client)"
  by (auto simp: taking_def wired_def demo_client_def)

lemma demo_client_delivers: "delivers (wired demo_client) c [demo_request] w"
  by (simp add: wired_def lift_blocking_def demo_client_def demo_request_def crlf_def)

subsection \<open>Requests and responses\<close>

text \<open>
  The request line does not depend on how the network cuts the request: however the
  bytes arrive, the words of the line are the words of the text before the first line end.
\<close>

theorem request_line_of_any_chunks:
  assumes "delivers N fd chunks w" and "concat chunks = line @ crlf @ rest"
    and "carriage_return \<notin> set line" and "length line + 2 \<le> 8192"
  shows "\<exists>w'. read_request_line N fd w = Some (request_words line, w')"
  by (rule read_request_line_delivers [OF assms])

lemma request_line_of_any_chunks_witness:
  "\<exists>w'. read_request_line (wired demo_client) 9 ((), []) = Some (Some (''GET'', ''/metrics''), w')"
proof -
  have "\<exists>w'. read_request_line (wired demo_client) 9 ((), []) = Some (request_words ''GET /metrics HTTP/1.1'', w')"
    by (rule request_line_of_any_chunks [OF demo_client_delivers])
      (simp_all add: demo_request_def carriage_return_def)
  moreover have "request_words ''GET /metrics HTTP/1.1'' = Some (''GET'', ''/metrics'')" by code_simp
  ultimately show ?thesis by simp
qed

text \<open>
  C14: what goes over the wire is a prefix of the response, in order and with nothing sent
  twice, however little the peer takes at a time; a peer that always takes something gets
  the whole response, and it reads back as the status, the type and the body.
\<close>

theorem response_on_the_wire:
  assumes "net_ok N" and "write_response (wired N) fd resp w = Some w'"
    and "carriage_return \<notin> set (hr_content_type resp)" and "0 \<le> hr_status resp"
  shows "(\<exists>k. snd w' = snd w @ take k (response_text resp)) \<and>
    (taking (wired N) \<longrightarrow> snd w' = snd w @ response_text resp) \<and>
    read_response (response_text resp) = Some (nat (hr_status resp), hr_content_type resp, hr_body resp)"
proof -
  from assms(2) obtain k where k: "send_loop (wired N) fd (response_text resp) 0 w = Some (k, w')"
    by (auto simp: write_response_def bind_iff)
  have wire: "snd w' = snd w @ take k (response_text resp)"
    using send_loop_wire [OF assms(1) _ k] by simp
  have "k = length (response_text resp)" if "taking (wired N)"
    using send_loop_complete [OF that wired_ok [OF assms(1)], of 0 "response_text resp" fd w] k by simp
  with wire have "taking (wired N) \<longrightarrow> snd w' = snd w @ response_text resp" by simp
  with wire read_response_text [OF assms(3,4)] show ?thesis by blast
qed

lemma response_on_the_wire_witness:
  "\<exists>w'. write_response (wired demo_client) 9 not_found ((), []) = Some w' \<and> snd w' = response_text not_found"
proof -
  obtain w' where w': "write_response (wired demo_client) 9 not_found ((), []) = Some w'"
    using send_loop_complete [OF demo_client_takes wired_ok [OF demo_client_ok], of 0 "response_text not_found" 9 "((), [])"]
    by (auto simp: write_response_def)
  from response_on_the_wire [OF demo_client_ok w'] demo_client_takes w' show ?thesis
    by (auto simp: not_found_def carriage_return_def)
qed

subsection \<open>The page over HTTP\<close>


text \<open>The daemon on the scripted device with the client above, before its first step.\<close>

definition demo_page_os :: "fake_device daemon_os" where
  "demo_page_os =
     \<lparr>os_env = fake_env, os_new_device = (\<lambda>path d. d), os_stop = (\<lambda>d. (False, d)),
      os_signal = (\<lambda>d. d), os_stop_server = (\<lambda>d. d), os_sleep = (\<lambda>t d. d),
      os_net = demo_client, os_print = (\<lambda>s d. d), os_warn = (\<lambda>s d. d), os_log_time = (\<lambda>d. (0, d)),
      os_status = (\<lambda>d. None), os_sink = (\<lambda>e d. d)\<rparr>"

definition demo_settings :: daemon_settings where
  "demo_settings =
     \<lparr>ds_device_path = ''/dev/video40'', ds_metrics_addr = ''127.0.0.1:9843'', ds_log_level = LL_Info,
      ds_config = daemon_config_default\<rparr>"


text \<open>
  C16: the exporter serves its page at any moment of its life, whatever its three threads
  have done so far. A client that asks for \<open>/metrics\<close>, in any pieces, and takes what it is
  sent gets, in one turn of the HTTP thread, a response that it reads as status 200 with the
  seven samples of the producer's statistics at that moment; and the page says that a
  producer is attached exactly when one is.
\<close>

theorem exporter_serves_the_page:
  fixes Os :: "'w exporter_os"
  assumes steps: "(exporter_step (watched_exporter (wired (xo_progress Os)) (wired (xo_http Os)) Os) pfd fd)\<^sup>*\<^sup>*
      (Waiting, Listening, True, progress_parser_new producer_stats_new, w1) (x, ph, True, p, w)"
    and running: "net_stop_requested (wired (xo_http Os)) w = (False, w2)"
    and poll: "net_poll (wired (xo_http Os)) fd 200 w2 = (rc, w3)" "0 < rc"
    and conn: "net_accept (wired (xo_http Os)) fd w3 = (c, w4)" "0 \<le> c"
    and req: "delivers (wired (xo_http Os)) c chunks w4" "concat chunks = ''GET /metrics HTTP/1.1'' @ crlf @ rest"
    and peer: "taking (wired (xo_http Os))" "net_ok (xo_http Os)"
  shows "\<exists>w' t.
    exporter_step (watched_exporter (wired (xo_progress Os)) (wired (xo_http Os)) Os) pfd fd
      (x, ph, True, p, w) (x, ph, True, p, w') \<and>
    read_response (drop (length (snd w4)) (snd w')) = Some (200, metrics_content_type, t) \<and>
    scrape t =
      [(''hamstercam_producer_frames_total'', show_u64 (ps_frames_total (pp_stats p))),
       (''hamstercam_producer_fps'', show_f64 (ps_fps (pp_stats p))),
       (''hamstercam_producer_dropped_frames_total'', show_u64 (ps_dropped_frames_total (pp_stats p))),
       (''hamstercam_producer_duplicated_frames_total'', show_u64 (ps_duplicated_frames_total (pp_stats p))),
       (''hamstercam_producer_speed_ratio'', show_f64 (ps_speed_ratio (pp_stats p))),
       (''hamstercam_producer_connected'', if \<exists>conn. ph = Attached conn then ''1'' else ''0''),
       (''hamstercam_producer_last_update_unixtime_seconds'', show_int (ps_last_update_unixtime (pp_stats p)))]"
proof -
  let ?Os = "watched_exporter (wired (xo_progress Os)) (wired (xo_http Os)) Os"
  have "attached_ok (Waiting, Listening, True, progress_parser_new producer_stats_new, w1)"
    by (simp add: attached_ok_def progress_parser_new_def producer_stats_new_def)
  from exporter_steps_attached [OF steps this]
  have attached: "ps_connected (pp_stats p) \<longleftrightarrow> (\<exists>conn. ph = Attached conn)"
    by (cases ph) (simp_all add: attached_ok_def)
  from exporter_http.serves_page [OF poll conn req peer, where st = "pp_stats p"]
  obtain w' where turn: "http_turn (wired (xo_http Os)) (exporter_handler (pp_stats p)) fd w2 = Some w'"
    and r: "read_response (drop (length (snd w4)) (snd w')) =
      Some (200, metrics_content_type, render_exporter_metrics (pp_stats p))"
    by auto
  have "exporter_step ?Os pfd fd (x, ph, True, p, w) (x, ph, True, p, w')"
    using running turn by (intro es_http_turn) simp_all
  with r show ?thesis
    by (intro exI [of _ w'] exI [of _ "render_exporter_metrics (pp_stats p)"] conjI)
      (simp_all add: scrape_exporter exporter_samples_def attached)
qed

text \<open>The exporter with the client above, stopped at once.\<close>

definition demo_exporter :: "unit exporter_os" where
  "demo_exporter =
     \<lparr>xo_progress = demo_client\<lparr>net_stop_requested := (\<lambda>w. (True, w))\<rparr>,
      xo_http = demo_client\<lparr>net_stop_requested := (\<lambda>w. (True, w))\<rparr>,
      xo_stop = (\<lambda>w. (True, w)), xo_signal = (\<lambda>w. w), xo_stop_progress = (\<lambda>w. w), xo_stop_http = (\<lambda>w. w),
      xo_sleep = (\<lambda>t w. w), xo_wall = (\<lambda>w. (0, w)), xo_print = (\<lambda>s w. w), xo_warn = (\<lambda>s w. w), xo_log_time = (\<lambda>w. (0, w))\<rparr>"

lemma exporter_serves_the_page_witness:
  "\<exists>w' t. exporter_step (watched_exporter (wired demo_client) (wired demo_client) demo_exporter) 7 8
     (Waiting, Attached 9, True, set_connected True (progress_parser_new producer_stats_new), ((), []))
     (Waiting, Attached 9, True, set_connected True (progress_parser_new producer_stats_new), w') \<and>
     read_response (snd w') = Some (200, metrics_content_type, t) \<and>
     (''hamstercam_producer_connected'', ''1'') \<in> set (scrape t)"
proof -
  let ?Ox = "demo_exporter\<lparr>xo_progress := demo_client, xo_http := demo_client\<rparr>"
  let ?O = "watched_exporter (wired demo_client) (wired demo_client) demo_exporter"
  let ?p = "progress_parser_new producer_stats_new"
  have o: "xo_progress ?Ox = demo_client" "xo_http ?Ox = demo_client"
    "watched_exporter (wired demo_client) (wired demo_client) ?Ox = ?O"
    by (simp_all add: watched_exporter_def exporter_log_startup_def)
  have calls: "net_stop_requested (wired demo_client) w = (False, w)" "net_poll (wired demo_client) fd t w = (1, w)"
    "net_accept (wired demo_client) fd w = (9, w)" for fd t and w :: "unit \<times> string"
    by (simp_all add: wired_def demo_client_def lift_call_def prod_eq_iff)
  have "exporter_step ?O 7 8 (Waiting, Listening, True, ?p, ((), [])) (Waiting, Attached 9, True, set_connected True ?p, ((), []))"
    by (intro es_progress ps_listen) (simp add: listen_step_def calls)
  then have run: "(exporter_step ?O 7 8)\<^sup>*\<^sup>* (Waiting, Listening, True, ?p, ((), [])) (Waiting, Attached 9, True, set_connected True ?p, ((), []))"
    by (rule r_into_rtranclp)
  have req: "concat [demo_request] = ''GET /metrics HTTP/1.1'' @ crlf @ crlf" by (simp add: demo_request_def)
  note page = exporter_serves_the_page [of ?Ox, unfolded o,
      OF run calls(1) calls(2) zero_less_one calls(3) _ demo_client_delivers req demo_client_takes demo_client_ok]
  obtain w' t where "exporter_step ?O 7 8 (Waiting, Attached 9, True, set_connected True ?p, ((), []))
      (Waiting, Attached 9, True, set_connected True ?p, w')"
    and "read_response (drop 0 (snd w')) = Some (200, metrics_content_type, t)"
    and "(''hamstercam_producer_connected'', if \<exists>conn. Attached 9 = Attached conn then ''1'' else ''0'') \<in> set (scrape t)"
    using page by (fastforce simp del: One_nat_def)
  then show ?thesis by (intro exI [of _ w'] exI [of _ t] conjI) simp_all
qed

text \<open>
  C21: both programs close every socket they open, on every way out: when the help is asked
  for, when an argument is wrong, when an address cannot be bound, and after serving,
  however their threads were interleaved and whatever the clients did.
\<close>

theorem every_socket_is_closed:
  "(exporter_run (tracked_os Os) args env w code w' \<longrightarrow> snd w' = snd w) \<and>
   (daemon_run (watched_os (tracked (os_net Ds)) Ds) build args env v code v' \<longrightarrow> snd v' = snd v)"
  using exporter_run_sockets daemon_run_sockets by blast

lemma demo_exporter_runs: "\<exists>w'. exporter_run (tracked_os demo_exporter) [] Map.empty ((), []) 0 w'"
proof -
  let ?O = "tracked_os demo_exporter"
  obtain s where s: "exporter_start [] Map.empty = XS_run s" "length (xs_socket_path s) < sun_path_size"
    and a: "xs_metrics_addr s = ''127.0.0.1:9844''"
  proof -
    have "(case exporter_start [] Map.empty of
        XS_run s \<Rightarrow> length (xs_socket_path s) < sun_path_size \<and> xs_metrics_addr s = ''127.0.0.1:9844'' | _ \<Rightarrow> False)"
      by code_simp
    then show thesis using that by (auto split: exporter_startup.splits)
  qed
  have sp: "split_host_port ''127.0.0.1:9844'' = Some (''127.0.0.1'', ''9844'')" by code_simp
  have l: "exporter_log_startup ?O s ((), []) = ((), [])"
    by (simp add: exporter_log_startup_def watched_exporter_def demo_exporter_def lift_call_def)
  obtain sv where p: "progress_start (xo_progress ?O) (progress_server_new (xs_socket_path s))
      (exporter_log_startup ?O s ((), [])) = (True, sv, ((), [7]))"
    using s(2) by (simp add: l progress_start_def progress_server_new_def tracked_def demo_exporter_def demo_client_def lift_call_def)
  have h: "http_start (xo_http ?O) (xs_metrics_addr s) ((), [7]) = (Some 7, ((), [7, 7]))"
    by (simp add: a http_start_def sp tracked_def demo_exporter_def demo_client_def lift_call_def)
  let ?step = "exporter_step ?O (sv_listen_fd sv) 7" and ?p = "progress_parser_new producer_stats_new"
  let ?w = "((), [7, 7])"
  have o: "xo_stop ?O w = (True, w)" "xo_stop_progress ?O w = w" "xo_stop_http ?O w = w" for w :: "unit \<times> int list"
    by (simp_all add: watched_exporter_def demo_exporter_def lift_call_def prod_eq_iff)
  have "?step (Waiting, Listening, True, ?p, ?w) (Stopping_progress, Listening, True, ?p, ?w)"
    by (intro es_main) (simp add: exporter_main_step_def o)
  moreover have "?step (Stopping_progress, Listening, True, ?p, ?w) (Stopping_http, Listening, True, ?p, ?w)"
    by (intro es_main) (simp add: exporter_main_step_def o)
  moreover have "?step (Stopping_http, Listening, True, ?p, ?w) (Joining, Listening, True, ?p, ?w)"
    by (intro es_main) (simp add: exporter_main_step_def o)
  moreover have "?step (Joining, Listening, True, ?p, ?w) (Joining, Finished, True, ?p, ?w)"
    by (intro es_progress ps_listen)
      (simp add: listen_step_def tracked_def demo_exporter_def demo_client_def lift_call_def)
  moreover have "?step (Joining, Finished, True, ?p, ?w) (Joining, Finished, False, ?p, ?w)"
    by (intro es_http_stop) (simp add: tracked_def demo_exporter_def demo_client_def lift_call_def)
  ultimately have run: "?step\<^sup>*\<^sup>* (Waiting, Listening, True, ?p, ?w) (Joining, Finished, False, ?p, ?w)"
    by (meson rtranclp.rtrancl_refl rtranclp.rtrancl_into_rtrancl)
  show ?thesis by (rule exI) (rule xr_served [OF s(1) p h run])
qed

lemma every_socket_is_closed_witness:
  "\<exists>w'. exporter_run (tracked_os demo_exporter) [] Map.empty ((), []) 0 w' \<and> snd w' = []"
proof -
  obtain w' where w': "exporter_run (tracked_os demo_exporter) [] Map.empty ((), []) 0 w'"
    using demo_exporter_runs by blast
  have "snd w' = []" using every_socket_is_closed w' by fastforce
  with w' show ?thesis by blast
qed

end
