(* ===== verification/Report_Correct.thy ===== *)
theory Report_Correct
  imports Daemon_Log Http_Correct
begin

text \<open>
  The properties of what the daemon reports: the page of metrics as a scraper reads it, and
  the log as a reader of its lines sees it.
\<close>

subsection \<open>The page\<close>



text \<open>
  The page of the exporter: a scraper reads back from it the seven samples of the
  producer's statistics, whatever they are.
\<close>

theorem exporter_page_reads_back:
  "scrape (render_exporter_metrics st) =
     [(''hamstercam_producer_frames_total'', show_u64 (ps_frames_total st)),
      (''hamstercam_producer_fps'', show_f64 (ps_fps st)),
      (''hamstercam_producer_dropped_frames_total'', show_u64 (ps_dropped_frames_total st)),
      (''hamstercam_producer_duplicated_frames_total'', show_u64 (ps_duplicated_frames_total st)),
      (''hamstercam_producer_speed_ratio'', show_f64 (ps_speed_ratio st)),
      (''hamstercam_producer_connected'', if ps_connected st then ''1'' else ''0''),
      (''hamstercam_producer_last_update_unixtime_seconds'', show_int (ps_last_update_unixtime st))]"
  using scrape_exporter [of st] by (simp only: exporter_samples_def)

lemma six_digits_coarse: "six_digits 1000000 = six_digits 1000004"
proof -
  have "ilog 10 1000000 = 6" "ilog 10 1000004 = 6" by (rule ilog_unique; simp)+
  moreover have "rne 100000 = 100000" "rne (500002 / 5) = 100000" by code_simp+
  ultimately show ?thesis by (simp add: six_digits_def pow_rat_def)
qed

text \<open>
  How accurate a number on either page is. The text of a positive number denotes the
  number rounded to six significant digits, within five millionths of it, and no better: the
  uptimes 1000000 and 1000004 read the same.
\<close>

theorem printed_numbers:
  assumes "0 < x"
  shows "(\<exists>v. decimal_exact (show_magnitude x) = Some (v, []) \<and> \<bar>v - x\<bar> \<le> x / 200000) \<and>
    show_magnitude 1000000 = show_magnitude 1000004"
proof -
  have "show_magnitude 1000000 = show_magnitude 1000004"
    using six_digits_coarse by (simp add: show_magnitude_def)
  with show_magnitude_value [OF assms] six_digits_close [OF assms] show ?thesis by blast
qed

lemma printed_numbers_witness:
  "\<exists>v. decimal_exact (show_magnitude (667 / 10)) = Some (v, []) \<and> \<bar>v - 667 / 10\<bar> \<le> 667 / 10 / 200000"
  using printed_numbers [of "667 / 10"] by simp

subsection \<open>The log\<close>

text \<open>
  Every event becomes at most one line of the log, and a reader of the line gets back
  its time, its level, its name and its fields, whatever the bytes of the pixel format are,
  line breaks excepted. A line is left out exactly when its level is below the configured
  one.
\<close>

theorem log_line_reads_back:
  assumes "newline \<notin> set (pixel_format_string (ev_format e))"
    and "newline \<notin> set (pixel_format_string (ev_previous_format e))"
  shows "read_log (sink_emit min_level now e) =
    (if event_level e < min_level then [] else [Some (event_members now e)])"
  by (rule read_log_emit) (simp add: one_line_event_def assms)

lemma log_line_reads_back_witness:
  "read_log (sink_emit LL_Info 0 ((mk_event EV_StreamingStarted)\<lparr>ev_format := yuyv\<rparr>)) =
     [Some (event_members 0 ((mk_event EV_StreamingStarted)\<lparr>ev_format := yuyv\<rparr>))]"
proof -
  have "newline \<notin> set (pixel_format_string yuyv)" "newline \<notin> set (pixel_format_string stream_format_default)"
    by code_simp+
  then show ?thesis
    using log_line_reads_back [of "(mk_event EV_StreamingStarted)\<lparr>ev_format := yuyv\<rparr>" LL_Info 0]
    by (simp add: event_level_def less_log_level_def)
qed

text \<open>The members of the lines of the program itself.\<close>

lemma startup_line_members:
  "startup_line build s now = line_end
    (if LL_Info < ds_log_level s then None
     else open_line (log_members now LL_Info ''startup'' @
       [(''version'', J_string (bi_version build)), (''git_sha'', J_string (bi_git_sha build)),
        (''device'', J_string (ds_device_path s)), (''metrics_addr'', J_string (ds_metrics_addr s))]))"
proof -
  have "plain_key ''startup''" by (simp add: plain_key_def char_defs)
  from log_line_members [OF this] show ?thesis by (simp add: startup_line_def field_string_line)
qed

lemma shutdown_line_members:
  "shutdown_line s now =
    line_end (if LL_Info < ds_log_level s then None else open_line (log_members now LL_Info ''shutdown''))"
proof -
  have "plain_key ''shutdown''" by (simp add: plain_key_def char_defs)
  from log_line_members [OF this] show ?thesis by (simp add: shutdown_line_def)
qed

lemma log_members_facts:
  assumes "newline \<notin> set event"
  shows "\<forall>m \<in> set (log_members now l event). plain_key (fst m) \<and> newline \<notin> set (member_text m)"
proof -
  have "newline \<notin> set (level_string l)" by (cases l) (simp_all add: newline_def)
  with assms rfc3339_plain(2) [of now] show ?thesis
    unfolding member_text_newline by (auto simp: log_members_def plain_key_def char_defs)
qed

lemma read_startup_line:
  assumes "newline \<notin> set (bi_version build @ bi_git_sha build @ ds_device_path s @ ds_metrics_addr s)"
  shows "read_log (startup_line build s now @ t) =
    (if LL_Info < ds_log_level s then []
     else [Some (log_members now LL_Info ''startup'' @
       [(''version'', J_string (bi_version build)), (''git_sha'', J_string (bi_git_sha build)),
        (''device'', J_string (ds_device_path s)), (''metrics_addr'', J_string (ds_metrics_addr s))])]) @ read_log t"
proof -
  let ?ms = "log_members now LL_Info ''startup'' @
    [(''version'', J_string (bi_version build)), (''git_sha'', J_string (bi_git_sha build)),
     (''device'', J_string (ds_device_path s)), (''metrics_addr'', J_string (ds_metrics_addr s))]"
  have "newline \<notin> set ''startup''" by (simp add: newline_def)
  note facts = log_members_facts [OF this, of now LL_Info]
  have "\<forall>m \<in> set ?ms. newline \<notin> set (member_text m)"
    using facts assms unfolding set_append ball_Un member_text_newline by (auto simp: newline_def)
  moreover have "\<forall>m \<in> set ?ms. plain_key (fst m)" using facts by (auto simp: plain_key_def char_defs)
  ultimately show ?thesis
    using read_log_line [of ?ms t] by (simp add: startup_line_members object_text_newline)
qed

lemma read_shutdown_line:
  "read_log (shutdown_line s now) =
    (if LL_Info < ds_log_level s then [] else [Some (log_members now LL_Info ''shutdown'')])"
proof -
  have "newline \<notin> set ''shutdown''" by (simp add: newline_def)
  from log_members_facts [OF this, of now LL_Info] show ?thesis
    using read_log_line [of "log_members now LL_Info ''shutdown''" "[]"]
    by (simp add: shutdown_line_members object_text_newline read_log_def)
qed




text \<open>The daemon on the scripted device, with a client that is silent and a signal that is there at once.\<close>

definition demo_short_os :: "fake_device daemon_os" where
  "demo_short_os =
     demo_page_os\<lparr>os_stop := (\<lambda>d. (True, d)), os_net := demo_client\<lparr>net_stop_requested := (\<lambda>w. (True, w))\<rparr>\<rparr>"

lemma demo_short_run:
  "\<exists>w out. daemon_run (printed_os demo_short_os) \<lparr>bi_version = ''1.0'', bi_git_sha = ''abc''\<rparr> [] Map.empty (fake_new, []) 0 (w, out)"
proof -
  let ?O = "printed_os demo_short_os" and ?b = "\<lparr>bi_version = ''1.0'', bi_git_sha = ''abc''\<rparr>"
  let ?s = demo_settings
  have s: "daemon_startup [] Map.empty = Inr ?s" by (simp add: daemon_defaults demo_settings_def)
  have a: "ds_metrics_addr ?s = ''127.0.0.1:9843''" by (simp add: demo_settings_def)
  have sp: "split_host_port ''127.0.0.1:9843'' = Some (''127.0.0.1'', ''9843'')" by code_simp
  have os: "os_env demo_short_os = fake_env" "os_stop (printed_os demo_short_os) w = (True, w)"
    "os_stop_server (printed_os demo_short_os) w = w" for w
    by (simp_all add: demo_short_os_def demo_page_os_def printed_os_def watched_os_def lift_call_def)
  have net: "net_stop_requested (beside_net (os_net demo_short_os)) w = (True, w)" for w :: "fake_device \<times> string"
    by (simp add: demo_short_os_def demo_page_os_def beside_net_def lift_call_def)
  have "fst (http_start (beside_net (os_net demo_short_os)) ''127.0.0.1:9843'' w) = Some 7" for w :: "fake_device \<times> string"
    by (simp add: http_start_def sp demo_short_os_def demo_page_os_def beside_net_def demo_client_def lift_call_def)
  then have "fst (snd (snd (daemon_begin ?O ?b ?s (fake_new, [])))) = Some 7"
    by (simp add: daemon_begin_def a Let_def case_prod_beta)
  then obtain m start w1 where b: "daemon_begin ?O ?b ?s (fake_new, []) = (m, start, Some 7, w1)"
    by (metis prod.collapse)
  let ?E = "lifted_env fake_env" and ?step = "daemon_step (json_sink ?O (ds_log_level ?s)) ?b start 7"
  have dev: "\<exists>v. dev_stop_streaming ?E u = Some v" "\<exists>v. dev_close ?E u = Some v" for u :: "fake_device \<times> string"
    by (simp_all add: lifted_env_def fake_defs)
  obtain w2 where w2: "dev_stop_streaming ?E w1 = Some w2" using dev(1) by blast
  obtain w3 where w3: "dev_close ?E w2 = Some w3" using dev(2) by blast
  have "?step (Looping, True, m, w1) (Stopping, True, m, w1)"
    by (rule ds_main) (simp add: main_step_def loop_step_def os)
  moreover have "?step (Stopping, True, m, w1) (Closing, True, m, w2)"
    by (rule ds_main) (simp add: main_step_def os w2)
  moreover have "?step (Closing, True, m, w2) (Notifying, True, m, w3)"
    by (rule ds_main) (simp add: main_step_def os w3)
  moreover have "?step (Notifying, True, m, w3) (Stopped, True, m, w3)"
    by (rule ds_main) (simp add: main_step_def os)
  moreover have "?step (Stopped, True, m, w3) (Stopped, False, m, w3)"
    by (rule ds_http_stop) (simp add: net)
  ultimately have run: "?step\<^sup>*\<^sup>* (Looping, True, m, w1) (Stopped, False, m, w3)"
    by (meson rtranclp.rtrancl_refl rtranclp.rtrancl_into_rtrancl)
  obtain w4 where "destroy_device ?E (http_destroy (os_net ?O) (Some 7) (log_shutdown ?O ?s w3)) = Some w4"
    using dev by (simp add: destroy_device_def) (metis bind.bind_lunit)
  with dm_served [OF s b run] have "daemon_run ?O ?b [] Map.empty (fake_new, []) 0 w4" by (simp add: os)
  then show ?thesis by (cases w4) blast
qed


text \<open>The reason of an event is never set.\<close>

lemma csm_trans_reason:
  assumes "csm_trans E pt (m, w) (wait, m', w')" and "\<forall>e \<in> set (m_events m). ev_reason e = ER_Count"
  shows "\<forall>e \<in> set (m_events m'). ev_reason e = ER_Count"
  using assms
  by (cases rule: csm_trans.cases)
    (auto elim!: enter_configuringE handle_frameE check_arrival_rateE begin_release_cycleE lose_deviceE)

lemma csm_reach_reason: "csm_reach E cfg m \<Longrightarrow> \<forall>e \<in> set (m_events m). ev_reason e = ER_Count"
proof (induction rule: csm_reach.induct)
  case (reach_new w m w')
  then show ?case by (simp add: csm_new_fields)
next
  case (reach_step m pt w wait m' w')
  show ?case by (rule csm_trans_reason [OF csm_step_trans [OF reach_step.hyps(2)] reach_step.IH])
qed

text \<open>
  The log never says why a device was lost: every \<open>device_lost\<close> line of a machine in
  service gives the reason \<open>unknown\<close>, although the machine counts the loss under a reason
  of its own.
\<close>

theorem lost_device_reason_unknown:
  assumes "csm_reach E cfg m" and "e \<in> set (m_events m)" and "ev_type e = EV_DeviceLost"
  shows "event_members now e =
    [(''ts'', J_string (rfc3339 now)), (''level'', J_string ''warn''), (''event'', J_string ''device_lost''),
     (''reason'', J_string ''unknown'')]"
  using csm_reach_reason [OF assms(1)] assms(2,3)
  by (simp add: event_members_def log_members_def event_level_def)

lemma lost_device_reason_unknown_witness:
  "\<exists>e \<in> set (m_events (fst (demo [plug, tick, good_frame, unplug]))). ev_type e = EV_DeviceLost \<and>
     (''reason'', J_string ''unknown'') \<in> set (event_members 0 e)"
proof -
  have "reaches [plug, tick, good_frame, unplug] (\<lambda>m d. EV_DeviceLost \<in> ev_type ` set (m_events m))"
    by code_simp
  then have run: "scenario [plug, tick, good_frame, unplug] demo_start \<noteq> None"
    and "EV_DeviceLost \<in> ev_type ` set (m_events (fst (demo [plug, tick, good_frame, unplug])))"
    by (blast dest: reachesD)+
  then obtain e where e: "e \<in> set (m_events (fst (demo [plug, tick, good_frame, unplug])))"
    "ev_type e = EV_DeviceLost"
    by force
  show ?thesis
    using lost_device_reason_unknown [OF demo_run [OF run, THEN device_run_reach] e] e by auto
qed

end
