(* ===== verification/Producer_Correct.thy ===== *)
theory Producer_Correct
  imports Exporter_Main
begin

text \<open>
  The properties of the producer's side: the unix socket, the parser of the progress text,
  and the statistics the page of the exporter shows.
\<close>

subsection \<open>The text of the producer\<close>



text \<open>
  C35: the buffer of the parser never holds more than 65536 bytes and never a complete line.
  The price: a chunk that takes it over the limit is dropped together with everything
  buffered, complete lines included, and no statistic changes.
\<close>

theorem buffer_is_bounded:
  "length (pp_buffer (fst (feed wall chunk (p, w)))) \<le> 65536 \<and>
   newline \<notin> set (pp_buffer (fst (feed wall chunk (p, w)))) \<and>
   (if 65536 < length (pp_buffer p) + length chunk then feed wall chunk (p, w) = (p\<lparr>pp_buffer := []\<rparr>, w)
    else pp_buffer (fst (feed wall chunk (p, w))) = snd (split_lines (pp_buffer p @ chunk)))"
  using feed_buffer [of wall chunk "(p, w)"] feed_overflow [of p chunk wall w] feed_within [of p chunk wall w]
  by (auto simp: kMaxBufferedLine_def split: prod.splits)

text \<open>
  What the lines of the protocol do. The three counters take the value of their line,
  modulo 64 bits; a value that is not available leaves the statistics alone; the end of a
  block stamps the time; a line with an unknown key does nothing.
\<close>

theorem progress_lines:
  "parse_line wall (''frame='' @ show_nat n) (st, w) = (st\<lparr>ps_frames_total := of_nat n\<rparr>, w) \<and>
   parse_line wall (''drop_frames='' @ show_nat n) (st, w) = (st\<lparr>ps_dropped_frames_total := of_nat n\<rparr>, w) \<and>
   parse_line wall (''dup_frames='' @ show_nat n) (st, w) = (st\<lparr>ps_duplicated_frames_total := of_nat n\<rparr>, w) \<and>
   parse_line wall ''fps=N/A'' (st, w) = (st, w) \<and>
   parse_line wall ''speed=N/A'' (st, w) = (st, w) \<and>
   parse_line wall ''progress=continue'' (st, w) =
     (st\<lparr>ps_last_update_unixtime := s_of_ns (fst (wall w))\<rparr>, snd (wall w)) \<and>
   parse_line wall ''out_time=00:00:01'' (st, w) = (st, w)"
proof -
  have l: "show_nat n = [] \<or> last (show_nat n) \<noteq> carriage_return"
  proof -
    have "is_digit (last (show_nat n))" by (rule show_nat_digits [of _ n]) simp
    then show ?thesis by (auto simp: is_digit_def carriage_return_def)
  qed
  have c: "parse_line wall (k @ CHR ''='' # show_nat n) s = apply_pair wall k (show_nat n) s"
    if "CHR ''='' \<notin> set k" for k s
    using that l by (rule parse_line_pair)
  have v: "parse_line wall (k @ CHR ''='' # val) s = apply_pair wall k val s"
    if "CHR ''='' \<notin> set k" "last val \<noteq> carriage_return" for k val s
    using that by (intro parse_line_pair) simp_all
  show ?thesis
    using c [of "''frame''" "(st, w)"] c [of "''drop_frames''" "(st, w)"] c [of "''dup_frames''" "(st, w)"]
      v [of "''fps''" "''N/A''" "(st, w)"] v [of "''speed''" "''N/A''" "(st, w)"]
      v [of "''progress''" "''continue''" "(st, w)"] v [of "''out_time''" "''00:00:01''" "(st, w)"]
    by (simp add: apply_pair_def strip_suffix_def carriage_return_def Let_def split: prod.split)
qed

subsection \<open>The socket\<close>

text \<open>
  The loops of \<open>ProgressSocketServer::run\<close> are exactly the sequences of small steps
  that another thread may interleave with: the server returns with a parser and a world if
  and only if the steps lead there from listening.
\<close>

theorem run_is_its_steps:
  "progress_run N wall fd p w = Some (p', w') \<longleftrightarrow>
     (progress_step N wall fd)\<^sup>*\<^sup>* (Listening, p, w) (Finished, p', w')"
  using progress_run_steps [of N wall fd p w p' w']
    progress_steps_rest [of N wall fd "(Listening, p, w)" "(Finished, p', w')"]
  by (auto simp: progress_rest_def)

text \<open>
  Between any two steps of the two threads, the page of the exporter says that a
  producer is attached exactly when one is.
\<close>

theorem connected_gauge_is_true:
  assumes "(exporter_step Os pfd hfd)\<^sup>*\<^sup>* (Waiting, Listening, True, progress_parser_new producer_stats_new, w) (x, ph, h, p, w')"
  shows "(''hamstercam_producer_connected'', ''1'') \<in> set (scrape (render_exporter_metrics (pp_stats p))) \<longleftrightarrow>
    (\<exists>conn. ph = Attached conn)"
proof -
  have "attached_ok (Waiting, Listening, True, progress_parser_new producer_stats_new, w)"
    by (simp add: attached_ok_def progress_parser_new_def producer_stats_new_def)
  from exporter_steps_attached [OF assms this]
  have "ps_connected (pp_stats p) \<longleftrightarrow> (\<exists>conn. ph = Attached conn)"
    by (cases ph) (simp_all add: attached_ok_def)
  then show ?thesis by (auto simp: scrape_exporter exporter_samples_def)
qed

text \<open>
  A producer that connects and reports a frame number at every turn, until the stop flag is
  set; the world counts the looks at the flag.
\<close>

definition demo_producer :: "nat net" where
  "demo_producer =
     \<lparr>net_stop_requested = (\<lambda>k. (3 \<le> k, k + 1)), net_getaddrinfo = (\<lambda>h p w. (None, w)),
      net_socket = (\<lambda>f t p w. (7, w)), net_reuseaddr = (\<lambda>fd w. w), net_bind = (\<lambda>fd a w. (0, w)),
      net_listen = (\<lambda>fd n w. (0, w)), net_poll = (\<lambda>fd t w. (1, w)), net_accept = (\<lambda>fd w. (9, w)),
      net_recv = (\<lambda>fd n w. Some (Some (take n (''frame=5'' @ [newline])), w)),
      net_send = (\<lambda>fd s w. Some (None, w)),
      net_close = (\<lambda>fd w. w), net_unlink = (\<lambda>p w. w), net_strerror = (\<lambda>w. [])\<rparr>"

definition demo_producer_os :: "nat exporter_os" where
  "demo_producer_os =
     \<lparr>xo_progress = demo_producer, xo_http = demo_producer,
      xo_stop = (\<lambda>k. (3 \<le> k, k)), xo_signal = (\<lambda>w. w), xo_stop_progress = (\<lambda>w. w), xo_stop_http = (\<lambda>w. w),
      xo_sleep = (\<lambda>t w. w), xo_wall = (\<lambda>w. (0, w)),
      xo_print = (\<lambda>s w. w), xo_warn = (\<lambda>s w. w), xo_log_time = (\<lambda>w. (0, w))\<rparr>"

lemma connected_gauge_is_true_witness:
  "(''hamstercam_producer_connected'', ''1'') \<in>
     set (scrape (render_exporter_metrics (pp_stats (set_connected True (progress_parser_new producer_stats_new)))))"
proof -
  have "exporter_step demo_producer_os 7 8 (Waiting, Listening, True, progress_parser_new producer_stats_new, 0)
      (Waiting, Attached 9, True, set_connected True (progress_parser_new producer_stats_new), 1)"
    by (intro es_progress ps_listen) (simp add: listen_step_def demo_producer_os_def demo_producer_def)
  note one = r_into_rtranclp [where r = "exporter_step demo_producer_os 7 8", OF this]
  show ?thesis using connected_gauge_is_true [OF one] by simp
qed

text \<open>
  C23: everything received is parsed, in order and once, over all the connections of a run:
  when the server returns, the parser is (up to the time of the last update) the one that
  was fed exactly the chunks received, none empty and none larger than the receive buffer;
  and no producer is left attached.
\<close>

theorem everything_received_is_parsed:
  assumes "progress_run (heard N) wall fd p w = Some (p', w')" and "net_ok N" and "quiet_clock wall"
    and "\<not> ps_connected (pp_stats p)"
  shows "\<exists>cs. snd w' = snd w @ cs \<and> (\<forall>c \<in> set cs. c \<noteq> [] \<and> length c \<le> 4096) \<and>
    same_progress p' (after_chunks cs p) \<and> \<not> ps_connected (pp_stats p')"
  using progress_run_saw [OF assms(1-3)] assms(4) unfolding saw_def by blast

lemma demo_producer_ok: "net_ok demo_producer"
  by (auto simp: net_ok_def demo_producer_def)

lemma demo_producer_conn:
  "\<exists>p' w'. conn_loop (heard demo_producer) (\<lambda>w. (0, w)) 9 p (1, l) = Some (p', (4, w'))"
proof -
  let ?N = "heard demo_producer" and ?wall = "\<lambda>w :: nat \<times> string list. (0, w)"
  let ?c = "''frame=5'' @ [newline]"
  have calls: "net_stop_requested ?N (k, l) = (3 \<le> k, (k + 1, l))" "net_poll ?N c t w = (1, w)"
    "net_recv ?N c 4096 (k, l) = Some (Some ?c, (k, l @ [?c]))" for k l c t w
    by (simp_all add: heard_def demo_producer_def lift_call_def)
  have feeds: "\<exists>q. feed ?wall ?c (p, (k, l)) = (q, (k, l))" for p k l
  proof -
    have w: "snd (parse_line ?wall ls (st, v)) = v" for ls st v
      by (auto simp: parse_line_def apply_pair_def Let_def split: option.split)
    have "snd (parse_lines ?wall ls (st, v)) = v" for ls st v
    proof (induction ls arbitrary: st v)
      case (Cons a ls)
      obtain st1 v1 where 1: "parse_line ?wall a (st, v) = (st1, v1)" by (meson prod.exhaust)
      with w [of a st v] Cons [of st1 v1] show ?case by (simp add: parse_lines_def)
    qed (simp add: parse_lines_def)
    then show ?thesis
      by (cases "length (pp_buffer p @ ?c) \<le> kMaxBufferedLine")
        (simp_all add: feed_within feed_overflow Let_def case_prod_beta prod_eq_iff del: length_append append_Cons append.simps)
  qed
  have three: "conn_loop ?N ?wall 9 p (3, l) = Some (p, (4, l))" for p l
    by (subst conn_loop.simps) (simp add: calls)
  have loop: "\<exists>q l'. conn_loop ?N ?wall 9 p (k, l) = conn_loop ?N ?wall 9 q (k', l')"
    if "k < 3" "k' = k + 1" for k k' p l
  proof -
    obtain q where "feed ?wall ?c (p, (k + 1, l @ [?c])) = (q, (k + 1, l @ [?c]))" using feeds by blast
    with that calls show ?thesis
      by (subst conn_loop.simps) (auto simp del: append.simps)
  qed
  have "1 < (3 :: nat)" "2 < (3 :: nat)" "2 = (1 + 1 :: nat)" "3 = (2 + 1 :: nat)" by simp_all
  note loops = loop [OF this(1,3)] loop [OF this(2,4)]
  obtain q l' where "conn_loop ?N ?wall 9 p (1, l) = conn_loop ?N ?wall 9 q (2, l')" using loops(1) by blast
  moreover obtain q2 l2 where "conn_loop ?N ?wall 9 q (2, l') = conn_loop ?N ?wall 9 q2 (3, l2)" using loops(2) by blast
  ultimately show ?thesis using three by simp
qed

lemma everything_received_is_parsed_witness:
  "\<exists>p' w'. progress_run (heard demo_producer) (\<lambda>w. (0, w)) 7 (progress_parser_new producer_stats_new) (0, []) = Some (p', w') \<and>
     same_progress p' (after_chunks (snd w') (progress_parser_new producer_stats_new))"
proof -
  let ?N = "heard demo_producer" and ?wall = "\<lambda>w :: nat \<times> string list. (0 :: ns, w)"
  let ?p = "progress_parser_new producer_stats_new"
  have calls: "net_stop_requested ?N (k, l) = (3 \<le> k, (k + 1, l))" "net_poll ?N c t w = (1, w)"
    "net_accept ?N c w = (9, w)" "net_close ?N c w = w" for k l c t w
    by (simp_all add: heard_def demo_producer_def lift_call_def)
  obtain q l where "conn_loop ?N ?wall 9 (set_connected True ?p) (1, []) = Some (q, (4, l))"
    using demo_producer_conn by blast
  then have "progress_turn ?N ?wall 7 ?p (1, []) = Some (set_connected False q, (4, l))"
    by (simp add: progress_turn_def calls)
  then have r: "progress_run ?N ?wall 7 ?p (0, []) = Some (set_connected False q, (5, l))"
    by (subst progress_run.simps, simp add: calls, subst progress_run.simps, simp add: calls)
  have q: "quiet_clock ?wall" by (simp add: quiet_clock_def)
  from everything_received_is_parsed [OF r demo_producer_ok q] r show ?thesis
    by (auto simp: progress_parser_new_def producer_stats_new_def)
qed

end
