(* ===== verification/Startup_Correct.thy ===== *)
theory Startup_Correct
  imports Device_Correct Exporter_Main
begin

text \<open>
  The properties of what comes from the command line: the flags of both programs, the
  numbers and durations they take, and what they mean for the waits of the daemon.
\<close>

text \<open>
  Both programs read their flags alike: whether a value is joined to its flag by an
  equals sign or follows as the next argument, the flags are read in order and the last
  setting of each is the one that counts.
\<close>

theorem flags_in_any_spelling:
  "((\<forall>f \<in> set fs. fst f \<in> set daemon_flags) \<longrightarrow>
      daemon_parse_flags (concat (map spell fs)) = Inr (map_of (rev (map (\<lambda>(n, v, j). (n, v)) fs)))) \<and>
   ((\<forall>f \<in> set fs. fst f \<in> set exporter_flags) \<longrightarrow>
      exporter_parse_flags (concat (map spell fs)) = Inr (map_of (rev (map (\<lambda>(n, v, j). (n, v)) fs))))"
  using daemon_table.flag_loop_spelled [of fs Map.empty] exporter_table.flag_loop_spelled [of fs Map.empty]
  by (simp add: daemon_parse_flags_def exporter_parse_flags_def)

lemma flags_in_any_spelling_witness:
  "daemon_parse_flags [''--device=/dev/video0'', ''--log-level'', ''warn'', ''--device'', ''/dev/video7''] =
     Inr [''--log-level'' \<mapsto> ''warn'', ''--device'' \<mapsto> ''/dev/video7'']"
proof -
  let ?fs = "[(''--device'', ''/dev/video0'', True), (''--log-level'', ''warn'', False), (''--device'', ''/dev/video7'', False)]"
  have "\<forall>f \<in> set ?fs. fst f \<in> set daemon_flags" by (simp add: daemon_flags_def)
  with flags_in_any_spelling [of ?fs] show ?thesis by (simp add: spell_def)
qed





end
