(* ===== verification/Turns.thy ===== *)
theory Turns
  imports Prelude
begin

text \<open>
  Threads that take turns in the order a schedule gives, and the contract of a thread that
  has been asked to stop: it does so after a bounded number of its own turns.
\<close>

primrec run_turns :: "('t \<Rightarrow> 'c \<Rightarrow> 'c option) \<Rightarrow> 't list \<Rightarrow> 'c \<Rightarrow> 'c option" where
  "run_turns turn [] c = Some c"
| "run_turns turn (t # ts) c = do { c \<leftarrow> turn t c; run_turns turn ts c }"

lemma run_turns_append:
  "run_turns turn (ts @ us) c = do { c \<leftarrow> run_turns turn ts c; run_turns turn us c }"
  by (induction ts arbitrary: c) (auto split: Option.bind_splits)

lemma run_turns_keep:
  assumes "\<And>t c c'. t \<in> set ts \<Longrightarrow> turn t c = Some c' \<Longrightarrow> P c \<Longrightarrow> P c'"
    and "run_turns turn ts c = Some c'" and "P c"
  shows "P c'"
  using assms by (induction ts arbitrary: c) (auto simp: bind_iff)

text \<open>Turns are the steps of a relation when each of them is one of its steps or none.\<close>

lemma run_turns_steps:
  assumes "\<And>t c c'. turn t c = Some c' \<Longrightarrow> c' = c \<or> R c c'"
  shows "run_turns turn ts c = Some c' \<Longrightarrow> R\<^sup>*\<^sup>* c c'"
proof (induction ts arbitrary: c)
  case (Cons t ts)
  then obtain c1 where "turn t c = Some c1" "R\<^sup>*\<^sup>* c1 c'" by (auto simp: bind_iff)
  then show ?case using assms by (metis converse_rtranclp_into_rtranclp)
qed simp

lemma steps_run_turns:
  assumes "\<And>c c'. R c c' \<Longrightarrow> \<exists>t. turn t c = Some c'"
  shows "R\<^sup>*\<^sup>* c c' \<Longrightarrow> \<exists>ts. run_turns turn ts c = Some c'"
proof (induction rule: converse_rtranclp_induct)
  case base
  show ?case by (rule exI [of _ "[]"]) simp
next
  case (step c c1)
  from assms step(1) obtain t where "turn t c = Some c1" by blast
  moreover from step.IH obtain ts where "run_turns turn ts c1 = Some c'" by blast
  ultimately show ?case by (intro exI [of _ "t # ts"]) simp
qed

text \<open>
  A thread that has been asked to stop: the request stays, every turn of its own brings it
  nearer to its end, and no turn of another thread takes it further away.
\<close>

locale stopping_thread =
  fixes turn :: "'t \<Rightarrow> 'c \<Rightarrow> 'c option"
    and thread :: 't
    and asked :: "'c \<Rightarrow> bool"
    and rank :: "'c \<Rightarrow> nat"
  assumes asked_stays: "turn t c = Some c' \<Longrightarrow> asked c \<Longrightarrow> asked c'"
    and own_turn: "turn thread c = Some c' \<Longrightarrow> asked c \<Longrightarrow> rank c' \<le> rank c - 1"
    and other_turn: "turn t c = Some c' \<Longrightarrow> asked c \<Longrightarrow> t \<noteq> thread \<Longrightarrow> rank c' \<le> rank c"
begin

lemma stays_asked: "run_turns turn ts c = Some c' \<Longrightarrow> asked c \<Longrightarrow> asked c'"
  by (rule run_turns_keep [where P = asked]) (auto intro: asked_stays)

lemma rank_falls:
  "run_turns turn ts c = Some c' \<Longrightarrow> asked c \<Longrightarrow> rank c' \<le> rank c - count_list ts thread"
proof (induction ts arbitrary: c)
  case (Cons t ts)
  then obtain c1 where c1: "turn t c = Some c1" "run_turns turn ts c1 = Some c'"
    by (auto simp: bind_iff)
  with Cons asked_stays have "rank c' \<le> rank c1 - count_list ts thread" by blast
  moreover have "rank c1 \<le> rank c - (if t = thread then 1 else 0)"
    using own_turn other_turn c1(1) Cons.prems(2) by (cases "t = thread") auto
  ultimately show ?case by auto
qed simp

lemma stops: "run_turns turn ts c = Some c' \<Longrightarrow> asked c \<Longrightarrow> rank c \<le> count_list ts thread \<Longrightarrow> rank c' = 0"
  using rank_falls by fastforce

end

end
