(* ===== verification/Shutdown.thy ===== *)
theory Shutdown
  imports Daemon_Threads Exporter_Main Capture_Progress Turns
begin

text \<open>
  How the threads of both programs stop each other. The world gets the stop flags
  beside it, the only thing that signals and \<^verbatim>\<open>stop()\<close> change, and the threads take turns in
  any order a schedule gives. Each thread of the daemon that has been asked to stop does so
  after a bounded number of its own turns.
\<close>

subsection \<open>A world with flags\<close>

text \<open>The sockets over a world with flags beside it, one of which is the server's.\<close>

definition flagged :: "(stop_flags \<Rightarrow> bool) \<Rightarrow> 'w net \<Rightarrow> ('w \<times> stop_flags) net" where
  "flagged flag N = (beside_net N)\<lparr>net_stop_requested := (\<lambda>w. (flag (snd w), w))\<rparr>"

lemma flagged_stop [simp]: "net_stop_requested (flagged flag N) w = (flag (snd w), w)"
  by (simp add: flagged_def)

interpretation beside_flags: net_frame "flagged flag N" "\<lambda>w w'. snd w' = snd w"
  for flag and N :: "'w net"
  by unfold_locales (auto simp: flagged_def beside_net_def lift_call_def lift_blocking_def split: prod.splits)

definition flagged_daemon :: "'w daemon_os \<Rightarrow> ('w \<times> stop_flags) daemon_os" where
  "flagged_daemon Os =
     (watched_os (flagged sf_http (os_net Os)) Os)
       \<lparr>os_stop := (\<lambda>w. (sf_requested (snd w), w)),
        os_signal := (\<lambda>w. (fst w, handle_signal (snd w))),
        os_stop_server := (\<lambda>w. (fst w, http_server_stop (snd w)))\<rparr>"

lemma flagged_daemon_simps [simp]:
  "os_env (flagged_daemon Os) = lifted_env (os_env Os)"
  "os_net (flagged_daemon Os) = flagged sf_http (os_net Os)"
  "os_status (flagged_daemon Os) = (\<lambda>w. os_status Os (fst w))"
  "os_stop (flagged_daemon Os) w = (sf_requested (snd w), w)"
  "os_signal (flagged_daemon Os) w = (fst w, handle_signal (snd w))"
  "os_stop_server (flagged_daemon Os) w = (fst w, http_server_stop (snd w))"
  "snd (os_sleep (flagged_daemon Os) t w) = snd w"
  by (simp_all add: flagged_daemon_def watched_os_def)

definition flagged_exporter :: "'w exporter_os \<Rightarrow> ('w \<times> stop_flags) exporter_os" where
  "flagged_exporter Os =
     (watched_exporter (flagged sf_progress (xo_progress Os)) (flagged sf_http (xo_http Os)) Os)
       \<lparr>xo_stop := (\<lambda>w. (sf_requested (snd w), w)),
        xo_signal := (\<lambda>w. (fst w, exporter_handle_signal (snd w))),
        xo_stop_progress := (\<lambda>w. (fst w, progress_server_stop (snd w))),
        xo_stop_http := (\<lambda>w. (fst w, http_server_stop (snd w)))\<rparr>"

lemma flagged_exporter_simps [simp]:
  "xo_progress (flagged_exporter Os) = flagged sf_progress (xo_progress Os)"
  "xo_http (flagged_exporter Os) = flagged sf_http (xo_http Os)"
  "xo_stop (flagged_exporter Os) w = (sf_requested (snd w), w)"
  "xo_signal (flagged_exporter Os) w = (fst w, handle_signal (snd w))"
  "xo_stop_progress (flagged_exporter Os) w = (fst w, progress_server_stop (snd w))"
  "xo_stop_http (flagged_exporter Os) w = (fst w, http_server_stop (snd w))"
  "snd (xo_sleep (flagged_exporter Os) t w) = snd w"
  "xo_wall (flagged_exporter Os) = lift_call (xo_wall Os)"
  by (simp_all add: flagged_exporter_def watched_exporter_def)

lemma handle_signal_simps [simp]:
  "sf_requested (handle_signal f)"
  "sf_http (handle_signal f) = sf_http f"
  "sf_progress (handle_signal f) = sf_progress f"
  by (simp_all add: handle_signal_def)

lemma server_stop_simps [simp]:
  "sf_requested (http_server_stop f) = sf_requested f"
  "sf_http (http_server_stop f)"
  "sf_progress (http_server_stop f) = sf_progress f"
  "sf_requested (progress_server_stop f) = sf_requested f"
  "sf_http (progress_server_stop f) = sf_http f"
  "sf_progress (progress_server_stop f)"
  by (simp_all add: http_server_stop_def progress_server_stop_def)

lemma deliver_cases:
  assumes "deliver f installed sig w = Some w'"
  obtains "sig = SIGTERM \<or> sig = SIGINT" "w' = f w" | "w' = w" "sig = SIGPIPE"
  using assms by (auto simp: deliver_installed_iff)

subsection \<open>The daemon in turns\<close>

datatype daemon_actor = Main_thread | Http_thread | Signal int

text \<open>A turn of a thread that has ended changes nothing.\<close>

definition daemon_turn ::
  "'w daemon_os \<Rightarrow> build_info \<Rightarrow> ns \<Rightarrow> int \<Rightarrow> daemon_actor \<Rightarrow> 'w daemon_state \<Rightarrow> 'w daemon_state option" where
  "daemon_turn Os build start_time listen_fd t c =
     (case c of (ph, h, m, w) \<Rightarrow>
        case t of
          Main_thread \<Rightarrow>
            if ph = Stopped then Some c
            else do { (ph, m, w) \<leftarrow> main_step Os ph m w; Some (ph, h, m, w) }
        | Http_thread \<Rightarrow>
            if h
            then let (stop, w) = net_stop_requested (os_net Os) w
                 in if stop then Some (ph, False, m, w)
                    else do {
                      w \<leftarrow> http_turn (os_net Os)
                        (daemon_handler (\<lambda>_. m_stats m) build start_time (clk_steady_now (os_env Os)) (os_status Os))
                        listen_fd w;
                      Some (ph, True, m, w)
                    }
            else Some c
        | Signal sig \<Rightarrow> do { w \<leftarrow> deliver (os_signal Os) installed sig w; Some (ph, h, m, w) })"

lemma daemon_turn_step:
  "daemon_turn Os build start fd t c = Some c' \<Longrightarrow> c' = c \<or> daemon_step Os build start fd c c'"
  by (cases c; cases t)
    (auto simp: daemon_turn_def bind_iff split: if_splits prod.splits
      intro: ds_main ds_http_stop ds_http_turn ds_signal)

lemma daemon_step_turn:
  "daemon_step Os build start fd c c' \<Longrightarrow> \<exists>t. daemon_turn Os build start fd t c = Some c'"
proof (induction rule: daemon_step.induct)
  case (ds_main ph m w ph' m' w' h)
  then have "ph \<noteq> Stopped" by (auto simp: main_step_def)
  with ds_main show ?case by (intro exI [of _ Main_thread]) (simp add: daemon_turn_def)
next
  case (ds_http_stop w w' ph m)
  then show ?case by (intro exI [of _ Http_thread]) (simp add: daemon_turn_def)
next
  case (ds_http_turn w w1 m w' ph)
  then show ?case by (intro exI [of _ Http_thread]) (simp add: daemon_turn_def)
next
  case (ds_signal sig w w' ph h m)
  then show ?case by (intro exI [of _ "Signal sig"]) (simp add: daemon_turn_def)
qed

lemma daemon_turns_steps:
  "run_turns (daemon_turn Os build start fd) ts c = Some c' \<Longrightarrow> (daemon_step Os build start fd)\<^sup>*\<^sup>* c c'"
  by (erule run_turns_steps [rotated]) (rule daemon_turn_step)

lemma daemon_steps_turns:
  "(daemon_step Os build start fd)\<^sup>*\<^sup>* c c' \<Longrightarrow> \<exists>ts. run_turns (daemon_turn Os build start fd) ts c = Some c'"
  by (erule steps_run_turns [rotated]) (rule daemon_step_turn)

text \<open>How many turns the main thread still takes when it has been asked to stop.\<close>

fun main_rank :: "daemon_phase \<Rightarrow> nat" where
  "main_rank (Sleeping remaining) = 5"
| "main_rank Looping = 4"
| "main_rank Stopping = 3"
| "main_rank Closing = 2"
| "main_rank Notifying = 1"
| "main_rank Stopped = 0"

lemma main_rank_0 [simp]: "main_rank ph = 0 \<longleftrightarrow> ph = Stopped"
  and main_rank_le: "main_rank ph \<le> 5"
  by (cases ph; simp)+

lemma flagged_sink [simp]: "snd (emit_new (os_sink (flagged_daemon Os)) m m' w) = snd w"
  by (rule emit_new_rel [where R = "\<lambda>w w'. snd w' = snd w"]) (simp_all add: flagged_daemon_def watched_os_def)

lemma flagged_main_step:
  assumes "main_step (flagged_daemon Os) ph m w = Some (ph', m', w')"
  shows "snd w' = (if ph = Notifying then http_server_stop (snd w) else snd w)"
    and "sf_requested (snd w) \<Longrightarrow> Suc (main_rank ph') = main_rank ph \<and> m' = m"
    and "4 \<le> main_rank ph \<Longrightarrow> \<not> sf_requested (snd w) \<Longrightarrow> 4 \<le> main_rank ph'"
    and "ph' = Stopped \<longleftrightarrow> ph = Notifying"
proof -
  have "snd w' = (if ph = Notifying then http_server_stop (snd w) else snd w) \<and>
      (sf_requested (snd w) \<longrightarrow> Suc (main_rank ph') = main_rank ph \<and> m' = m) \<and>
      (4 \<le> main_rank ph \<longrightarrow> \<not> sf_requested (snd w) \<longrightarrow> 4 \<le> main_rank ph') \<and>
      (ph' = Stopped \<longleftrightarrow> ph = Notifying)"
  proof (cases ph)
    case Looping
    show ?thesis
    proof (cases "sf_requested (snd w)")
      case True
      with assms Looping show ?thesis by (auto simp: main_step_def loop_step_def)
    next
      case False
      with assms Looping obtain wait w2 where "csm_step (lifted_env (os_env Os)) 200 m w = Some (wait, m', w2)"
        "ph' = Sleeping wait" "w' = emit_new (os_sink (flagged_daemon Os)) m m' w2"
        by (auto simp: main_step_def loop_step_def bind_iff)
      with False Looping lifted_step_keeps [OF this(1)] show ?thesis by simp
    qed
  next
    case (Sleeping t)
    with assms show ?thesis
      by (auto simp: main_step_def sleep_step_def Let_def split: if_splits)
  qed (use assms in \<open>auto simp: main_step_def bind_iff dest!: lifted_calls_keep\<close>)
  then show "snd w' = (if ph = Notifying then http_server_stop (snd w) else snd w)"
    and "sf_requested (snd w) \<Longrightarrow> Suc (main_rank ph') = main_rank ph \<and> m' = m"
    and "4 \<le> main_rank ph \<Longrightarrow> \<not> sf_requested (snd w) \<Longrightarrow> 4 \<le> main_rank ph'"
    and "ph' = Stopped \<longleftrightarrow> ph = Notifying" by blast+
qed

lemma flagged_http_turn:
  assumes "http_turn (flagged sf_http N) (daemon_handler st build start (lift_call f) status) fd w = Some w'"
  shows "snd w' = snd w"
proof (rule beside_flags.http_turn_R [OF assms])
  fix verb target v r v'
  assume "daemon_handler st build start (lift_call f) status verb target v = Some (r, v')"
  then show "snd v' = snd v"
    by (rule daemon_handler_R [where R = "\<lambda>w w'. snd w' = snd w"])
      (auto simp: lift_call_def split: prod.splits)
qed

lemma flagged_main_turn:
  assumes "daemon_turn (flagged_daemon Os) build start fd Main_thread (ph, h, m, w) = Some (ph', h', m', w')"
  shows "h' = h"
    and "snd w' = (if ph = Notifying then http_server_stop (snd w) else snd w)"
    and "sf_requested (snd w) \<Longrightarrow> main_rank ph' = main_rank ph - 1 \<and> m' = m"
    and "4 \<le> main_rank ph \<Longrightarrow> \<not> sf_requested (snd w) \<Longrightarrow> 4 \<le> main_rank ph'"
    and "ph' = Stopped \<longleftrightarrow> ph = Notifying \<or> ph = Stopped"
proof -
  consider "ph = Stopped" "ph' = ph" "h' = h" "m' = m" "w' = w"
    | "ph \<noteq> Stopped" "h' = h" "main_step (flagged_daemon Os) ph m w = Some (ph', m', w')"
    using assms by (auto simp: daemon_turn_def bind_iff split: if_splits)
  note cases = this
  show "h' = h" by (rule cases) simp_all
  show "snd w' = (if ph = Notifying then http_server_stop (snd w) else snd w)"
    by (rule cases) (simp_all add: flagged_main_step(1))
  show "main_rank ph' = main_rank ph - 1 \<and> m' = m" if "sf_requested (snd w)"
    by (rule cases) (use that flagged_main_step(2) in \<open>fastforce+\<close>)
  show "4 \<le> main_rank ph'" if "4 \<le> main_rank ph" "\<not> sf_requested (snd w)"
    by (rule cases) (use that flagged_main_step(3) in \<open>simp_all\<close>)
  show "ph' = Stopped \<longleftrightarrow> ph = Notifying \<or> ph = Stopped"
    by (rule cases) (simp_all add: flagged_main_step(4))
qed

lemma flagged_other_turns:
  assumes "daemon_turn (flagged_daemon Os) build start fd t (ph, h, m, w) = Some (ph', h', m', w')"
  shows "t = Http_thread \<Longrightarrow> ph' = ph \<and> m' = m \<and> snd w' = snd w \<and> h' = (h \<and> \<not> sf_http (snd w))"
    and "t = Signal sig \<Longrightarrow> ph' = ph \<and> h' = h \<and> m' = m \<and>
      (snd w' = handle_signal (snd w) \<and> (sig = SIGTERM \<or> sig = SIGINT) \<or> w' = w \<and> sig = SIGPIPE)"
  using assms
  by (auto simp: daemon_turn_def bind_iff deliver_installed_iff split: if_splits
      dest!: flagged_http_turn)

text \<open>One turn of any thread, seen from the flags.\<close>

lemma flagged_turn_cases [consumes 1, case_names main http request pipe]:
  assumes "daemon_turn (flagged_daemon Os) build start fd t (ph, h, m, w) = Some (ph', h', m', w')"
  obtains "t = Main_thread" "daemon_turn (flagged_daemon Os) build start fd Main_thread (ph, h, m, w) = Some (ph', h', m', w')"
    | "t = Http_thread" "ph' = ph" "m' = m" "snd w' = snd w" "h' = (h \<and> \<not> sf_http (snd w))"
    | "t = Signal SIGTERM \<or> t = Signal SIGINT" "ph' = ph" "h' = h" "m' = m" "snd w' = handle_signal (snd w)"
    | "t = Signal SIGPIPE" "ph' = ph" "h' = h" "m' = m" "w' = w"
  using assms flagged_other_turns [OF assms] by (cases t) auto

lemma daemon_turn_flags:
  assumes "daemon_turn (flagged_daemon Os) build start fd t (ph, h, m, w) = Some (ph', h', m', w')"
  shows "sf_requested (snd w) \<Longrightarrow> sf_requested (snd w') \<and> m' = m"
    and "sf_http (snd w) \<Longrightarrow> sf_http (snd w')"
    and "h' \<Longrightarrow> h"
proof -
  have "(sf_requested (snd w) \<longrightarrow> sf_requested (snd w') \<and> m' = m) \<and>
      (sf_http (snd w) \<longrightarrow> sf_http (snd w')) \<and> (h' \<longrightarrow> h)"
    using assms
  proof (cases rule: flagged_turn_cases)
    case main
    from flagged_main_turn(1-3) [OF main(2)] show ?thesis by simp
  qed simp_all
  then show "sf_requested (snd w) \<Longrightarrow> sf_requested (snd w') \<and> m' = m"
    and "sf_http (snd w) \<Longrightarrow> sf_http (snd w')" and "h' \<Longrightarrow> h" by simp_all
qed

interpretation daemon_main: stopping_thread "daemon_turn (flagged_daemon Os) build start fd" Main_thread
  "\<lambda>(ph, h, m, w). sf_requested (snd w)" "\<lambda>(ph, h, m, w). main_rank ph"
  for Os :: "'w daemon_os" and build start fd
proof
  fix t and c c' :: "('w \<times> stop_flags) daemon_state"
  obtain ph h m w where c: "c = (ph, h, m, w)" by (cases c) auto
  obtain ph' h' m' w' where c': "c' = (ph', h', m', w')" by (cases c') auto
  assume t: "daemon_turn (flagged_daemon Os) build start fd t c = Some c'"
    and asked: "case c of (ph, h, m, w) \<Rightarrow> sf_requested (snd w)"
  from daemon_turn_flags(1) [OF t [unfolded c c']] asked
  show "case c' of (ph, h, m, w) \<Rightarrow> sf_requested (snd w)" by (simp add: c c')
  show "(case c' of (ph, h, m, w) \<Rightarrow> main_rank ph) \<le> (case c of (ph, h, m, w) \<Rightarrow> main_rank ph)"
    if "t \<noteq> Main_thread"
    using t [unfolded c c'] that by (cases rule: flagged_turn_cases) (simp_all add: c c')
next
  fix c c' :: "('w \<times> stop_flags) daemon_state"
  obtain ph h m w where c: "c = (ph, h, m, w)" by (cases c) auto
  obtain ph' h' m' w' where c': "c' = (ph', h', m', w')" by (cases c') auto
  assume t: "daemon_turn (flagged_daemon Os) build start fd Main_thread c = Some c'"
    and asked: "case c of (ph, h, m, w) \<Rightarrow> sf_requested (snd w)"
  show "(case c' of (ph, h, m, w) \<Rightarrow> main_rank ph) \<le> (case c of (ph, h, m, w) \<Rightarrow> main_rank ph) - 1"
    using flagged_main_turn(3) [OF t [unfolded c c']] asked by (simp add: c c')
qed

interpretation daemon_http: stopping_thread "daemon_turn (flagged_daemon Os) build start fd" Http_thread
  "\<lambda>(ph, h, m, w). sf_http (snd w)" "\<lambda>(ph, h, m, w). of_bool h"
  for Os :: "'w daemon_os" and build start fd
proof
  fix t and c c' :: "('w \<times> stop_flags) daemon_state"
  obtain ph h m w where c: "c = (ph, h, m, w)" by (cases c) auto
  obtain ph' h' m' w' where c': "c' = (ph', h', m', w')" by (cases c') auto
  assume t: "daemon_turn (flagged_daemon Os) build start fd t c = Some c'"
    and asked: "case c of (ph, h, m, w) \<Rightarrow> sf_http (snd w)"
  from daemon_turn_flags(2) [OF t [unfolded c c']] asked
  show "case c' of (ph, h, m, w) \<Rightarrow> sf_http (snd w)" by (simp add: c c')
  show "(case c' of (ph, h, m, w) \<Rightarrow> (of_bool h :: nat)) \<le> (case c of (ph, h, m, w) \<Rightarrow> of_bool h)"
    using daemon_turn_flags(3) [OF t [unfolded c c']] by (simp add: c c')
next
  fix c c' :: "('w \<times> stop_flags) daemon_state"
  obtain ph h m w where c: "c = (ph, h, m, w)" by (cases c) auto
  obtain ph' h' m' w' where c': "c' = (ph', h', m', w')" by (cases c') auto
  assume t: "daemon_turn (flagged_daemon Os) build start fd Http_thread c = Some c'"
    and asked: "case c of (ph, h, m, w) \<Rightarrow> sf_http (snd w)"
  show "(case c' of (ph, h, m, w) \<Rightarrow> (of_bool h :: nat)) \<le> (case c of (ph, h, m, w) \<Rightarrow> of_bool h) - 1"
    using flagged_other_turns(1) [OF t [unfolded c c'] refl] asked by (simp add: c c')
qed

text \<open>
  What holds between any two turns: the flags say where the main thread is, and the HTTP
  thread has only ended when the main thread has told it to.
\<close>

definition shutdown_ok :: "('w \<times> stop_flags) daemon_state \<Rightarrow> bool" where
  "shutdown_ok c = (case c of (ph, h, m, w) \<Rightarrow>
     (sf_http (snd w) \<longleftrightarrow> ph = Stopped) \<and> (h \<or> ph = Stopped) \<and>
     (4 \<le> main_rank ph \<or> sf_requested (snd w)))"

lemma daemon_turn_shutdown_ok:
  assumes t: "daemon_turn (flagged_daemon Os) build start fd t c = Some c'" and ok: "shutdown_ok c"
  shows "shutdown_ok c'"
proof -
  obtain ph h m w where c: "c = (ph, h, m, w)" by (cases c) auto
  obtain ph' h' m' w' where c': "c' = (ph', h', m', w')" by (cases c') auto
  from t [unfolded c c'] show ?thesis
  proof (cases rule: flagged_turn_cases)
    case main
    note M = flagged_main_turn [OF main(2)]
    have "4 \<le> main_rank ph' \<or> sf_requested (snd w')"
      using ok M(2,4) by (auto simp: shutdown_ok_def c)
    with ok M(1,2,5) show ?thesis by (auto simp: shutdown_ok_def c c' split: if_splits)
  qed (use ok in \<open>auto simp: shutdown_ok_def c c'\<close>)
qed

lemma daemon_turns_shutdown_ok:
  "run_turns (daemon_turn (flagged_daemon Os) build start fd) ts c = Some c' \<Longrightarrow> shutdown_ok c \<Longrightarrow> shutdown_ok c'"
  by (rule run_turns_keep [where P = shutdown_ok]) (auto intro: daemon_turn_shutdown_ok)

lemma shutdown_ok_start: "shutdown_ok (Looping, True, m, (w, stop_flags_new))"
  by (simp add: shutdown_ok_def stop_flags_new_def)

lemma no_request_without_signal:
  assumes "run_turns (daemon_turn (flagged_daemon Os) build start fd) ts (ph, h, m, w) = Some (ph', h', m', w')"
    and "Signal SIGTERM \<notin> set ts" and "Signal SIGINT \<notin> set ts" and "\<not> sf_requested (snd w)"
  shows "\<not> sf_requested (snd w')"
proof -
  have "(\<lambda>(ph, h, m, w). \<not> sf_requested (snd w)) (ph', h', m', w')"
  proof (rule run_turns_keep [OF _ assms(1)])
    fix t and c c' :: "('a \<times> stop_flags) daemon_state"
    obtain ph h m w where c: "c = (ph, h, m, w)" by (cases c) auto
    obtain ph' h' m' w' where c': "c' = (ph', h', m', w')" by (cases c') auto
    assume "t \<in> set ts" "daemon_turn (flagged_daemon Os) build start fd t c = Some c'"
      and n: "case c of (ph, h, m, w) \<Rightarrow> \<not> sf_requested (snd w)"
    then have t: "daemon_turn (flagged_daemon Os) build start fd t (ph, h, m, w) = Some (ph', h', m', w')"
      by (simp add: c c')
    then show "case c' of (ph, h, m, w) \<Rightarrow> \<not> sf_requested (snd w)"
    proof (cases rule: flagged_turn_cases)
      case main
      from flagged_main_turn(2) [OF main(2)] n show ?thesis by (simp add: c c')
    qed (use n assms(2,3) \<open>t \<in> set ts\<close> in \<open>auto simp: c c'\<close>)
  qed (use assms(4) in simp)
  then show ?thesis by simp
qed

lemma keep_count_None: "keep_count op w = None \<longleftrightarrow> op (fst w) = None"
  by (simp add: keep_count_def split: option.split prod.split)

lemma responsive_lifted: "responsive E \<Longrightarrow> responsive (lifted_env E)"
  by (simp add: responsive_def lifted_env_def keep_count_None del: not_None_eq split_paired_All)

text \<open>After a request the machine stays as it is.\<close>

lemma requested_keeps_machine:
  assumes "run_turns (daemon_turn (flagged_daemon Os) build start fd) ts (ph, h, m, w) = Some (ph', h', m', w')"
    and "sf_requested (snd w)"
  shows "m' = m \<and> sf_requested (snd w')"
proof -
  have "(\<lambda>(ph, h, k, w). k = m \<and> sf_requested (snd w)) (ph', h', m', w')"
    by (rule run_turns_keep [OF _ assms(1)]) (use assms(2) in \<open>auto dest: daemon_turn_flags(1)\<close>)
  then show ?thesis by simp
qed

end
