(* ===== verification/Exporter_Shutdown.thy ===== *)
theory Exporter_Shutdown
  imports Shutdown
begin

text \<open>
  The end of the exporter: its main thread and its two servers in turns, each an instance
  of the contract of a thread that has been asked to stop.
\<close>

subsection \<open>The exporter in turns\<close>

datatype exporter_actor = X_main | X_progress | X_http | X_signal int

definition progress_next ::
  "'w net \<Rightarrow> ('w \<Rightarrow> ns \<times> 'w) \<Rightarrow> int \<Rightarrow> 'w progress_state \<Rightarrow> 'w progress_state option" where
  "progress_next N wall listen_fd c =
     (case c of (ph, p, w) \<Rightarrow>
        case ph of
          Listening \<Rightarrow> listen_step N listen_fd p w
        | Attached conn \<Rightarrow> receive_step N wall conn p w
        | Finished \<Rightarrow> Some c)"

lemma progress_next_iff:
  "ph \<noteq> Finished \<Longrightarrow> progress_next N wall fd (ph, p, w) = Some c \<longleftrightarrow> progress_step N wall fd (ph, p, w) c"
  by (cases ph) (auto simp: progress_next_def intro: ps_listen ps_receive elim: progress_stepE)

definition exporter_turn ::
  "'w exporter_os \<Rightarrow> int \<Rightarrow> int \<Rightarrow> exporter_actor \<Rightarrow> 'w exporter_state \<Rightarrow> 'w exporter_state option" where
  "exporter_turn Os progress_fd http_fd t c =
     (case c of (x, ph, h, p, w) \<Rightarrow>
        case t of
          X_main \<Rightarrow> let (x, w) = exporter_main_step Os x w in Some (x, ph, h, p, w)
        | X_progress \<Rightarrow> do {
            (ph, p, w) \<leftarrow> progress_next (xo_progress Os) (xo_wall Os) progress_fd (ph, p, w);
            Some (x, ph, h, p, w)
          }
        | X_http \<Rightarrow>
            if h
            then let (stop, w) = net_stop_requested (xo_http Os) w
                 in if stop then Some (x, ph, False, p, w)
                    else do {
                      w \<leftarrow> http_turn (xo_http Os) (exporter_handler (pp_stats p)) http_fd w;
                      Some (x, ph, True, p, w)
                    }
            else Some c
        | X_signal sig \<Rightarrow> do {
            w \<leftarrow> deliver (xo_signal Os) (exporter_install_signal_handlers (\<lambda>_. Sig_default)) sig w;
            Some (x, ph, h, p, w)
          })"

lemma exporter_turn_step:
  assumes "exporter_turn Os pfd hfd t c = Some c'"
  shows "c' = c \<or> exporter_step Os pfd hfd c c'"
proof -
  obtain x ph h p w where c: "c = (x, ph, h, p, w)" by (cases c) auto
  show ?thesis
  proof (cases t)
    case X_main
    with assms show ?thesis by (auto simp: exporter_turn_def c intro: es_main split: prod.splits)
  next
    case X_progress
    with assms obtain ph' p' w' where "progress_next (xo_progress Os) (xo_wall Os) pfd (ph, p, w) = Some (ph', p', w')"
      "c' = (x, ph', h, p', w')" by (auto simp: exporter_turn_def c bind_iff)
    then show ?thesis
      by (cases "ph = Finished") (simp add: progress_next_def c, simp add: c progress_next_iff es_progress)
  next
    case X_http
    with assms show ?thesis
      by (auto simp: exporter_turn_def c bind_iff intro: es_http_stop es_http_turn split: if_splits prod.splits)
  next
    case (X_signal sig)
    with assms show ?thesis by (auto simp: exporter_turn_def c bind_iff intro: es_signal)
  qed
qed

lemma exporter_step_turn:
  "exporter_step Os pfd hfd c c' \<Longrightarrow> \<exists>t. exporter_turn Os pfd hfd t c = Some c'"
proof (induction rule: exporter_step.induct)
  case (es_main x w x' w' ph h p)
  then show ?case by (intro exI [of _ X_main]) (simp add: exporter_turn_def)
next
  case (es_progress ph p w ph' p' w' x h)
  then have "ph \<noteq> Finished" by (auto elim: progress_step.cases)
  with es_progress have "progress_next (xo_progress Os) (xo_wall Os) pfd (ph, p, w) = Some (ph', p', w')"
    by (simp add: progress_next_iff)
  then show ?case by (intro exI [of _ X_progress]) (simp add: exporter_turn_def)
next
  case (es_http_stop w w' x ph p)
  then show ?case by (intro exI [of _ X_http]) (simp add: exporter_turn_def)
next
  case (es_http_turn w w1 p w' x ph)
  then show ?case by (intro exI [of _ X_http]) (simp add: exporter_turn_def)
next
  case (es_signal sig w w' x ph h p)
  then show ?case by (intro exI [of _ "X_signal sig"]) (simp add: exporter_turn_def)
qed

lemma exporter_turns_steps:
  "run_turns (exporter_turn Os pfd hfd) ts c = Some c' \<Longrightarrow> (exporter_step Os pfd hfd)\<^sup>*\<^sup>* c c'"
  by (erule run_turns_steps [rotated]) (rule exporter_turn_step)

lemma exporter_steps_turns:
  "(exporter_step Os pfd hfd)\<^sup>*\<^sup>* c c' \<Longrightarrow> \<exists>ts. run_turns (exporter_turn Os pfd hfd) ts c = Some c'"
  by (erule steps_run_turns [rotated]) (rule exporter_step_turn)

subsection \<open>One turn, seen from the flags\<close>

fun exporter_rank :: "exporter_phase \<Rightarrow> nat" where
  "exporter_rank Waiting = 3"
| "exporter_rank Stopping_progress = 2"
| "exporter_rank Stopping_http = 1"
| "exporter_rank Joining = 0"

fun progress_rank :: "progress_phase \<Rightarrow> nat" where
  "progress_rank (Attached conn) = 2"
| "progress_rank Listening = 1"
| "progress_rank Finished = 0"

lemma exporter_rank_0 [simp]: "exporter_rank x = 0 \<longleftrightarrow> x = Joining"
  and exporter_rank_le: "exporter_rank x \<le> 3"
  by (cases x; simp)+

lemma progress_rank_0 [simp]: "progress_rank ph = 0 \<longleftrightarrow> ph = Finished"
  and progress_rank_le: "progress_rank ph \<le> 2"
  by (cases ph; simp)+

lemma flagged_exporter_main:
  assumes "exporter_main_step (flagged_exporter Os) x w = (x', w')"
  shows "snd w' = (case x of Stopping_progress \<Rightarrow> progress_server_stop (snd w)
                   | Stopping_http \<Rightarrow> http_server_stop (snd w) | _ \<Rightarrow> snd w)"
    and "x' = (case x of Waiting \<Rightarrow> if sf_requested (snd w) then Stopping_progress else Waiting
               | Stopping_progress \<Rightarrow> Stopping_http | _ \<Rightarrow> Joining)"
  using assms by (cases x; auto simp: exporter_main_step_def split: if_splits)+

lemma flagged_progress_next:
  assumes "progress_next (flagged sf_progress N) wall fd (ph, p, w) = Some (ph', p', w')" and q: "quiet_clock wall"
  shows "snd w' = snd w"
    and "sf_progress (snd w) \<Longrightarrow> progress_rank ph' = progress_rank ph - 1"
    and "\<not> sf_progress (snd w) \<Longrightarrow> ph \<noteq> Finished \<Longrightarrow> ph' \<noteq> Finished"
proof -
  let ?N = "flagged sf_progress N"
  have "snd w' = snd w \<and> (sf_progress (snd w) \<longrightarrow> progress_rank ph' = progress_rank ph - 1) \<and>
      (\<not> sf_progress (snd w) \<longrightarrow> ph \<noteq> Finished \<longrightarrow> ph' \<noteq> Finished)"
  proof (cases ph)
    case Listening
    obtain rc w2 where po: "net_poll ?N fd 200 w = (rc, w2)" by (meson prod.exhaust)
    obtain conn w3 where a: "net_accept ?N fd w2 = (conn, w3)" by (meson prod.exhaust)
    from assms(1) Listening po a beside_flags.poll_R [OF po] beside_flags.accept_R [OF a] show ?thesis
      by (auto simp: progress_next_def listen_step_def split: if_splits)
  next
    case (Attached conn)
    obtain rc w2 where po: "net_poll ?N conn 200 w = (rc, w2)" by (meson prod.exhaust)
    show ?thesis
    proof (cases "sf_progress (snd w) \<or> rc \<le> 0")
      case True
      with assms(1) Attached po beside_flags.poll_R [OF po] show ?thesis
        by (auto simp: progress_next_def receive_step_def hang_up_def beside_flags.close_R split: if_splits)
    next
      case False
      with assms(1) Attached po obtain r w3 where rv: "net_recv ?N conn 4096 w2 = Some (r, w3)"
        by (auto simp: progress_next_def receive_step_def bind_iff)
      obtain p4 w4 where f: "feed wall (the r) (p, w3) = (p4, w4)" by (meson prod.exhaust)
      from feed_quiet [OF q, of "the r" p w3] f have "snd w4 = snd w3" by simp
      with assms(1) Attached po rv f False beside_flags.poll_R [OF po] beside_flags.recv_R [OF rv] show ?thesis
        by (auto simp: progress_next_def receive_step_def hang_up_def beside_flags.close_R split: if_splits)
    qed
  qed (use assms(1) in \<open>simp_all add: progress_next_def\<close>)
  then show "snd w' = snd w"
    and "sf_progress (snd w) \<Longrightarrow> progress_rank ph' = progress_rank ph - 1"
    and "\<not> sf_progress (snd w) \<Longrightarrow> ph \<noteq> Finished \<Longrightarrow> ph' \<noteq> Finished" by simp_all
qed

lemma flagged_exporter_http:
  assumes "http_turn (flagged sf_http N) (exporter_handler st) fd w = Some w'"
  shows "snd w' = snd w"
  by (rule beside_flags.http_turn_R [OF assms]) (auto simp: exporter_handler_def split: if_splits)

text \<open>One turn of any thread, and what it does to the flags.\<close>

lemma flagged_exporter_cases [consumes 1, case_names main progress http request pipe]:
  assumes "exporter_turn (flagged_exporter Os) pfd hfd t (x, ph, h, p, w) = Some (x', ph', h', p', w')"
  obtains "t = X_main" "ph' = ph" "h' = h"
      "snd w' = (case x of Stopping_progress \<Rightarrow> progress_server_stop (snd w)
        | Stopping_http \<Rightarrow> http_server_stop (snd w) | _ \<Rightarrow> snd w)"
      "x' = (case x of Waiting \<Rightarrow> if sf_requested (snd w) then Stopping_progress else Waiting
        | Stopping_progress \<Rightarrow> Stopping_http | _ \<Rightarrow> Joining)"
    | "t = X_progress" "x' = x" "h' = h" "snd w' = snd w"
      "sf_progress (snd w) \<Longrightarrow> progress_rank ph' = progress_rank ph - 1"
      "\<not> sf_progress (snd w) \<Longrightarrow> ph \<noteq> Finished \<Longrightarrow> ph' \<noteq> Finished"
    | "t = X_http" "x' = x" "ph' = ph" "snd w' = snd w" "h' = (h \<and> \<not> sf_http (snd w))"
    | "t = X_signal SIGTERM \<or> t = X_signal SIGINT" "x' = x" "ph' = ph" "h' = h" "snd w' = handle_signal (snd w)"
    | "t = X_signal SIGPIPE" "x' = x" "ph' = ph" "h' = h" "w' = w"
proof (cases t)
  case X_main
  with assms have "exporter_main_step (flagged_exporter Os) x w = (x', w')" "ph' = ph" "h' = h"
    by (auto simp: exporter_turn_def split: prod.splits)
  with X_main flagged_exporter_main [OF this(1)] show thesis by (intro that(1)) simp_all
next
  case X_progress
  with assms have "progress_next (flagged sf_progress (xo_progress Os)) (lift_call (xo_wall Os)) pfd (ph, p, w) = Some (ph', p', w')"
    "x' = x" "h' = h" by (auto simp: exporter_turn_def bind_iff)
  moreover have "quiet_clock (lift_call (xo_wall Os) :: 'a \<times> stop_flags \<Rightarrow> _)"
    by (simp add: quiet_clock_def lift_call_def split: prod.splits)
  ultimately show thesis using X_progress flagged_progress_next [of "xo_progress Os"] by (intro that(2)) blast+
next
  case X_http
  with assms show thesis
    by (intro that(3)) (auto simp: exporter_turn_def bind_iff split: if_splits dest: flagged_exporter_http)
next
  case (X_signal sig)
  with assms have "deliver (xo_signal (flagged_exporter Os)) installed sig w = Some w'" "x' = x" "ph' = ph" "h' = h"
    by (auto simp: exporter_turn_def bind_iff)
  with X_signal that(4,5) show thesis by (auto simp: deliver_installed_iff)
qed

lemma exporter_turn_flags:
  assumes "exporter_turn (flagged_exporter Os) pfd hfd t (x, ph, h, p, w) = Some (x', ph', h', p', w')"
  shows "sf_requested (snd w) \<Longrightarrow> sf_requested (snd w')"
    and "sf_progress (snd w) \<Longrightarrow> sf_progress (snd w')"
    and "sf_http (snd w) \<Longrightarrow> sf_http (snd w')"
proof -
  have "(sf_requested (snd w) \<longrightarrow> sf_requested (snd w')) \<and>
      (sf_progress (snd w) \<longrightarrow> sf_progress (snd w')) \<and> (sf_http (snd w) \<longrightarrow> sf_http (snd w'))"
    using assms
  proof (cases rule: flagged_exporter_cases)
    case main
    then show ?thesis by (cases x) simp_all
  qed simp_all
  then show "sf_requested (snd w) \<Longrightarrow> sf_requested (snd w')"
    and "sf_progress (snd w) \<Longrightarrow> sf_progress (snd w')"
    and "sf_http (snd w) \<Longrightarrow> sf_http (snd w')" by simp_all
qed

subsection \<open>Every thread stops when it is asked to\<close>

text \<open>The contract, over the fields of the state.\<close>

lemma exporter_thread:
  assumes "\<And>t x ph h p w x' ph' h' p' w'.
      exporter_turn (flagged_exporter Os) pfd hfd t (x, ph, h, p, w) = Some (x', ph', h', p', w') \<Longrightarrow>
      flag (snd w) \<Longrightarrow>
      flag (snd w') \<and> rank x' ph' h' \<le> (if t = thread then rank x ph h - 1 else rank x ph h)"
  shows "stopping_thread (exporter_turn (flagged_exporter Os) pfd hfd) thread
    (\<lambda>(x, ph, h, p, w). flag (snd w)) (\<lambda>(x, ph, h, p, w). rank x ph h)"
proof
  fix t and c c' :: "('a \<times> stop_flags) exporter_state"
  obtain x ph h p w where c: "c = (x, ph, h, p, w)" by (cases c) auto
  obtain x' ph' h' p' w' where c': "c' = (x', ph', h', p', w')" by (cases c') auto
  assume t: "exporter_turn (flagged_exporter Os) pfd hfd t c = Some c'"
    and asked: "case c of (x, ph, h, p, w) \<Rightarrow> flag (snd w)"
  from assms [OF t [unfolded c c']] asked
  have r: "flag (snd w') \<and> rank x' ph' h' \<le> (if t = thread then rank x ph h - 1 else rank x ph h)"
    by (simp add: c)
  then show "case c' of (x, ph, h, p, w) \<Rightarrow> flag (snd w)" by (simp add: c')
  show "(case c' of (x, ph, h, p, w) \<Rightarrow> rank x ph h) \<le> (case c of (x, ph, h, p, w) \<Rightarrow> rank x ph h)"
    if "t \<noteq> thread" using r that by (simp add: c c')
next
  fix c c' :: "('a \<times> stop_flags) exporter_state"
  obtain x ph h p w where c: "c = (x, ph, h, p, w)" by (cases c) auto
  obtain x' ph' h' p' w' where c': "c' = (x', ph', h', p', w')" by (cases c') auto
  assume t: "exporter_turn (flagged_exporter Os) pfd hfd thread c = Some c'"
    and asked: "case c of (x, ph, h, p, w) \<Rightarrow> flag (snd w)"
  from assms [OF t [unfolded c c']] asked
  show "(case c' of (x, ph, h, p, w) \<Rightarrow> rank x ph h) \<le> (case c of (x, ph, h, p, w) \<Rightarrow> rank x ph h) - 1"
    by (simp add: c c')
qed

interpretation exporter_main: stopping_thread "exporter_turn (flagged_exporter Os) pfd hfd" X_main
  "\<lambda>(x, ph, h, p, w). sf_requested (snd w)" "\<lambda>(x, ph, h, p, w). exporter_rank x" for Os :: "'w exporter_os" and pfd hfd
proof (rule exporter_thread)
  fix t x ph h p w x' ph' h' p' w'
  assume t: "exporter_turn (flagged_exporter Os) pfd hfd t (x, ph, h, p, w) = Some (x', ph', h', p', w')"
    and asked: "sf_requested (snd w)"
  from t have "exporter_rank x' \<le> (if t = X_main then exporter_rank x - 1 else exporter_rank x)"
  proof (cases rule: flagged_exporter_cases)
    case main
    with asked show ?thesis by (cases x) simp_all
  qed auto
  with exporter_turn_flags(1) [OF t asked]
  show "sf_requested (snd w') \<and> exporter_rank x' \<le> (if t = X_main then exporter_rank x - 1 else exporter_rank x)" ..
qed

interpretation exporter_progress: stopping_thread "exporter_turn (flagged_exporter Os) pfd hfd" X_progress
  "\<lambda>(x, ph, h, p, w). sf_progress (snd w)" "\<lambda>(x, ph, h, p, w). progress_rank ph" for Os :: "'w exporter_os" and pfd hfd
proof (rule exporter_thread)
  fix t x ph h p w x' ph' h' p' w'
  assume t: "exporter_turn (flagged_exporter Os) pfd hfd t (x, ph, h, p, w) = Some (x', ph', h', p', w')"
    and asked: "sf_progress (snd w)"
  from t have "progress_rank ph' \<le> (if t = X_progress then progress_rank ph - 1 else progress_rank ph)"
    by (cases rule: flagged_exporter_cases) (use asked in auto)
  with exporter_turn_flags(2) [OF t asked]
  show "sf_progress (snd w') \<and> progress_rank ph' \<le> (if t = X_progress then progress_rank ph - 1 else progress_rank ph)" ..
qed

interpretation exporter_http_thread: stopping_thread "exporter_turn (flagged_exporter Os) pfd hfd" X_http
  "\<lambda>(x, ph, h, p, w). sf_http (snd w)" "\<lambda>(x, ph, h, p, w). of_bool h" for Os :: "'w exporter_os" and pfd hfd
proof (rule exporter_thread)
  fix t x ph h p w x' ph' h' p' w'
  assume t: "exporter_turn (flagged_exporter Os) pfd hfd t (x, ph, h, p, w) = Some (x', ph', h', p', w')"
    and asked: "sf_http (snd w)"
  from t have "of_bool h' \<le> (if t = X_http then of_bool h - 1 else (of_bool h :: nat))"
    by (cases rule: flagged_exporter_cases) (use asked in auto)
  with exporter_turn_flags(3) [OF t asked]
  show "sf_http (snd w') \<and> of_bool h' \<le> (if t = X_http then of_bool h - 1 else (of_bool h :: nat))" ..
qed

subsection \<open>The order of the end\<close>

definition exporter_order :: "('w \<times> stop_flags) exporter_state \<Rightarrow> bool" where
  "exporter_order c = (case c of (x, ph, h, p, w) \<Rightarrow>
     (sf_progress (snd w) \<longleftrightarrow> x = Stopping_http \<or> x = Joining) \<and> (sf_http (snd w) \<longleftrightarrow> x = Joining) \<and>
     (ph = Finished \<longrightarrow> sf_progress (snd w)) \<and> (h \<or> sf_http (snd w)) \<and>
     (x = Waiting \<or> sf_requested (snd w)))"

lemma exporter_turn_order:
  assumes t: "exporter_turn (flagged_exporter Os) pfd hfd t c = Some c'" and ok: "exporter_order c"
  shows "exporter_order c'"
proof -
  obtain x ph h p w where c: "c = (x, ph, h, p, w)" by (cases c) auto
  obtain x' ph' h' p' w' where c': "c' = (x', ph', h', p', w')" by (cases c') auto
  from t [unfolded c c'] show ?thesis
  proof (cases rule: flagged_exporter_cases)
    case main
    with ok show ?thesis by (cases x) (auto simp: exporter_order_def c c')
  next
    case progress
    with ok show ?thesis by (cases "sf_progress (snd w)") (auto simp: exporter_order_def c c')
  qed (use ok in \<open>auto simp: exporter_order_def c c'\<close>)
qed

lemma exporter_turns_order:
  "run_turns (exporter_turn (flagged_exporter Os) pfd hfd) ts c = Some c' \<Longrightarrow> exporter_order c \<Longrightarrow> exporter_order c'"
  by (rule run_turns_keep [where P = exporter_order]) (auto intro: exporter_turn_order)

lemma exporter_order_start: "exporter_order (Waiting, Listening, True, p, (w, stop_flags_new))"
  by (simp add: exporter_order_def stop_flags_new_def)

lemma exporter_no_request:
  assumes "run_turns (exporter_turn (flagged_exporter Os) pfd hfd) ts (x, ph, h, p, w) = Some (x', ph', h', p', w')"
    and "X_signal SIGTERM \<notin> set ts" and "X_signal SIGINT \<notin> set ts" and "\<not> sf_requested (snd w)"
  shows "\<not> sf_requested (snd w')"
proof -
  have "(\<lambda>(x, ph, h, p, w). \<not> sf_requested (snd w)) (x', ph', h', p', w')"
  proof (rule run_turns_keep [OF _ assms(1)])
    fix t and c c' :: "('a \<times> stop_flags) exporter_state"
    obtain x ph h p w where c: "c = (x, ph, h, p, w)" by (cases c) auto
    obtain x' ph' h' p' w' where c': "c' = (x', ph', h', p', w')" by (cases c') auto
    assume "t \<in> set ts" "exporter_turn (flagged_exporter Os) pfd hfd t c = Some c'"
      and n: "case c of (x, ph, h, p, w) \<Rightarrow> \<not> sf_requested (snd w)"
    then have "exporter_turn (flagged_exporter Os) pfd hfd t (x, ph, h, p, w) = Some (x', ph', h', p', w')"
      by (simp add: c c')
    then show "case c' of (x, ph, h, p, w) \<Rightarrow> \<not> sf_requested (snd w)"
    proof (cases rule: flagged_exporter_cases)
      case main
      with n show ?thesis by (cases x) (simp_all add: c c')
    qed (use n assms(2,3) \<open>t \<in> set ts\<close> in \<open>auto simp: c c'\<close>)
  qed (use assms(4) in simp)
  then show ?thesis by simp
qed

end
