(* ===== verification/Shutdown_Correct.thy ===== *)
theory Shutdown_Correct
  imports Exporter_Shutdown Http_Correct Device_Correct Producer_Correct
begin

text \<open>
  The properties of the end of both programs: they serve until a signal asks them to stop,
  and then every thread stops after a bounded number of its own turns, in whatever order
  the threads take them.
\<close>

subsection \<open>The daemon\<close>

abbreviation daemon_turns ::
  "'w daemon_os \<Rightarrow> build_info \<Rightarrow> ns \<Rightarrow> int \<Rightarrow> daemon_actor list \<Rightarrow> ('w \<times> stop_flags) daemon_state \<Rightarrow>
     ('w \<times> stop_flags) daemon_state option" where
  "daemon_turns Os build start fd \<equiv> run_turns (daemon_turn (flagged_daemon Os) build start fd)"


text \<open>The daemon of the page above in a world with flags: a signal, and then its last turns.\<close>

lemma demo_last_turns:
  "daemon_turns demo_page_os build 0 7 (Signal SIGTERM # replicate 5 Main_thread @ [Http_thread])
     (Looping, True, m, (d, stop_flags_new)) =
   Some (Stopped, False, m, (the (fake_close (the (fake_stop_streaming d))), \<lparr>sf_requested = True, sf_http = True, sf_progress = False\<rparr>))"
proof -
  have e: "dev_stop_streaming (lifted_env (os_env demo_page_os)) (d, f) = Some (the (fake_stop_streaming d), f)"
    "dev_close (lifted_env (os_env demo_page_os)) (d, f) = Some (the (fake_close d), f)" for d and f :: stop_flags
    by (simp_all add: lifted_env_def demo_page_os_def fake_defs)
  show ?thesis
    by (simp add: numeral_eq_Suc daemon_turn_def deliver_installed main_step_def loop_step_def e
        handle_signal_def http_server_stop_def stop_flags_new_def)
qed




text \<open>
  C25: with a device whose methods return, the main thread is never stuck: its turns return
  wherever it is, on any machine in service, and after a signal five of them are the way
  to the end, whatever the HTTP thread is doing.
\<close>

theorem main_thread_never_stuck:
  assumes dev: "responsive (os_env Os)" and reach: "csm_reach (os_env (flagged_daemon Os)) cfg m"
  shows "daemon_turn (flagged_daemon Os) build start fd Main_thread (ph, h, m, w) \<noteq> None \<and>
    (sf_requested (snd w) \<longrightarrow>
       (\<exists>w'. daemon_turns Os build start fd (replicate 5 Main_thread) (ph, h, m, w) = Some (Stopped, h, m, w')))"
proof -
  let ?turn = "daemon_turn (flagged_daemon Os) build start fd"
  have lifted: "responsive (lifted_env (os_env Os))" by (rule responsive_lifted [OF dev])
  have main: "?turn Main_thread (ph, h, m, w) \<noteq> None" if "csm_reach (os_env (flagged_daemon Os)) cfg m" for ph m w
  proof (cases "ph = Stopped")
    case False
    have "machine_wf m" by (rule csm_reach_wf [OF that])
    then obtain x where x: "csm_step (lifted_env (os_env Os)) 200 m w = Some x"
      using csm_step_returns [OF lifted, of m 200 w] by blast
    show ?thesis
      using False responsiveD(2,5) [OF lifted, of w]
      by (cases ph) (auto simp: daemon_turn_def main_step_def loop_step_def sleep_step_def Let_def x split: prod.splits)
  qed (simp add: daemon_turn_def)
  have after: "\<exists>ph' w'. run_turns ?turn (replicate n Main_thread) (ph, h, m, w) = Some (ph', h, m, w')"
    if "sf_requested (snd w)" for n ph w
    using that
  proof (induction n arbitrary: ph w)
    case (Suc n)
    obtain ph1 h1 m1 w1 where t: "?turn Main_thread (ph, h, m, w) = Some (ph1, h1, m1, w1)"
      using main [OF reach, of ph w] by (metis option.exhaust prod_cases4)
    with daemon_turn_flags(1) [OF t Suc.prems] flagged_main_turn(1) [OF t] Suc.IH [of w1 ph1] show ?case by simp
  qed simp
  have finish: "\<exists>w'. run_turns ?turn (replicate 5 Main_thread) (ph, h, m, w) = Some (Stopped, h, m, w')"
    if req: "sf_requested (snd w)"
  proof -
    from after [OF req] obtain ph' w' where r: "run_turns ?turn (replicate 5 Main_thread) (ph, h, m, w) = Some (ph', h, m, w')"
      by blast
    have "main_rank ph \<le> count_list (replicate 5 Main_thread) Main_thread"
      using main_rank_le [of ph] by (simp add: numeral_eq_Suc)
    with daemon_main.stops [OF r] req have "ph' = Stopped" by simp
    with r show ?thesis by blast
  qed
  from main [OF reach] finish show ?thesis by blast
qed

lemma main_thread_never_stuck_witness:
  "\<exists>m w'. daemon_turns demo_page_os \<lparr>bi_version = [], bi_git_sha = []\<rparr> 0 7 (replicate 5 Main_thread)
     (Sleeping 30000, True, m, (fake_new, handle_signal stop_flags_new)) = Some (Stopped, True, m, w')"
proof -
  have e: "os_env demo_page_os = fake_env" by (simp add: demo_page_os_def)
  obtain m w where "csm_new (lifted_env fake_env) capture_stats_new daemon_config_default (fake_new, stop_flags_new) = (m, w)"
    by (meson prod.exhaust)
  then have "csm_reach (os_env (flagged_daemon demo_page_os)) daemon_config_default m"
    unfolding flagged_daemon_simps e by (rule reach_new)
  from main_thread_never_stuck [OF _ this, of "\<lparr>bi_version = [], bi_git_sha = []\<rparr>" 0 7 "Sleeping 30000" True "(fake_new, handle_signal stop_flags_new)"]
  show ?thesis using fake_responsive by (auto simp: e)
qed

subsection \<open>The exporter\<close>

abbreviation exporter_turns ::
  "'w exporter_os \<Rightarrow> int \<Rightarrow> int \<Rightarrow> exporter_actor list \<Rightarrow> ('w \<times> stop_flags) exporter_state \<Rightarrow>
     ('w \<times> stop_flags) exporter_state option" where
  "exporter_turns Os pfd hfd \<equiv> run_turns (exporter_turn (flagged_exporter Os) pfd hfd)"

text \<open>
  C22: the exporter obeys a signal. Whatever it has done before, after a SIGTERM or a SIGINT
  three turns of the main thread set both stop flags; then two turns of the progress thread
  hang up on a producer and end it, and one turn of the HTTP thread ends that, however many
  other turns and signals come in between, as long as the calls of these turns return.
\<close>

theorem exporter_stops_after_a_signal:
  assumes before: "exporter_turns Os pfd hfd ts
      (Waiting, Listening, True, progress_parser_new producer_stats_new, (w0, stop_flags_new)) = Some (x1, ph1, h1, p1, w1)"
    and sig: "sig \<in> {SIGTERM, SIGINT}"
    and after: "exporter_turns Os pfd hfd (X_signal sig # us @ vs) (x1, ph1, h1, p1, w1) = Some (x, ph, h, p, w)"
    and turns: "3 \<le> count_list us X_main" "2 \<le> count_list vs X_progress" "X_http \<in> set vs"
  shows "x = Joining \<and> ph = Finished \<and> \<not> h \<and> \<not> ps_connected (pp_stats p)"
proof -
  let ?turn = "exporter_turn (flagged_exporter Os) pfd hfd"
  from after obtain c2 c3 where s: "?turn (X_signal sig) (x1, ph1, h1, p1, w1) = Some c2"
    and u: "run_turns ?turn us c2 = Some c3" and v: "run_turns ?turn vs c3 = Some (x, ph, h, p, w)"
    by (auto simp: run_turns_append bind_iff)
  obtain x2 ph2 h2 p2 w2 where c2: "c2 = (x2, ph2, h2, p2, w2)" by (cases c2) auto
  obtain x3 ph3 h3 p3 w3 where c3: "c3 = (x3, ph3, h3, p3, w3)" by (cases c3) auto
  from s [unfolded c2] have req: "sf_requested (snd w2)"
    by (cases rule: flagged_exporter_cases) (use sig in \<open>auto simp: SIGTERM_def SIGINT_def SIGPIPE_def\<close>)
  have "exporter_rank x2 \<le> count_list us X_main" using turns(1) exporter_rank_le [of x2] by simp
  then have x3: "x3 = Joining" using exporter_main.stops [OF u [unfolded c2 c3]] req by simp
  have "exporter_order (x1, ph1, h1, p1, w1)" by (rule exporter_turns_order [OF before exporter_order_start])
  from exporter_turns_order [OF u exporter_turn_order [OF s this]]
  have flags: "sf_progress (snd w3)" "sf_http (snd w3)" "sf_requested (snd w3)" by (auto simp: exporter_order_def c3 x3)
  have "progress_rank ph3 \<le> count_list vs X_progress" using turns(2) progress_rank_le [of ph3] by simp
  then have ph: "ph = Finished" using exporter_progress.stops [OF v [unfolded c3]] flags by simp
  have "of_bool h3 \<le> count_list vs X_http"
    using turns(3) count_list_0_iff [of vs X_http] by (cases h3) auto
  then have h: "\<not> h" using exporter_http_thread.stops [OF v [unfolded c3]] flags by simp
  have x: "x = Joining" using exporter_main.rank_falls [OF v [unfolded c3]] flags x3 by simp
  have "run_turns ?turn (ts @ X_signal sig # us @ vs)
      (Waiting, Listening, True, progress_parser_new producer_stats_new, (w0, stop_flags_new)) = Some (x, ph, h, p, w)"
    using before after by (simp only: run_turns_append) simp
  from exporter_steps_attached [OF exporter_turns_steps [OF this]]
  have "attached_ok (x, ph, h, p, w)" by (simp add: attached_ok_def progress_parser_new_def producer_stats_new_def)
  with ph h x show ?thesis by (simp add: attached_ok_def)
qed

text \<open>A producer that attaches, and then a signal and the last turns.\<close>

definition demo_serving :: "unit exporter_os" where
  "demo_serving = demo_exporter\<lparr>xo_progress := demo_client, xo_http := demo_client\<rparr>"

lemma demo_exporter_turns:
  "exporter_turns demo_serving 7 8 [X_progress]
     (Waiting, Listening, True, p, ((), stop_flags_new)) =
   Some (Waiting, Attached 9, True, set_connected True p, ((), stop_flags_new))"
  "exporter_turns demo_serving 7 8 (X_signal SIGINT # [X_main, X_main, X_main] @ [X_progress, X_http, X_progress])
     (Waiting, Attached 9, True, set_connected True p, ((), stop_flags_new)) =
   Some (Joining, Finished, False, set_connected False (set_connected True p),
     ((), \<lparr>sf_requested = True, sf_http = True, sf_progress = True\<rparr>))"
proof -
  have n: "xo_progress demo_serving = demo_client" "xo_http demo_serving = demo_client"
    by (simp_all add: demo_serving_def)
  have calls: "net_poll (flagged f demo_client) fd t w = (1, w)" "net_accept (flagged f demo_client) fd w = (9, w)"
    "net_close (flagged f demo_client) fd w = w" for f fd t and w :: "unit \<times> stop_flags"
    by (simp_all add: flagged_def beside_net_def demo_client_def lift_call_def prod_eq_iff)
  note defs = exporter_turn_def progress_next_def exporter_main_step_def
    listen_step_def receive_step_def hang_up_def n calls deliver_installed
  show "exporter_turns demo_serving 7 8 [X_progress] (Waiting, Listening, True, p, ((), stop_flags_new)) =
    Some (Waiting, Attached 9, True, set_connected True p, ((), stop_flags_new))"
    by (simp add: defs stop_flags_new_def)
  show "exporter_turns demo_serving 7 8 (X_signal SIGINT # [X_main, X_main, X_main] @ [X_progress, X_http, X_progress])
     (Waiting, Attached 9, True, set_connected True p, ((), stop_flags_new)) =
   Some (Joining, Finished, False, set_connected False (set_connected True p),
     ((), \<lparr>sf_requested = True, sf_http = True, sf_progress = True\<rparr>))"
    by (simp add: defs stop_flags_new_def handle_signal_def http_server_stop_def progress_server_stop_def)
qed

lemma exporter_stops_after_a_signal_witness:
  "\<exists>x ph h p w. exporter_turns demo_serving 7 8 (X_signal SIGINT # [X_main, X_main, X_main] @ [X_progress, X_http, X_progress])
     (Waiting, Attached 9, True, set_connected True (progress_parser_new producer_stats_new), ((), stop_flags_new)) = Some (x, ph, h, p, w) \<and>
     x = Joining \<and> ph = Finished \<and> \<not> h \<and> \<not> ps_connected (pp_stats p)"
proof -
  obtain x ph h p w where after: "exporter_turns demo_serving 7 8 (X_signal SIGINT # [X_main, X_main, X_main] @ [X_progress, X_http, X_progress])
     (Waiting, Attached 9, True, set_connected True (progress_parser_new producer_stats_new), ((), stop_flags_new)) = Some (x, ph, h, p, w)"
    using demo_exporter_turns(2) by blast
  have "x = Joining \<and> ph = Finished \<and> \<not> h \<and> \<not> ps_connected (pp_stats p)"
    by (rule exporter_stops_after_a_signal [OF demo_exporter_turns(1) _ after]) simp_all
  with after show ?thesis by blast
qed

text \<open>
  Until a signal asks it to, the main thread of the exporter waits and both servers run;
  the progress server is told to stop before the HTTP server, and neither of their threads
  ends before its own server is told to.
\<close>

theorem exporter_serves_until_a_signal:
  assumes "exporter_turns Os pfd hfd ts (Waiting, Listening, True, p0, (w0, stop_flags_new)) = Some (x, ph, h, p, w)"
  shows "(x = Waiting \<or> X_signal SIGTERM \<in> set ts \<or> X_signal SIGINT \<in> set ts) \<and>
    (ph \<noteq> Finished \<or> x = Stopping_http \<or> x = Joining) \<and> (h \<or> x = Joining) \<and>
    (sf_progress (snd w) \<longleftrightarrow> x = Stopping_http \<or> x = Joining) \<and> (sf_http (snd w) \<longleftrightarrow> x = Joining)"
proof -
  have ok: "exporter_order (x, ph, h, p, w)" by (rule exporter_turns_order [OF assms exporter_order_start])
  have "sf_requested (snd w) \<Longrightarrow> X_signal SIGTERM \<in> set ts \<or> X_signal SIGINT \<in> set ts"
    using exporter_no_request [OF assms] by (auto simp: stop_flags_new_def)
  with ok show ?thesis by (auto simp: exporter_order_def)
qed

lemma exporter_serves_until_a_signal_witness:
  "\<exists>x ph h p' w. exporter_turns demo_serving 7 8 [X_progress] (Waiting, Listening, True, p, ((), stop_flags_new)) =
     Some (x, ph, h, p', w) \<and> x = Waiting \<and> h"
proof -
  obtain x ph h p' w where r: "exporter_turns demo_serving 7 8 [X_progress]
      (Waiting, Listening, True, p, ((), stop_flags_new)) = Some (x, ph, h, p', w)"
    using demo_exporter_turns(1) by blast
  from exporter_serves_until_a_signal [OF r] have "x = Waiting" "h" by auto
  with r show ?thesis by blast
qed

subsection \<open>A client that falls silent\<close>

text \<open>
  C29: the one thing that keeps the end from coming. A client that connects, sends less than
  a request line and then neither sends nor closes keeps the HTTP server from ever
  returning, whether its flag is set meanwhile or not, because the flag is not read inside a
  connection and \<^verbatim>\<open>recv\<close> has no timeout.
\<close>

theorem silent_client_blocks_the_server:
  assumes running: "net_stop_requested N w = (False, w1)"
    and poll: "net_poll N fd 200 w1 = (rc, w2)" "0 < rc"
    and conn: "net_accept N fd w2 = (c, w3)" "0 \<le> c"
    and silent: "falls_silent N c chunks w3"
    and short: "find_crlf (concat chunks) = None" "length (concat chunks) < 8192"
  shows "http_run N handler fd w = None"
proof -
  have "read_request_line N c w3 = None"
    using read_loop_silent [OF silent, of "[]"] short by (simp add: read_request_line_def)
  then have "http_turn N handler fd w1 = None" using poll conn by (simp add: http_turn_def)
  with running show ?thesis by (simp add: http_run.simps [of N handler fd w])
qed

definition demo_silent :: "bool net" where
  "demo_silent =
     demo_client\<lparr>net_recv := (\<lambda>fd n sent. if sent then None else Some (Some ''GET'', True))\<rparr>"

lemma silent_client_blocks_the_server_witness: "\<forall>handler. http_run demo_silent handler 7 False = None"
proof
  fix handler
  have calls: "net_stop_requested demo_silent w = (False, w)" "net_poll demo_silent fd t w = (1, w)"
    "net_accept demo_silent fd w = (9, w)" for fd t w
    by (simp_all add: demo_silent_def demo_client_def)
  have silent: "falls_silent demo_silent 9 [''GET''] False" by (simp add: demo_silent_def)
  have "find_crlf (concat [''GET'']) = None" by code_simp
  from silent_client_blocks_the_server [OF calls(1) calls(2) zero_less_one calls(3) _ silent this]
  show "http_run demo_silent handler 7 False = None" by simp
qed

subsection \<open>Loops, steps and turns\<close>


end
