(* ===== verification/Locked.thy ===== *)
theory Locked
  imports Turns
begin

text \<open>
  Objects guarded by a mutex. Every operation of such an object is a body of statements under
  one \<open>lock_guard\<close>; threads take the statements in turns, in any order. The locale
  \<open>guarded_object\<close> asks for an annotation of the bodies, statement by statement, and gives
  what the mutex is there for: calls never overlap, they answer as if each of them had
  happened at once, and each of them ends.
\<close>

subsection \<open>Threads at a mutex\<close>

text \<open>
  Where a thread is: in none of the operations, waiting for the mutex, or about to execute
  statement \<open>k\<close> of a body with its local variables.
\<close>

datatype ('op, 'l) lock_phase =
    Outside
  | At_lock 'op
  | Inside 'op nat 'l

record ('t, 'op, 'l, 's, 'r) locked =
  lk_owner :: "'t option"
  lk_shared :: 's
  lk_phase :: "'t \<Rightarrow> ('op, 'l) lock_phase"
  lk_history :: "('t \<times> 'op \<times> 'r) list"

definition unlocked :: "'s \<Rightarrow> ('t, 'op, 'l, 's, 'r) locked" where
  "unlocked s = \<lparr>lk_owner = None, lk_shared = s, lk_phase = \<lambda>_. Outside, lk_history = []\<rparr>"

text \<open>
  A statement changes the shared object and the local variables and says which statement
  follows, or that the body returns; \<^term>\<open>None\<close> is an access out of bounds.
\<close>

type_synonym ('op, 'l, 's) statements =
  "'op \<Rightarrow> nat \<Rightarrow> 's \<times> 'l \<Rightarrow> (('s \<times> 'l) \<times> nat option) option"

datatype ('t, 'op) lock_action =
    Call 't 'op
  | Go 't

text \<open>
  One turn: a thread begins a call, or goes on with the one it is in. At the mutex it
  acquires it if no thread owns it and waits otherwise; where the body returns, the
  \<open>lock_guard\<close> releases the mutex and the call enters the history.
\<close>

fun lock_turn ::
  "('op, 'l, 's) statements \<Rightarrow> ('op \<Rightarrow> 'l) \<Rightarrow> ('op \<Rightarrow> 'l \<Rightarrow> 'r) \<Rightarrow> ('t, 'op) lock_action \<Rightarrow>
   ('t, 'op, 'l, 's, 'r) locked \<Rightarrow> ('t, 'op, 'l, 's, 'r) locked option" where
  "lock_turn stmt locals answer (Call t op) c =
     (if lk_phase c t = Outside then Some (c\<lparr>lk_phase := (lk_phase c)(t := At_lock op)\<rparr>)
      else None)"
| "lock_turn stmt locals answer (Go t) c =
     (case lk_phase c t of
        Outside \<Rightarrow> Some c
      | At_lock op \<Rightarrow>
          (if lk_owner c = None
           then Some (c\<lparr>lk_owner := Some t, lk_phase := (lk_phase c)(t := Inside op 0 (locals op))\<rparr>)
           else Some c)
      | Inside op k l \<Rightarrow>
          (case stmt op k (lk_shared c, l) of
             None \<Rightarrow> None
           | Some ((s, l'), Some k') \<Rightarrow>
               Some (c\<lparr>lk_shared := s, lk_phase := (lk_phase c)(t := Inside op k' l')\<rparr>)
           | Some ((s, l'), None) \<Rightarrow>
               Some (c\<lparr>lk_owner := None, lk_shared := s, lk_phase := (lk_phase c)(t := Outside),
                       lk_history := lk_history c @ [(t, op, answer op l')]\<rparr>)))"

subsection \<open>What the calls should have done\<close>

text \<open>
  An operation in one piece: the object after it and the answer. A history of calls leads
  from one object to another, and its answers are right if each call gave the answer it
  gives in one piece.
\<close>

fun after_calls :: "('op \<Rightarrow> 's \<Rightarrow> 's \<times> 'r) \<Rightarrow> ('t \<times> 'op \<times> 'r) list \<Rightarrow> 's \<Rightarrow> 's" where
  "after_calls apply_op [] s = s"
| "after_calls apply_op ((t, op, r) # h) s = after_calls apply_op h (fst (apply_op op s))"

fun right_answers :: "('op \<Rightarrow> 's \<Rightarrow> 's \<times> 'r) \<Rightarrow> ('t \<times> 'op \<times> 'r) list \<Rightarrow> 's \<Rightarrow> bool" where
  "right_answers apply_op [] s = True"
| "right_answers apply_op ((t, op, r) # h) s \<longleftrightarrow>
     r = snd (apply_op op s) \<and> right_answers apply_op h (fst (apply_op op s))"

lemma after_calls_append [simp]:
  "after_calls f (h @ h') s = after_calls f h' (after_calls f h s)"
  by (induction f h s rule: after_calls.induct) simp_all

lemma right_answers_append [simp]:
  "right_answers f (h @ h') s \<longleftrightarrow> right_answers f h s \<and> right_answers f h' (after_calls f h s)"
  by (induction f h s rule: after_calls.induct) auto

subsection \<open>The contract of the bodies\<close>

text \<open>
  \<open>ann op s0 k s l\<close> is what holds before statement \<open>k\<close> of \<open>op\<close> when the mutex was
  acquired with the object \<open>s0\<close>; \<open>left\<close> bounds the statements still to come.
\<close>

locale guarded_object =
  fixes stmt :: "('op, 'l, 's) statements"
    and locals :: "'op \<Rightarrow> 'l"
    and answer :: "'op \<Rightarrow> 'l \<Rightarrow> 'r"
    and apply_op :: "'op \<Rightarrow> 's \<Rightarrow> 's \<times> 'r"
    and wf :: "'s \<Rightarrow> bool"
    and ann :: "'op \<Rightarrow> 's \<Rightarrow> nat \<Rightarrow> 's \<Rightarrow> 'l \<Rightarrow> bool"
    and left :: "'op \<Rightarrow> nat \<Rightarrow> 's \<Rightarrow> 'l \<Rightarrow> nat"
  assumes enter: "wf s \<Longrightarrow> ann op s 0 s (locals op)"
    and goes_on: "ann op s0 k s l \<Longrightarrow> stmt op k (s, l) = Some ((s', l'), Some k') \<Longrightarrow>
      ann op s0 k' s' l' \<and> left op k' s' l' < left op k s l"
    and returns: "ann op s0 k s l \<Longrightarrow> stmt op k (s, l) = Some ((s', l'), None) \<Longrightarrow>
      apply_op op s0 = (s', answer op l') \<and> wf s'"
    and in_bounds: "ann op s0 k s l \<Longrightarrow> stmt op k (s, l) \<noteq> None"
begin

abbreviation turn :: "('t, 'op) lock_action \<Rightarrow> ('t, 'op, 'l, 's, 'r) locked \<Rightarrow>
    ('t, 'op, 'l, 's, 'r) locked option" where
  "turn \<equiv> lock_turn stmt locals answer"

text \<open>
  The invariant: the history answers rightly; the mutex is free, no thread is inside and
  the object is what the history made of it, or its owner is the one thread inside and has
  brought its body as far as the annotation says.
\<close>

definition guarded :: "'s \<Rightarrow> ('t, 'op, 'l, 's, 'r) locked \<Rightarrow> bool" where
  "guarded s0 c \<longleftrightarrow>
     right_answers apply_op (lk_history c) s0 \<and>
     wf (after_calls apply_op (lk_history c) s0) \<and>
     (lk_owner c = None \<longrightarrow> lk_shared c = after_calls apply_op (lk_history c) s0) \<and>
     (\<forall>t op k l. lk_phase c t = Inside op k l \<longrightarrow>
        lk_owner c = Some t \<and>
        ann op (after_calls apply_op (lk_history c) s0) k (lk_shared c) l)"

lemma guarded_unlocked: "wf s \<Longrightarrow> guarded s (unlocked s)"
  by (simp add: guarded_def unlocked_def)

lemma guarded_inside:
  assumes "guarded s0 c" and "lk_phase c t = Inside op k l"
  shows "lk_owner c = Some t"
    and "ann op (after_calls apply_op (lk_history c) s0) k (lk_shared c) l"
  using assms by (auto simp: guarded_def)

lemma guarded_turn:
  assumes c: "guarded s0 c" and turn: "turn a c = Some c'"
  shows "guarded s0 c'"
proof (cases a)
  case (Call t op)
  with c turn show ?thesis by (auto simp: guarded_def split: if_splits)
next
  case a: (Go t)
  show ?thesis
  proof (cases "lk_phase c t")
    case (Inside op k l)
    note own = guarded_inside [OF c Inside]
    obtain s l' k' where stmt: "stmt op k (lk_shared c, l) = Some ((s, l'), k')"
      using in_bounds [OF own(2)] by auto
    show ?thesis
    proof (cases k')
      case None
      from returns [OF own(2) stmt [unfolded None]] c own(1) show ?thesis
        using turn by (auto simp: a Inside stmt None guarded_def split: if_splits)
    next
      case (Some k'')
      from goes_on [OF own(2) stmt [unfolded Some]] c own(1) show ?thesis
        using turn by (auto simp: a Inside stmt Some guarded_def split: if_splits)
    qed
  qed (use c turn enter in \<open>auto simp: a guarded_def split: if_splits\<close>)
qed

lemma guarded_run:
  assumes "run_turns turn ts (unlocked s0) = Some c" and "wf s0"
  shows "guarded s0 c"
  using guarded_turn assms(1) guarded_unlocked [OF assms(2)] by (rule run_turns_keep)

text \<open>No two threads are inside at once, and every call answered as if in one piece.\<close>

lemma exclusive:
  "guarded s0 c \<Longrightarrow> lk_phase c t = Inside op k l \<Longrightarrow> lk_phase c u = Inside op' k' l' \<Longrightarrow> t = u"
  using guarded_inside(1) [of s0 c t op k l] guarded_inside(1) [of s0 c u op' k' l'] by simp

lemma atomic:
  "guarded s0 c \<Longrightarrow> lk_history c = h1 @ (t, op, r) # h2 \<Longrightarrow>
     r = snd (apply_op op (after_calls apply_op h1 s0))"
  by (simp add: guarded_def)

lemma rested:
  "guarded s0 c \<Longrightarrow> lk_owner c = None \<Longrightarrow> lk_shared c = after_calls apply_op (lk_history c) s0"
  by (simp add: guarded_def)

text \<open>No thread is ever stuck, and one that has the mutex gives it back.\<close>

lemma never_stuck: "guarded s0 c \<Longrightarrow> turn (Go t) c \<noteq> None"
  using guarded_inside(2) [of s0 c t] in_bounds
  by (fastforce split: lock_phase.splits option.splits)

text \<open>
  A thread that has the mutex gives it back after at most as many turns of its own as its
  body has statements left, whatever the others do, and the next call in the history is its own.
\<close>

lemma turn_history:
  assumes "turn a c = Some c'"
  shows "lk_history c' = lk_history c \<or>
    (\<exists>t op k l r. lk_phase c t = Inside op k l \<and> lk_history c' = lk_history c @ [(t, op, r)])"
proof (cases a)
  case (Go t)
  show ?thesis
  proof (cases "lk_phase c t")
    case (Inside op k l)
    with assms Go show ?thesis
      by (auto split: option.splits prod.splits)
  qed (use assms Go in \<open>auto split: if_splits\<close>)
qed (use assms in \<open>auto split: if_splits\<close>)

definition on_its_way :: "'t \<Rightarrow> 'op \<Rightarrow> 's \<Rightarrow> ('t \<times> 'op \<times> 'r) list \<Rightarrow>
    ('t, 'op, 'l, 's, 'r) locked \<Rightarrow> bool" where
  "on_its_way t op s0 h c \<longleftrightarrow> guarded s0 c \<and>
     ((\<exists>r h'. lk_history c = h @ (t, op, r) # h') \<or>
      lk_history c = h \<and> (\<exists>k l. lk_phase c t = Inside op k l))"

definition way_left :: "'t \<Rightarrow> ('t \<times> 'op \<times> 'r) list \<Rightarrow> ('t, 'op, 'l, 's, 'r) locked \<Rightarrow> nat" where
  "way_left t h c =
     (if lk_history c = h
      then case lk_phase c t of Inside op k l \<Rightarrow> left op k (lk_shared c) l + 1 | _ \<Rightarrow> 0
      else 0)"

lemma own_turn_inside:
  assumes c: "guarded s0 c" and phase: "lk_phase c t = Inside op k l" and turn: "turn (Go t) c = Some c'"
  shows "(\<exists>r. lk_history c' = lk_history c @ [(t, op, r)]) \<or>
    lk_history c' = lk_history c \<and> (\<exists>k' l'. lk_phase c' t = Inside op k' l' \<and>
      left op k' (lk_shared c') l' < left op k (lk_shared c) l)"
proof -
  note own = guarded_inside [OF c phase]
  obtain s l' k' where stmt: "stmt op k (lk_shared c, l) = Some ((s, l'), k')"
    using in_bounds [OF own(2)] by auto
  show ?thesis
  proof (cases k')
    case None
    with turn show ?thesis by (auto simp: phase stmt)
  next
    case (Some k'')
    from goes_on [OF own(2) stmt [unfolded Some]] turn show ?thesis
      by (auto simp: phase stmt Some)
  qed
qed

lemma other_turn_inside:
  assumes c: "guarded s0 c" and phase: "lk_phase c t = Inside op k l"
    and turn: "turn a c = Some c'" and a: "a \<noteq> Go t"
  shows "lk_history c' = lk_history c \<and> lk_phase c' t = lk_phase c t \<and> lk_shared c' = lk_shared c"
proof (cases a)
  case (Call u op')
  with turn phase show ?thesis by (auto split: if_splits)
next
  case (Go u)
  with exclusive [OF c phase] a have "\<And>op k l. lk_phase c u \<noteq> Inside op k l" by blast
  with turn Go a show ?thesis by (cases "lk_phase c u") (auto split: if_splits)
qed

lemma way_turn:
  assumes turn: "turn a c = Some c'" and way: "on_its_way t op s0 h c"
  shows "on_its_way t op s0 h c' \<and>
    way_left t h c' \<le> (if a = Go t then way_left t h c - 1 else way_left t h c)"
proof -
  from way guarded_turn [OF _ turn] have c: "guarded s0 c" "guarded s0 c'"
    by (auto simp: on_its_way_def)
  from way consider (returned) r h' where "lk_history c = h @ (t, op, r) # h'"
    | (inside) k l where "lk_history c = h" "lk_phase c t = Inside op k l"
    by (auto simp: on_its_way_def)
  then show ?thesis
  proof cases
    case returned
    with turn_history [OF turn] c(2) show ?thesis by (auto simp: on_its_way_def way_left_def)
  next
    case inside
    show ?thesis
    proof (cases "a = Go t")
      case True
      with own_turn_inside [OF c(1) inside(2)] turn inside c(2) show ?thesis
        by (fastforce simp: on_its_way_def way_left_def)
    next
      case False
      from other_turn_inside [OF c(1) inside(2) turn False] inside c(2) False show ?thesis
        by (auto simp: on_its_way_def way_left_def)
    qed
  qed
qed

lemma on_its_way_stopping:
  fixes t :: 't
  shows "stopping_thread turn (Go t) (on_its_way t op s0 h) (way_left t h)"
proof
  fix a :: "('t, 'op) lock_action" and c c' :: "('t, 'op, 'l, 's, 'r) locked"
  assume turn: "turn a c = Some c'" and way: "on_its_way t op s0 h c"
  from way_turn [OF this]
  show "on_its_way t op s0 h c'" and "a \<noteq> Go t \<Longrightarrow> way_left t h c' \<le> way_left t h c"
    by auto
next
  fix c c' :: "('t, 'op, 'l, 's, 'r) locked"
  assume "turn (Go t) c = Some c'" and "on_its_way t op s0 h c"
  from way_turn [OF this] show "way_left t h c' \<le> way_left t h c - 1" by simp
qed

lemma released:
  assumes c: "guarded s0 c" and phase: "lk_phase c t = Inside op k l"
    and run: "run_turns turn ts c = Some c'"
    and turns: "left op k (lk_shared c) l < count_list ts (Go t)"
  shows "\<exists>r h. lk_history c' = lk_history c @ (t, op, r) # h"
proof -
  let ?h = "lk_history c"
  from c phase have way: "on_its_way t op s0 ?h c" by (auto simp: on_its_way_def)
  note stopping = on_its_way_stopping [of t op s0 ?h]
  from stopping_thread.stops [OF stopping run way] phase turns have "way_left t ?h c' = 0"
    by (simp add: way_left_def)
  with stopping_thread.stays_asked [OF stopping run way] show ?thesis
    by (auto simp: on_its_way_def way_left_def split: if_splits)
qed

end

end
