(* ===== verification/Shared_Stats.thy ===== *)
theory Shared_Stats
  imports Locked Stats
begin

text \<open>
  The two objects of \<^verbatim>\<open>stats.hpp\<close> that the capture thread and the metrics thread
  share under a mutex, statement by statement: the histogram of frame intervals and the stream
  information. Both are interpretations of \<open>guarded_object\<close>, which is what allows \<open>Stats\<close> to
  take each of their operations in one piece.
\<close>

subsection \<open>The histogram\<close>

datatype histogram_call =
    Observe double
  | Take_Snapshot

text \<open>The locals of \<open>observe\<close> (\<open>index\<close> and \<open>i\<close>) and the object that \<open>snapshot\<close> builds.\<close>

record histogram_locals =
  hl_index :: nat
  hl_i :: nat
  hl_snapshot :: "u64 list \<times> double \<times> u64"

definition histogram_locals_new :: "histogram_call \<Rightarrow> histogram_locals" where
  "histogram_locals_new call = \<lparr>hl_index = 0, hl_i = 0, hl_snapshot = ([], 0, 0)\<rparr>"

text \<open>
  The body of \<open>observe\<close>: the initialisations, one round of the search, and the three updates.
  The body of \<open>snapshot\<close>: the three copies, from left to right.
\<close>

definition observe_statement ::
  "double \<Rightarrow> nat \<Rightarrow> histogram \<times> histogram_locals \<Rightarrow>
   ((histogram \<times> histogram_locals) \<times> nat option) option" where
  "observe_statement v k = (\<lambda>(h, l).
     if k = 0 then Some ((h, l\<lparr>hl_index := length (h_bounds h), hl_i := 0\<rparr>), Some 1)
     else if k = 1 then
       (if hl_i l < length (h_bounds h)
        then if v \<le> h_bounds h ! hl_i l
          then Some ((h, l\<lparr>hl_index := hl_i l\<rparr>), Some 2)
          else Some ((h, l\<lparr>hl_i := hl_i l + 1\<rparr>), Some 1)
        else Some ((h, l), Some 2))
     else if k = 2 then
       (if hl_index l < length (h_counts h)
        then Some ((h\<lparr>h_counts := (h_counts h)[hl_index l := h_counts h ! hl_index l + 1]\<rparr>, l), Some 3)
        else None)
     else if k = 3 then Some ((h\<lparr>h_sum := rnd (h_sum h + v)\<rparr>, l), Some 4)
     else if k = 4 then Some ((h\<lparr>h_total := h_total h + 1\<rparr>, l), None)
     else None)"

definition snapshot_statement ::
  "nat \<Rightarrow> histogram \<times> histogram_locals \<Rightarrow> ((histogram \<times> histogram_locals) \<times> nat option) option" where
  "snapshot_statement k = (\<lambda>(h, l).
     case hl_snapshot l of (cs, s, n) \<Rightarrow>
       if k = 0 then Some ((h, l\<lparr>hl_snapshot := (h_counts h, s, n)\<rparr>), Some 1)
       else if k = 1 then Some ((h, l\<lparr>hl_snapshot := (cs, h_sum h, n)\<rparr>), Some 2)
       else if k = 2 then Some ((h, l\<lparr>hl_snapshot := (cs, s, h_total h)\<rparr>), None)
       else None)"

fun histogram_statement :: "(histogram_call, histogram_locals, histogram) statements" where
  "histogram_statement (Observe v) k hl = observe_statement v k hl"
| "histogram_statement Take_Snapshot k hl = snapshot_statement k hl"

fun histogram_answer :: "histogram_call \<Rightarrow> histogram_locals \<Rightarrow> (u64 list \<times> double \<times> u64) option" where
  "histogram_answer (Observe v) l = None"
| "histogram_answer Take_Snapshot l = Some (hl_snapshot l)"

text \<open>The same calls in one piece, by the functions of \<open>Stats\<close>.\<close>

fun histogram_apply ::
  "histogram_call \<Rightarrow> histogram \<Rightarrow> histogram \<times> (u64 list \<times> double \<times> u64) option" where
  "histogram_apply (Observe v) h = (histogram_observe v h, None)"
| "histogram_apply Take_Snapshot h = (h, Some (histogram_snapshot h))"

text \<open>
  What holds before each statement. The search loop keeps the first bound that is not below
  the value ahead of it: the rest of the bounds leads to the same index as all of them.
\<close>

fun histogram_ann :: "histogram_call \<Rightarrow> histogram \<Rightarrow> nat \<Rightarrow> histogram \<Rightarrow> histogram_locals \<Rightarrow> bool" where
  "histogram_ann (Observe v) h0 k h l \<longleftrightarrow>
     (let i = bucket_index v (h_bounds h0) 0; h1 = h0\<lparr>h_counts := (h_counts h0)[i := h_counts h0 ! i + 1]\<rparr>
      in histogram_wf h0 \<and> k \<le> 4 \<and>
        (k = 1 \<longrightarrow> h = h0 \<and> hl_index l = length (h_bounds h0) \<and> hl_i l \<le> length (h_bounds h0) \<and>
           bucket_index v (drop (hl_i l) (h_bounds h0)) (hl_i l) = i) \<and>
        (k = 2 \<longrightarrow> h = h0 \<and> hl_index l = i) \<and>
        (k = 0 \<longrightarrow> h = h0) \<and>
        (k = 3 \<longrightarrow> h = h1) \<and>
        (k = 4 \<longrightarrow> h = h1\<lparr>h_sum := rnd (h_sum h0 + v)\<rparr>))"
| "histogram_ann Take_Snapshot h0 k h l \<longleftrightarrow>
     histogram_wf h0 \<and> h = h0 \<and> k \<le> 2 \<and>
     (1 \<le> k \<longrightarrow> fst (hl_snapshot l) = h_counts h0) \<and>
     (k = 2 \<longrightarrow> fst (snd (hl_snapshot l)) = h_sum h0)"

fun histogram_left :: "histogram_call \<Rightarrow> nat \<Rightarrow> histogram \<Rightarrow> histogram_locals \<Rightarrow> nat" where
  "histogram_left (Observe v) k h l =
     (if k = 0 then length (h_bounds h) + 4
      else if k = 1 then length (h_bounds h) - hl_i l + 3
      else 4 - k)"
| "histogram_left Take_Snapshot k h l = 2 - k"

text \<open>One round of the search.\<close>

lemma search_ends: "i = length bs \<Longrightarrow> bucket_index v (drop i bs) i = length bs"
  by simp

lemma search_round:
  "i < length bs \<Longrightarrow> bucket_index v (drop i bs) i =
     (if v \<le> bs ! i then i else bucket_index v (drop (Suc i) bs) (Suc i))"
  by (simp add: Cons_nth_drop_Suc [symmetric])

lemma observe_goes_on:
  assumes "histogram_ann (Observe v) h0 k h l"
    and "observe_statement v k (h, l) = Some ((h', l'), Some k')"
  shows "histogram_ann (Observe v) h0 k' h' l' \<and>
    histogram_left (Observe v) k' h' l' < histogram_left (Observe v) k h l"
proof -
  from assms(1) consider "k = 0" | "k = 1" | "k = 2" | "k = 3" | "k = 4"
    by (fastforce simp: Let_def)
  then show ?thesis
    using assms
    by cases (auto simp: observe_statement_def Let_def search_round split: if_splits)
qed

lemma observe_returns:
  assumes "histogram_ann (Observe v) h0 k h l"
    and "observe_statement v k (h, l) = Some ((h', l'), None)"
  shows "h' = histogram_observe v h0 \<and> histogram_wf h'"
proof -
  from assms(2) have "k = 4" by (auto simp: observe_statement_def split: if_splits)
  with assms have "h' = histogram_observe v h0" "histogram_wf h0"
    by (auto simp: observe_statement_def histogram_observe_def Let_def)
  then show ?thesis by (simp add: histogram_observe_wf)
qed

lemma observe_in_bounds:
  assumes "histogram_ann (Observe v) h0 k h l"
  shows "observe_statement v k (h, l) \<noteq> None"
  using assms bucket_index_in_range [of h0 v]
  by (auto simp: observe_statement_def Let_def)

lemma snapshot_goes_on:
  assumes "histogram_ann Take_Snapshot h0 k h l"
    and "snapshot_statement k (h, l) = Some ((h', l'), Some k')"
  shows "histogram_ann Take_Snapshot h0 k' h' l' \<and>
    histogram_left Take_Snapshot k' h' l' < histogram_left Take_Snapshot k h l"
  using assms by (cases "hl_snapshot l") (auto simp: snapshot_statement_def split: if_splits)

lemma snapshot_returns:
  assumes "histogram_ann Take_Snapshot h0 k h l"
    and "snapshot_statement k (h, l) = Some ((h', l'), None)"
  shows "h' = h0 \<and> hl_snapshot l' = histogram_snapshot h0 \<and> histogram_wf h'"
  using assms
  by (cases "hl_snapshot l") (auto simp: snapshot_statement_def histogram_snapshot_def split: if_splits)

lemma snapshot_in_bounds:
  assumes "histogram_ann Take_Snapshot h0 k h l"
  shows "snapshot_statement k (h, l) \<noteq> None"
  using assms by (cases "hl_snapshot l") (auto simp: snapshot_statement_def)

lemmas histogram_body_simps =
  histogram_statement.simps histogram_answer.simps histogram_apply.simps

interpretation shared_histogram: guarded_object
  histogram_statement histogram_locals_new histogram_answer histogram_apply histogram_wf
  histogram_ann histogram_left
proof
  fix op h
  assume "histogram_wf h"
  then show "histogram_ann op h 0 h (histogram_locals_new op)"
    by (cases op) (simp_all add: Let_def)
next
  fix op h0 k h l h' l' k'
  assume "histogram_ann op h0 k h l" and "histogram_statement op k (h, l) = Some ((h', l'), Some k')"
  then show "histogram_ann op h0 k' h' l' \<and> histogram_left op k' h' l' < histogram_left op k h l"
    by (cases op) (simp_all only: histogram_body_simps observe_goes_on snapshot_goes_on simp_thms)
next
  fix op h0 k h l h' l'
  assume ann: "histogram_ann op h0 k h l" and last: "histogram_statement op k (h, l) = Some ((h', l'), None)"
  show "histogram_apply op h0 = (h', histogram_answer op l') \<and> histogram_wf h'"
  proof (cases op)
    case (Observe v)
    with ann last have "h' = histogram_observe v h0 \<and> histogram_wf h'"
      by (intro observe_returns) simp_all
    with Observe show ?thesis by auto
  next
    case Take_Snapshot
    with ann last
    have "h' = h0 \<and> hl_snapshot l' = histogram_snapshot h0 \<and> histogram_wf h'"
      by (intro snapshot_returns) simp_all
    with Take_Snapshot show ?thesis by auto
  qed
next
  fix op h0 k h l
  assume "histogram_ann op h0 k h l"
  then show "histogram_statement op k (h, l) \<noteq> None"
    by (cases op) (simp_all only: histogram_body_simps observe_in_bounds snapshot_in_bounds not_False_eq_True)
qed

subsection \<open>What the histogram's history says\<close>

definition histogram_turn ::
  "('t, histogram_call) lock_action \<Rightarrow>
   ('t, histogram_call, histogram_locals, histogram, (u64 list \<times> double \<times> u64) option) locked \<Rightarrow>
   ('t, histogram_call, histogram_locals, histogram, (u64 list \<times> double \<times> u64) option) locked option"
where
  "histogram_turn = lock_turn histogram_statement histogram_locals_new histogram_answer"

text \<open>The values that a history observed, in the order of its calls.\<close>

definition observed :: "('t \<times> histogram_call \<times> 'r) list \<Rightarrow> double list" where
  "observed h = concat (map (\<lambda>(t, op, r). case op of Observe v \<Rightarrow> [v] | Take_Snapshot \<Rightarrow> []) h)"

lemma observed_simps [simp]:
  "observed [] = []"
  "observed ((t, op, r) # h) = (case op of Observe v \<Rightarrow> [v] | Take_Snapshot \<Rightarrow> []) @ observed h"
  by (simp_all add: observed_def)

lemma after_histogram_calls: "after_calls histogram_apply h hist = observe_all (observed h) hist"
  by (induction histogram_apply h hist rule: after_calls.induct)
    (auto simp: observe_all_def split: histogram_call.splits)

lemma histogram_left_bound: "histogram_left op k h l \<le> length (h_bounds h) + 4"
  by (cases op) auto

lemma histogram_ann_bounds: "histogram_ann op h0 k h l \<Longrightarrow> h_bounds h = h_bounds h0"
  by (cases op) (auto simp: Let_def le_Suc_eq numeral_eq_Suc)

subsection \<open>The stream information\<close>

text \<open>
  \<open>set_stream_info\<close> assigns a \<open>StreamFormat\<close>, member by member, and then sets the flag;
  \<open>stream_info\<close> returns early when the flag is not set and copies the members otherwise. Without
  the mutex a reader could see half of a format.
\<close>

datatype stream_info_call =
    Set_Info stream_format
  | Get_Info

definition copy_member :: "nat \<Rightarrow> stream_format \<Rightarrow> stream_format \<Rightarrow> stream_format" where
  "copy_member k src dst =
     (if k = 0 then dst\<lparr>sf_width := sf_width src\<rparr>
      else if k = 1 then dst\<lparr>sf_height := sf_height src\<rparr>
      else if k = 2 then dst\<lparr>sf_pixel_format_fourcc := sf_pixel_format_fourcc src\<rparr>
      else if k = 3 then dst\<lparr>sf_size_image := sf_size_image src\<rparr>
      else if k = 4 then dst\<lparr>sf_bytesperline := sf_bytesperline src\<rparr>
      else dst\<lparr>sf_compressed := sf_compressed src\<rparr>)"

primrec copy_members :: "nat \<Rightarrow> stream_format \<Rightarrow> stream_format \<Rightarrow> stream_format" where
  "copy_members 0 src dst = dst"
| "copy_members (Suc k) src dst = copy_member k src (copy_members k src dst)"

lemma copy_all_members: "copy_members 6 src dst = src"
  by (simp add: eval_nat_numeral copy_member_def)

text \<open>The locals of a reader: the value returned and the argument \<open>out\<close>.\<close>

record stream_info_locals =
  sl_found :: bool
  sl_out :: stream_format

definition stream_info_locals_new :: "stream_info_call \<Rightarrow> stream_info_locals" where
  "stream_info_locals_new call = \<lparr>sl_found = False, sl_out = stream_format_default\<rparr>"

fun stream_info_statement :: "(stream_info_call, stream_info_locals, capture_stats) statements" where
  "stream_info_statement (Set_Info format) k (st, l) =
     (if k < 6
      then Some ((st\<lparr>st_stream_info := copy_member k format (st_stream_info st)\<rparr>, l), Some (k + 1))
      else Some ((st\<lparr>st_stream_info_known := True\<rparr>, l), None))"
| "stream_info_statement Get_Info k (st, l) =
     (if k = 0 then
        (if \<not> st_stream_info_known st then Some ((st, l), None) else Some ((st, l), Some 1))
      else if k \<le> 6
        then Some ((st, l\<lparr>sl_out := copy_member (k - 1) (st_stream_info st) (sl_out l)\<rparr>), Some (k + 1))
      else Some ((st, l\<lparr>sl_found := True\<rparr>), None))"

fun stream_info_answer :: "stream_info_call \<Rightarrow> stream_info_locals \<Rightarrow> stream_format option" where
  "stream_info_answer (Set_Info format) l = None"
| "stream_info_answer Get_Info l = (if sl_found l then Some (sl_out l) else None)"

fun stream_info_apply :: "stream_info_call \<Rightarrow> capture_stats \<Rightarrow> capture_stats \<times> stream_format option" where
  "stream_info_apply (Set_Info format) st = (set_stream_info format st, None)"
| "stream_info_apply Get_Info st = (st, stream_info st)"

fun stream_info_ann ::
  "stream_info_call \<Rightarrow> capture_stats \<Rightarrow> nat \<Rightarrow> capture_stats \<Rightarrow> stream_info_locals \<Rightarrow> bool" where
  "stream_info_ann (Set_Info format) st0 k st l \<longleftrightarrow>
     k \<le> 6 \<and> st = st0\<lparr>st_stream_info := copy_members k format (st_stream_info st0)\<rparr>"
| "stream_info_ann Get_Info st0 k st l \<longleftrightarrow>
     k \<le> 7 \<and> st = st0 \<and> \<not> sl_found l \<and> (1 \<le> k \<longrightarrow> st_stream_info_known st0) \<and>
     sl_out l = copy_members (k - 1) (st_stream_info st0) stream_format_default"

fun stream_info_left :: "stream_info_call \<Rightarrow> nat \<Rightarrow> capture_stats \<Rightarrow> stream_info_locals \<Rightarrow> nat" where
  "stream_info_left (Set_Info format) k st l = 6 - k"
| "stream_info_left Get_Info k st l = 7 - k"

interpretation shared_stream_info: guarded_object
  stream_info_statement stream_info_locals_new stream_info_answer stream_info_apply "\<lambda>_. True"
  stream_info_ann stream_info_left
proof
  fix op st
  show "stream_info_ann op st 0 st (stream_info_locals_new op)"
    by (cases op) (simp_all add: stream_info_locals_new_def)
next
  fix op st0 k st l st' l' k'
  assume "stream_info_ann op st0 k st l" and "stream_info_statement op k (st, l) = Some ((st', l'), Some k')"
  then show "stream_info_ann op st0 k' st' l' \<and> stream_info_left op k' st' l' < stream_info_left op k st l"
    by (cases op; cases k) (auto split: if_splits)
next
  fix op st0 k st l st' l'
  assume "stream_info_ann op st0 k st l" and "stream_info_statement op k (st, l) = Some ((st', l'), None)"
  moreover have "k = 6" if "k \<le> 6" "\<not> k < 6" using that by simp
  moreover have "k - Suc 0 = 6" if "k \<le> 7" "\<not> k \<le> 6" using that by simp
  ultimately show "stream_info_apply op st0 = (st', stream_info_answer op l') \<and> True"
    by (cases op) (auto simp: set_stream_info_def stream_info_def copy_all_members split: if_splits)
next
  fix op st0 k st l
  assume "stream_info_ann op st0 k st l"
  show "stream_info_statement op k (st, l) \<noteq> None" by (cases op) simp_all
qed

definition stream_info_turn ::
  "('t, stream_info_call) lock_action \<Rightarrow>
   ('t, stream_info_call, stream_info_locals, capture_stats, stream_format option) locked \<Rightarrow>
   ('t, stream_info_call, stream_info_locals, capture_stats, stream_format option) locked option"
where
  "stream_info_turn = lock_turn stream_info_statement stream_info_locals_new stream_info_answer"

text \<open>The formats that a history set, in the order of its calls.\<close>

definition formats_set :: "('t \<times> stream_info_call \<times> 'r) list \<Rightarrow> stream_format list" where
  "formats_set h = concat (map (\<lambda>(t, op, r). case op of Set_Info f \<Rightarrow> [f] | Get_Info \<Rightarrow> []) h)"

lemma stream_info_after:
  "stream_info (after_calls stream_info_apply h st) =
     (if formats_set h = [] then stream_info st else Some (last (formats_set h)))"
  by (induction stream_info_apply h st rule: after_calls.induct)
    (auto simp: formats_set_def stream_info_def set_stream_info_def split: stream_info_call.splits)

end
