(* ===== verification/Shared_Correct.thy ===== *)
theory Shared_Correct
  imports Shared_Stats
begin

text \<open>
  The properties of what the threads share under a mutex: snapshots in one piece, formats in
  one piece, and critical sections that end.
\<close>

lemma histogram_run:
  "run_turns histogram_turn ts (unlocked (histogram_new bs)) = Some c \<Longrightarrow>
     shared_histogram.guarded (histogram_new bs) c"
  unfolding histogram_turn_def by (erule shared_histogram.guarded_run) (rule histogram_new_wf)

text \<open>
  C31: whatever the threads do to the histogram at once, a snapshot is never taken in the middle
  of an observation: it is the histogram after exactly the observations whose calls ended before
  it. Its total is their number, its counts add up to it, and the cumulative count of a bucket
  is the number of them that are not above its bound, modulo 64 bits.
\<close>

theorem snapshots_are_atomic:
  assumes "run_turns histogram_turn ts (unlocked (histogram_new bs)) = Some c"
    and "lk_history c = h1 @ (t, Take_Snapshot, r) # h2" and "sorted bs"
  shows "\<exists>cs s n. r = Some (cs, s, n) \<and>
    (cs, s, n) = histogram_snapshot (observe_all (observed h1) (histogram_new bs)) \<and>
    n = of_nat (length (observed h1)) \<and> sum_list cs = n \<and>
    (\<forall>i < length bs. sum_list (take (i + 1) cs) = of_nat (length (filter (\<lambda>v. v \<le> bs ! i) (observed h1))))"
proof -
  let ?h = "observe_all (observed h1) (histogram_new bs)"
  have new: "h_bounds (histogram_new bs) = bs" "h_total (histogram_new bs) = 0"
    "length (h_counts (histogram_new bs)) = length bs + 1"
    "sum_list (take k (h_counts (histogram_new bs))) = 0" for k
    by (simp_all add: histogram_new_def take_replicate sum_list_replicate del: replicate_Suc)
  from shared_histogram.atomic [OF histogram_run [OF assms(1)] assms(2)]
  have "r = Some (histogram_snapshot ?h)" by (simp add: after_histogram_calls)
  moreover from observe_all_wf [OF histogram_new_wf] have "sum_list (h_counts ?h) = h_total ?h"
    by (simp add: histogram_wf_def)
  moreover have "h_total ?h = of_nat (length (observed h1))"
    by (simp add: observe_all_total new)
  moreover have "sum_list (take (i + 1) (h_counts ?h)) =
      of_nat (length (filter (\<lambda>v. v \<le> bs ! i) (observed h1)))" if "i < length bs" for i
    using observe_all_prefix [of "histogram_new bs" i "observed h1"] that assms(3) by (simp add: new)
  ultimately show ?thesis by (simp add: histogram_snapshot_def)
qed

text \<open>
  Two threads: thread 1 asks for a snapshot when thread 0 is between two updates of an
  observation, waits, and takes it when the observation is complete.
\<close>

definition two_threads :: "(nat, histogram_call) lock_action list" where
  "two_threads =
     [Call 0 (Observe 1), Go 0, Go 0, Go 0, Go 0, Call 1 Take_Snapshot, Go 1, Go 0, Go 1, Go 0,
      Go 1, Go 1, Go 1, Go 1]"

lemmas run_histogram_simps =
  histogram_turn_def observe_statement_def snapshot_statement_def unlocked_def
  histogram_new_def histogram_locals_new_def

lemma two_threads_run:
  "\<exists>c r. run_turns histogram_turn two_threads (unlocked (histogram_new [1])) = Some c \<and>
     lk_history c = [(0, Observe 1, None)] @ (1, Take_Snapshot, r) # []"
  by (simp add: two_threads_def run_histogram_simps)

lemma snapshots_are_atomic_witness:
  "\<exists>c cs s. run_turns histogram_turn two_threads (unlocked (histogram_new [1])) = Some c \<and>
     lk_history c = [(0, Observe 1, None), (1, Take_Snapshot, Some (cs, s, 1))] \<and> sum_list cs = 1"
proof -
  obtain c r where c: "run_turns histogram_turn two_threads (unlocked (histogram_new [1])) = Some c"
    "lk_history c = [(0, Observe 1, None)] @ (1, Take_Snapshot, r) # []"
    using two_threads_run by blast
  from snapshots_are_atomic [OF this] c show ?thesis by auto
qed

text \<open>
  C33: a thread that has the mutex of the histogram is the only one in a critical section, no
  thread ever indexes the counts out of bounds, and after at most five turns of its own more than
  there are buckets the call has ended, as the next one in the history, whatever the other
  threads do meanwhile.
\<close>

theorem critical_sections_end:
  assumes "run_turns histogram_turn ts (unlocked (histogram_new bs)) = Some c"
    and "lk_phase c t = Inside op k l"
    and "run_turns histogram_turn us c = Some c'"
    and "length bs + 5 \<le> count_list us (Go t)"
  shows "(\<forall>u op' k' l'. lk_phase c u = Inside op' k' l' \<longrightarrow> u = t) \<and>
    (\<forall>u. histogram_turn (Go u) c \<noteq> None) \<and>
    (\<exists>r h. lk_history c' = lk_history c @ (t, op, r) # h)"
proof -
  note c = histogram_run [OF assms(1)]
  have "h_bounds (lk_shared c) = bs"
    using histogram_ann_bounds [OF shared_histogram.guarded_inside(2) [OF c assms(2)]]
    by (simp add: after_histogram_calls observe_all_bounds) (simp add: histogram_new_def)
  with histogram_left_bound [of op k "lk_shared c" l] assms(4)
  have "histogram_left op k (lk_shared c) l < count_list us (Go t)" by simp
  with shared_histogram.released [OF c assms(2)] assms(3)
  have "\<exists>r h. lk_history c' = lk_history c @ (t, op, r) # h"
    by (simp add: histogram_turn_def)
  moreover have "\<forall>u op' k' l'. lk_phase c u = Inside op' k' l' \<longrightarrow> u = t"
    using shared_histogram.exclusive [OF c assms(2)] by blast
  moreover have "\<forall>u. histogram_turn (Go u) c \<noteq> None"
    using shared_histogram.never_stuck [OF c] by (simp add: histogram_turn_def)
  ultimately show ?thesis by blast
qed

lemma critical_sections_end_witness:
  "\<exists>c c' l r h. run_turns histogram_turn [Call (0 :: nat) (Observe 1), Go 0] (unlocked (histogram_new [1])) = Some c \<and>
     lk_phase c 0 = Inside (Observe 1) 0 l \<and>
     run_turns histogram_turn (concat (replicate 6 [Go 1, Go 0])) c = Some c' \<and>
     lk_history c' = lk_history c @ (0, Observe 1, r) # h"
proof -
  have "\<exists>c c' l. run_turns histogram_turn [Call (0 :: nat) (Observe 1), Go 0] (unlocked (histogram_new [1])) = Some c \<and>
     lk_phase c 0 = Inside (Observe 1) 0 l \<and>
     run_turns histogram_turn (concat (replicate 6 [Go 1, Go 0])) c = Some c'"
    by (simp add: run_histogram_simps eval_nat_numeral)
  then obtain c c' l where c:
    "run_turns histogram_turn [Call (0 :: nat) (Observe 1), Go 0] (unlocked (histogram_new [1])) = Some c"
    "lk_phase c 0 = Inside (Observe 1) 0 l"
    "run_turns histogram_turn (concat (replicate 6 [Go 1, Go 0])) c = Some c'"
    by blast
  from critical_sections_end [OF this] c show ?thesis by (auto simp: eval_nat_numeral)
qed

text \<open>
  C32: whatever the threads do at once, the stream information that a reader gets is never
  torn and never half known: it is the format of the last call of \<open>set_stream_info\<close> that ended before
  it, with all its members, and there is none exactly if no such call did.
\<close>

theorem stream_info_never_torn:
  assumes "run_turns stream_info_turn ts (unlocked capture_stats_new) = Some c"
    and "lk_history c = h1 @ (t, Get_Info, r) # h2"
  shows "r = (if formats_set h1 = [] then None else Some (last (formats_set h1)))"
proof -
  from assms(1) have "shared_stream_info.guarded capture_stats_new c"
    unfolding stream_info_turn_def by (rule shared_stream_info.guarded_run) simp
  from shared_stream_info.atomic [OF this assms(2)] show ?thesis
    by (simp add: stream_info_after) (simp add: capture_stats_new_def stream_info_def)
qed

text \<open>The second format is half written when the reader arrives.\<close>

definition reader_in_between :: "stream_format \<Rightarrow> stream_format \<Rightarrow> (nat, stream_info_call) lock_action list" where
  "reader_in_between f g =
     [Call 0 (Set_Info f)] @ replicate 8 (Go 0) @ [Call 0 (Set_Info g)] @ replicate 3 (Go 0) @
     [Call 1 Get_Info, Go 1] @ replicate 5 (Go 0) @ replicate 9 (Go 1)"

lemma reader_in_between_run:
  "\<exists>c r. run_turns stream_info_turn (reader_in_between f g) (unlocked capture_stats_new) = Some c \<and>
     lk_history c = [(0, Set_Info f, None), (0, Set_Info g, None)] @ (1, Get_Info, r) # []"
  by (simp add: reader_in_between_def stream_info_turn_def unlocked_def stream_info_locals_new_def
        eval_nat_numeral)

lemma stream_info_never_torn_witness:
  "\<forall>f g. \<exists>c. run_turns stream_info_turn (reader_in_between f g) (unlocked capture_stats_new) = Some c \<and>
     lk_history c = [(0, Set_Info f, None), (0, Set_Info g, None), (1, Get_Info, Some g)]"
proof (intro allI)
  fix f g
  obtain c r where c:
    "run_turns stream_info_turn (reader_in_between f g) (unlocked capture_stats_new) = Some c"
    "lk_history c = [(0, Set_Info f, None), (0, Set_Info g, None)] @ (1, Get_Info, r) # []"
    using reader_in_between_run by blast
  from stream_info_never_torn [OF this] c
  show "\<exists>c. run_turns stream_info_turn (reader_in_between f g) (unlocked capture_stats_new) = Some c \<and>
     lk_history c = [(0, Set_Info f, None), (0, Set_Info g, None), (1, Get_Info, Some g)]"
    by (auto simp: formats_set_def)
qed

end
