(* ===== verification/Spec2Isabelle.thy ===== *)
theory Spec2Isabelle
  imports Capture_Correct Timing_Correct Device_Correct Report_Correct Http_Correct
    Producer_Correct Startup_Correct Shutdown_Correct Shared_Correct
begin

text \<open>
  A verification library for hamstercam: the daemon \<open>hamstercamd\<close>, which watches a
  v4l2loopback device and reports whether frames arrive, and the companion
  \<open>hamstercam-exporter\<close>, which turns the progress text of an ffmpeg producer into metrics.

  \<^bold>\<open>The programs.\<close> The daemon (\<^verbatim>\<open>src/main.cpp\<close>) reads its settings, constructs a
  \<open>V4L2CaptureDevice\<close> and a \<open>CaptureStateMachine\<close>, and calls \<open>step()\<close> in a loop, sleeping
  the waits that the machine recommends. The machine drives the device through its life
  (absent, awaiting a producer, streaming, released after a stall), counts into
  \<open>CaptureStats\<close> and announces events, which \<open>JsonEventSink\<close> writes as lines of JSON. A
  second thread runs \<open>HttpServer\<close>, whose handler renders the statistics as a page of
  Prometheus text. The exporter (\<^verbatim>\<open>src/exporter_main.cpp\<close>) runs two threads
  beside its main one: \<open>ProgressSocketServer\<close> feeds what it receives to \<open>ProgressParser\<close>, and
  the same HTTP server shows the resulting \<open>ProducerStats\<close>. A signal sets a flag that the main
  thread reads; it then sets the flags of the servers and joins their threads.

  \<^bold>\<open>How the model is written.\<close> What a piece of code does to the outside is a function
  of a world of any type. A record of functions (\<open>env\<close> for a device and a clock, \<open>kernel\<close>
  for the system calls under the V4L2 device, \<open>net\<close> for the sockets, \<open>daemon_os\<close> and
  \<open>exporter_os\<close> for the programs) stands for code outside the repository; every theorem is
  about all of them, or names what it needs of them. A function with result
  \<open>('a \<times> 'w) option\<close> is \<open>None\<close> exactly where the code does not return or has no defined
  outcome. C++ integers of a fixed width are words, time counts are integers (the bounds
  proved keep them far inside 64 bits), a \<open>double\<close> is the rational it denotes, rounded after
  each operation, with the infinities and NaN where input can produce them.

  \<^bold>\<open>The theories.\<close> The machine's side:
  \<^item> \<open>Prelude\<close>, \<open>Doubles\<close>: machine integers, units of time, rounding, the rules for \<open>do\<close>
    blocks (collection \<open>bind_iff\<close>); binary64 arithmetic.
  \<^item> \<open>Backoff\<close>, \<open>Capture_Types\<close>, \<open>Stats\<close>: \<^verbatim>\<open>backoff.hpp\<close>, the enumerations and
    structures, \<^verbatim>\<open>histogram.hpp\<close> and \<^verbatim>\<open>stats.hpp\<close>.
  \<^item> \<open>Capture_Machine\<close>: \<^verbatim>\<open>capture_state_machine.cpp\<close>, method by method.
    \<open>Capture_Steps\<close> states the same as a relation with one rule per way a call can go;
    \<open>Capture_Lifecycle\<close> is the abstract life cycle, its refinement and the accounts of
    events and counters; \<open>Capture_Timing\<close> the waits, thresholds and rates;
    \<open>Capture_Progress\<close> when calls return and when a device streams again.
  \<^item> \<open>Capture_Device\<close>: the interface to the device as locales. \<open>capture_device\<close> says how each
    method moves a device between closed, open and streaming, \<open>buffer_device\<close> how buffers
    are lent and returned, \<open>env_invariant\<close> what it takes to carry an invariant of the world.
    They are interpreted on the V4L2 device (\<open>V4L2_Device\<close>, for the descriptor alone and for
    descriptor and mappings), on the books of a ledgered kernel (\<open>V4L2_Resources\<close>), on any
    device with its loans counted, and on the scripted test device (\<open>Fake_Device\<close>).
  \<^item> \<open>V4L2_Device\<close>, \<open>V4L2_Resources\<close>: \<^verbatim>\<open>v4l2_capture_device.cpp\<close> over a kernel, and
    the same kernel keeping a ledger of open descriptors and live mappings.
  \<^item> \<open>Fake_Device\<close>, \<open>Capture_Demo\<close>: the repository's scripted device and a concrete life on
    it, to which the theorems are applied.

  Text, reports and servers:
  \<^item> \<open>Text\<close>, \<open>Float_Text\<close>: strings, decimal numbers, \<open>std::stod\<close> and the printing of doubles.
  \<^item> \<open>Metrics_Text\<close>: \<^verbatim>\<open>metrics_primitives.cpp\<close>, \<^verbatim>\<open>metrics.cpp\<close>,
    \<^verbatim>\<open>exporter_metrics.cpp\<close> and a reader of the format as the specification.
    \<open>Json_Logger\<close>: \<^verbatim>\<open>json_logger.cpp\<close> and a reader of flat objects.
    \<open>Process_Info\<close>: \<^verbatim>\<open>process_info.cpp\<close>.
  \<^item> \<open>Net\<close>, \<open>Http_Server\<close>: sockets, and \<^verbatim>\<open>http_server.cpp\<close>. The locale \<open>net_frame\<close>
    says what the socket calls leave alone and carries it over to the servers; the locale
    \<open>metrics_endpoint\<close> is what a program promises of its handler; both programs interpret it. \<open>beside_net\<close>, \<open>tracked\<close>,
    \<open>wired\<close> and \<open>heard\<close> are the same sockets in a world that also keeps something else: the
    standard output or the flags, the open sockets, what was sent, what was received.
  \<^item> \<open>Progress_Parser\<close>, \<open>Progress_Socket\<close>, \<open>Progress_Thread\<close>: \<^verbatim>\<open>progress_parser.cpp\<close>,
    \<^verbatim>\<open>progress_socket_server.cpp\<close> as loops, and the same thread in small steps.
  \<^item> \<open>Command_Line\<close>, \<open>Daemon_Main\<close>, \<open>Daemon_Threads\<close>, \<open>Exporter_Main\<close>: flags (locale
    \<open>flag_table\<close>, interpreted for both programs), the parts of the daemon, and the two programs
    from their arguments to their exit code with their threads interleaved. \<open>Daemon_Log\<close> is the
    standard output of the daemon: the machine hands its events to a sink, and the sink of the
    program writes their lines.
  \<^item> \<open>Signals\<close>, \<open>Shutdown\<close>, \<open>Exporter_Shutdown\<close>: the handlers and the stop flags, a world with
    the flags beside it (\<open>flagged_daemon\<close>, \<open>flagged_exporter\<close>), and both programs as turns that a
    schedule gives out. The locale \<open>stopping_thread\<close> is what a thread promises that has been
    asked to stop: the request stays, its own turns bring it nearer to its end, no other turn
    takes it away. It is interpreted on each of the five threads, with the longest way to
    the end as the rank: five turns for the main thread of the daemon (from a sleep over the
    loop, the stop, the close and the notice to the server), three for that of the exporter, two
    for the progress thread, one for an HTTP thread.

  \<^item> \<open>Turns\<close>, \<open>Locked\<close>, \<open>Shared_Stats\<close>: schedules of turns; threads at a mutex, who wait at the
    \<open>lock_guard\<close>, execute the body of their call statement by statement and release the mutex
    where it returns; and the histogram and the stream information as such bodies. The locale
    \<open>guarded_object\<close> asks for an annotation of each statement and gives mutual exclusion,
    calls that answer as if each had happened at once, and critical sections that end.
    Both objects interpret it, with the operations of \<open>Stats\<close> as the calls in one piece.

  The properties, by theory: \<open>Capture_Correct\<close> (the life cycle, its events and counters, each
  decision of the machine), \<open>Timing_Correct\<close> (waits, thresholds, histogram, rates),
  \<open>Device_Correct\<close> (buffers, descriptors, mappings, the whole daemon), \<open>Report_Correct\<close> (pages
  and log read back, the standard output of a whole run), \<open>Http_Correct\<close> (requests, responses, the pages both programs
  serve, sockets), \<open>Producer_Correct\<close> (the progress text, its socket, its gauge),
  \<open>Startup_Correct\<close> (flags, numbers, waits), \<open>Shutdown_Correct\<close> (signals, the end of both programs,
  and the one client that can prevent it; loops, steps and turns agree), \<open>Shared_Correct\<close> (what
  the threads share under a mutex).

  \<^bold>\<open>Loops.\<close> Loops over data are structural or have a measure (the bytes left to search,
  the arguments left, the time left to sleep, the bytes left to send, the room left in the
  request buffer). The loops that the outside may keep alive for ever (retrying an
  interrupted call, enumerating formats, serving until a flag is set, the capture loop) are
  partial functions: not returning is \<open>None\<close>, and \<open>xioctl_returns\<close>, \<open>step_total\<close>,
  \<open>interruptible_sleep\<close> and the witnesses say when they return. No fuel is used.

  \<^bold>\<open>Threads.\<close> The threads of both programs and the signals are interleaved step by step: one look at the
  stop flag with the calls that follow it up to the next look (for the daemon: one call of
  \<open>step()\<close>, one chunk of a sleep), on the one side, one turn of the accept loop on the other. A signal that arrives inside a step counts
  from its end, which is where its flag is looked at next, and the sink takes the events of a call of \<open>step()\<close> when the call ends. A turn whose call does not return is
  no step; what follows from that for the whole program is said of \<open>http_run\<close>, which has no
  result then.
  Where the code has loops, they are also functions, and the functions are proved to be
  exactly the sequences of their steps. The critical sections of the statistics are also
  modelled statement by statement, for any threads in any order, and proved to be one piece
  each. Inside one step the atomic accesses to
  the statistics are not interleaved: a reader that looks between two stores of the same call
  (the momentary states \<open>Configuring\<close> and \<open>Stalled\<close>, the gauge between the close of a
  connection and its store) is outside the model.

  \<^bold>\<open>Not modelled.\<close> What happens to a signal before the handlers are installed (the
  default action), the memory order of the atomics, flushing of streams, the text of
  \<open>strerror\<close> and the addresses \<open>getaddrinfo\<close> returns (parameters), the build files and the
  generated version header (parameters), and the test cases, of which only the scripted device
  and clock are used.
\<close>

end
